(* ===== verification/Prelude.thy ===== *)
theory Prelude
  imports Main "HOL-Library.Word"
begin

text \<open>
  Shared material of the development: names for the machine types of the arm64 build, the
  numbering of the errno values the sources return, byte buffers with the copy operations the C
  code uses on them (\<open>memcpy\<close>, \<open>memmove\<close>), the C heap as far as the sources observe it,
  little-endian fields of packed structures, and the C string functions \<open>strlen\<close> and
  \<open>strncmp\<close>. The lemmas are declared \<open>[simp]\<close> or collected in \<open>buf_simps\<close>, so that the
  component proofs use them through the simplifier.
\<close>

unbundle bit_operations_syntax

named_theorems buf_simps "reads and writes of byte buffers"

subsection \<open>Machine types\<close>

type_synonym byte = "8 word"
type_synonym u8 = "8 word"
type_synonym u16 = "16 word"
type_synonym u32 = "32 word"
type_synonym u64 = "64 word"
type_synonym buf = "byte list"

text \<open>
  \<open>loff_t\<close>, \<open>long\<close> and \<open>int\<close> values are modelled as \<^typ>\<open>int\<close>; where the source mixes them
  with an unsigned 64-bit operand the conversion is written out with \<open>to_ulong\<close> and \<open>to_long\<close>.
\<close>

definition to_ulong :: "int \<Rightarrow> int" where
  "to_ulong x = x mod 2 ^ 64"

definition to_long :: "int \<Rightarrow> int" where
  "to_long x = (let y = x mod 2 ^ 64 in if y < 2 ^ 63 then y else y - 2 ^ 64)"

definition to_int :: "int \<Rightarrow> int" where
  "to_int x = (let y = x mod 2 ^ 32 in if y < 2 ^ 31 then y else y - 2 ^ 32)"

definition INT_MAX :: int where
  [simp]: "INT_MAX = 2147483647"

subsection \<open>Error numbers (include/linux/errno.h)\<close>

definition ENOENT :: int where [simp]: "ENOENT = 2"
definition E2BIG :: int where [simp]: "E2BIG = 7"
definition ENOMEM :: int where [simp]: "ENOMEM = 12"
definition EEXIST :: int where [simp]: "EEXIST = 17"
definition ENODEV :: int where [simp]: "ENODEV = 19"
definition EINVAL :: int where [simp]: "EINVAL = 22"
definition ENOSPC :: int where [simp]: "ENOSPC = 28"

subsection \<open>Buffers\<close>

definition chunk :: "nat \<Rightarrow> nat \<Rightarrow> 'a list \<Rightarrow> 'a list" where
  "chunk off n xs = take n (drop off xs)"

text \<open>\<open>blit off ys xs\<close> is the buffer \<open>xs\<close> after the elements \<open>ys\<close> were stored from index \<open>off\<close> on.\<close>

definition blit :: "nat \<Rightarrow> 'a list \<Rightarrow> 'a list \<Rightarrow> 'a list" where
  "blit off ys xs = take off xs @ ys @ drop (off + length ys) xs"

subsection \<open>The heap, as far as the sources observe it\<close>

text \<open>
  An allocation either fails (\<open>NULL\<close>) or returns a block of the requested size whose contents
  are unspecified: \<open>malloc_ok\<close> says which requests succeed, \<open>junk\<close> what fresh memory holds.
\<close>

record c_heap =
  malloc_ok :: "nat \<Rightarrow> bool"
  junk :: "nat \<Rightarrow> byte"

definition c_malloc :: "c_heap \<Rightarrow> nat \<Rightarrow> buf option" where
  "c_malloc h n = (if malloc_ok h n then Some (map (junk h) [0..<n]) else None)"

definition c_realloc :: "c_heap \<Rightarrow> buf \<Rightarrow> nat \<Rightarrow> buf option" where
  "c_realloc h b n =
     (if malloc_ok h n then Some (take n b @ map (junk h) [length b..<n]) else None)"

text \<open>A heap on which every allocation succeeds, for the examples.\<close>

definition heap_ok :: c_heap where
  "heap_ok = \<lparr>malloc_ok = (\<lambda>_. True), junk = (\<lambda>_. 0)\<rparr>"

subsection \<open>Little-endian fields\<close>

fun le_nat :: "byte list \<Rightarrow> nat" where
  "le_nat [] = 0"
| "le_nat (b # bs) = unat b + 256 * le_nat bs"

fun le_bytes :: "nat \<Rightarrow> nat \<Rightarrow> byte list" where
  "le_bytes 0 x = []"
| "le_bytes (Suc n) x = of_nat (x mod 256) # le_bytes n (x div 256)"

text \<open>The field of \<open>n\<close> bytes at offset \<open>off\<close> of a packed little-endian structure.\<close>

definition le_field :: "nat \<Rightarrow> nat \<Rightarrow> buf \<Rightarrow> nat" where
  "le_field off n b = le_nat (chunk off n b)"

subsection \<open>C strings\<close>

text \<open>\<open>strncmp a b n = 0\<close>: equal up to \<open>n\<close> bytes or the first NUL of both.\<close>

fun strneq :: "byte list \<Rightarrow> byte list \<Rightarrow> nat \<Rightarrow> bool" where
  "strneq as bs 0 = True"
| "strneq as bs (Suc n) =
     (let a = (case as of [] \<Rightarrow> 0 | x # _ \<Rightarrow> x);
          b = (case bs of [] \<Rightarrow> 0 | x # _ \<Rightarrow> x)
      in a = b \<and> (a = 0 \<or> strneq (drop 1 as) (drop 1 bs) n))"

definition bytes_of_string :: "string \<Rightarrow> byte list" where
  "bytes_of_string s = map of_char s"

subsection \<open>Alignment (include/linux/kernel.h)\<close>

definition align_up :: "u64 \<Rightarrow> u64 \<Rightarrow> u64" where
  "align_up x a = (x + (a - 1)) AND NOT (a - 1)"

definition align_down :: "u64 \<Rightarrow> u64 \<Rightarrow> u64" where
  "align_down x a = align_up (x - (a - 1)) a"

subsection \<open>Lemmas\<close>

lemma length_chunk [simp]: "length (chunk off n xs) = min n (length xs - off)"
  by (simp add: chunk_def min.commute)

lemma chunk_0 [simp]: "chunk off 0 xs = []"
  by (simp add: chunk_def)

lemma chunk_all [simp]: "chunk 0 (length xs) xs = xs"
  by (simp add: chunk_def)

lemma nth_chunk: "i < n \<Longrightarrow> off + i < length xs \<Longrightarrow> chunk off n xs ! i = xs ! (off + i)"
  by (simp add: chunk_def)

lemma chunk_append_chunk:
  "chunk off m xs @ chunk (off + m) n xs = chunk off (m + n) xs"
proof -
  have "take n (drop (off + m) xs) = take n (drop m (drop off xs))"
    by (simp add: add.commute)
  then show ?thesis by (simp add: chunk_def take_add)
qed

lemma chunk_chunk: "i + k \<le> n \<Longrightarrow> chunk i k (chunk off n xs) = chunk (off + i) k xs"
  by (simp add: chunk_def drop_take take_take add.commute min_def)

lemma length_blit [simp]: "off + length ys \<le> length xs \<Longrightarrow> length (blit off ys xs) = length xs"
  by (simp add: blit_def)

lemma blit_Nil [simp]: "blit off [] xs = xs"
  by (simp add: blit_def)

lemma blit_adjacent:
  "p + length xs \<le> length b \<Longrightarrow> blit (p + length xs) ys (blit p xs b) = blit p (xs @ ys) b"
  by (simp add: blit_def ac_simps)

lemma nth_blit:
  assumes "off + length ys \<le> length xs" and "i < length xs"
  shows "blit off ys xs ! i =
    (if off \<le> i \<and> i < off + length ys then ys ! (i - off) else xs ! i)"
  using assms by (auto simp: blit_def nth_append min_def)

lemma chunk_blit [buf_simps]:
  "off + length ys \<le> length xs \<Longrightarrow> chunk off (length ys) (blit off ys xs) = ys"
  by (simp add: chunk_def blit_def)

lemma chunk_blit_before [buf_simps]:
  "off + length ys \<le> length xs \<Longrightarrow> i + n \<le> off \<Longrightarrow> chunk i n (blit off ys xs) = chunk i n xs"
  by (rule nth_equalityI) (auto simp: nth_chunk nth_blit)

lemma chunk_blit_after [buf_simps]:
  "off + length ys \<le> length xs \<Longrightarrow> off + length ys \<le> i \<Longrightarrow>
   chunk i n (blit off ys xs) = chunk i n xs"
  by (rule nth_equalityI) (auto simp: nth_chunk nth_blit)

lemma take_eq_chunk: "take n xs = chunk 0 n xs"
  by (simp add: chunk_def)

lemma drop_eq_chunk: "drop n xs = chunk n (length xs - n) xs"
  by (simp add: chunk_def)

lemma c_malloc_length: "c_malloc h n = Some b \<Longrightarrow> length b = n"
  by (auto simp: c_malloc_def split: if_splits)

lemma c_realloc_length: "c_realloc h b n = Some b' \<Longrightarrow> length b' = n"
  by (auto simp: c_realloc_def split: if_splits)

lemma c_realloc_chunk:
  "c_realloc h b n = Some b' \<Longrightarrow> i + k \<le> length b \<Longrightarrow> i + k \<le> n \<Longrightarrow> chunk i k b' = chunk i k b"
  by (auto simp: c_realloc_def chunk_def min_def drop_take split: if_splits)

lemma length_le_bytes [simp]: "length (le_bytes n x) = n"
  by (induction n arbitrary: x) auto

lemma le_nat_le_bytes: "le_nat (le_bytes n x) = x mod 256 ^ n"
proof (induction n arbitrary: x)
  case 0
  then show ?case by simp
next
  case (Suc n)
  have "unat (of_nat (x mod 256) :: byte) = x mod 256"
    by (simp add: unat_of_nat)
  with Suc show ?case
    by (simp add: mod_mult2_eq)
qed

lemma le_nat_bound: "le_nat bs < 256 ^ length bs"
proof (induction bs)
  case Nil
  then show ?case by simp
next
  case (Cons b bs)
  have "unat b < 256" using unsigned_less [where 'a = nat, of b] by simp
  with Cons show ?case by simp
qed

lemma le_field_bound: "le_field off n b < 256 ^ n"
proof -
  have "le_nat (chunk off n b) < 256 ^ length (chunk off n b)" by (rule le_nat_bound)
  also have "\<dots> \<le> 256 ^ n" by (rule power_increasing) auto
  finally show ?thesis by (simp add: le_field_def)
qed

lemma to_long_small:
  assumes "- (2 ^ 63) \<le> x" and "x < 2 ^ 63"
  shows "to_long x = x"
proof (cases "0 \<le> x")
  case True
  with assms show ?thesis by (simp add: to_long_def)
next
  case False
  have "x mod 2 ^ 64 = (x + 2 ^ 64) mod 2 ^ 64" by simp
  also have "\<dots> = x + 2 ^ 64" using False assms by (intro mod_pos_pos_trivial) auto
  finally show ?thesis using False assms by (simp add: to_long_def)
qed

lemma to_ulong_small: "0 \<le> x \<Longrightarrow> x < 2 ^ 64 \<Longrightarrow> to_ulong x = x"
  by (simp add: to_ulong_def)


lemma unat_ucast_16_32 [simp]: "unat (ucast (x :: u16) :: u32) = unat x"
  using unsigned_less [where 'a = nat, of x] by (simp add: unsigned_ucast_eq take_bit_nat_eq_self)

lemma unat_ucast_32_16: "unat x < 65536 \<Longrightarrow> unat (ucast (x :: u32) :: u16) = unat x"
  by (simp add: unsigned_ucast_eq take_bit_nat_eq_self)

lemma unat_u16_less: "unat (x :: u16) < 65536"
  using unsigned_less [where 'a = nat, of x] by simp

lemma unat_u32_less: "unat (x :: u32) < 4294967296"
  using unsigned_less [where 'a = nat, of x] by simp

lemma unat_mult_small: "unat x * unat y < 2 ^ LENGTH('a) \<Longrightarrow> unat (x * y) = unat x * unat (y :: 'a::len word)"
  by (simp add: unat_mult_lem)

lemma take_replicate_update: "n < m \<Longrightarrow> take (Suc n) ((replicate m z)[n := b]) = replicate n z @ [b]"
  by (simp add: take_Suc_conv_app_nth)

lemma u64_less: "unat (x :: u64) < 18446744073709551616"
  using unsigned_less [where 'a = nat, of x] by simp

lemma unat_drop_bit: "unat (drop_bit k (x :: 'a::len word)) = unat x div 2 ^ k"
  unfolding unsigned_drop_bit_eq using unsigned_less [where 'a = nat, of x] by (simp add: drop_bit_eq_div take_bit_nat_eq_self)

lemma align_down_and: "align_down x a = x AND NOT (a - 1)"
  by (simp add: align_down_def align_up_def)

lemma align_down_le: "align_down x a \<le> x"
  by (simp add: align_down_and word_and_le2)

lemma align_down_pow:
  assumes "k < 64"
  shows "unat (align_down x (2 ^ k)) = unat x div 2 ^ k * 2 ^ k"
proof -
  have "align_down x (2 ^ k) = push_bit k (drop_bit k x)"
    unfolding align_down_and mask_eq_exp_minus_1 [symmetric]
    by (rule bit_word_eqI) (auto simp: bit_simps)
  moreover have "unat x div 2 ^ k * 2 ^ k < 2 ^ 64"
    using u64_less [of x] by (intro le_less_trans [OF div_times_less_eq_dividend]) simp
  moreover have "unat (push_bit k (drop_bit k x)) = take_bit 64 (push_bit k (drop_bit k (unat x)))"
    using take_bit_nat_eq_self [of "unat x" 64] u64_less [of x]
    by (simp only: unsigned_push_bit_eq unsigned_drop_bit_eq) simp
  ultimately show ?thesis
    by (simp only: push_bit_eq_mult drop_bit_eq_div take_bit_nat_eq_self)
qed

lemma unat_u64_pow: "k < 64 \<Longrightarrow> unat (2 ^ k :: u64) = 2 ^ k"
proof -
  assume k: "k < 64"
  have "(2 ^ k :: u64) = of_nat (2 ^ k)" by simp
  then have "unat (2 ^ k :: u64) = 2 ^ k mod 2 ^ 64" by (simp only: unat_of_nat) simp_all
  moreover have "(2 :: nat) ^ k < 2 ^ 64" using k by (intro power_strict_increasing) simp_all
  ultimately show ?thesis by simp
qed

lemma align_down_greatest:
  assumes "k < 64"
  shows "2 ^ k dvd unat (align_down x (2 ^ k))"
    and "2 ^ k dvd b \<Longrightarrow> b \<le> unat x \<Longrightarrow> b \<le> unat (align_down x (2 ^ k))"
proof -
  show "2 ^ k dvd unat (align_down x (2 ^ k))" using align_down_pow [OF assms] by simp
  assume "2 ^ k dvd b" "b \<le> unat x"
  then obtain q where "b = 2 ^ k * q" by blast
  with \<open>b \<le> unat x\<close> have "q \<le> unat x div 2 ^ k"
    by (metis div_le_mono nonzero_mult_div_cancel_left power_eq_0_iff zero_neq_numeral)
  then show "b \<le> unat (align_down x (2 ^ k))"
    using align_down_pow [OF assms] \<open>b = 2 ^ k * q\<close> by (simp add: mult.commute)
qed

lemma align_up_pow:
  assumes "k < 64" and "unat x + 2 ^ k \<le> 2 ^ 64"
  shows "unat (align_up x (2 ^ k)) = (unat x + 2 ^ k - 1) div 2 ^ k * 2 ^ k"
proof -
  have m: "unat (2 ^ k - 1 :: u64) = 2 ^ k - 1"
  proof -
    have "(2 ^ k :: u64) \<noteq> 0" using unat_u64_pow [OF assms(1)] by (metis unat_0 power_not_zero zero_neq_numeral)
    then show ?thesis using unat_u64_pow [OF assms(1)] by (simp add: unat_minus_one)
  qed
  have "unat (x + (2 ^ k - 1)) = unat x + 2 ^ k - 1"
    using assms(2) m by (subst unat_plus_if') simp
  then show ?thesis
    using align_down_pow [OF assms(1), of "x + (2 ^ k - 1)"] by (simp add: align_up_def align_down_and)
qed

lemma div_up_bounds:
  assumes "0 < (d :: nat)"
  shows "x \<le> (x + d - 1) div d * d" and "(x + d - 1) div d * d < x + d"
  using div_mult_mod_eq [of "x + d - 1" d] mod_less_divisor [OF assms, of "x + d - 1"] assms by linarith+

lemma to_ulong_int: "k < 2 ^ 64 \<Longrightarrow> to_ulong (int k) = int k"
  by (rule to_ulong_small) simp_all

end
