(* ===== verification/Membuff.thy ===== *)
theory Membuff
  imports Prelude
begin

text \<open>
  The circular buffer of lib/membuff.c. A \<open>struct membuff\<close> holds four pointers into one block of
  memory; the model keeps the block itself (\<open>mb_start\<close>, \<^term>\<open>None\<close> for a null pointer) and the
  other three pointers as distances from \<open>start\<close>. Functions that hand out a pointer return its
  distance from \<open>start\<close>; functions that fill a caller's array return the bytes they store there.
  The lemmas show that the buffer is a bounded FIFO queue of bytes: \<open>mb_list\<close> is the queue it
  represents, every operation keeps \<open>membuff_wf\<close>, \<open>membuff_put\<close> appends what fits and
  \<open>membuff_get\<close> removes a prefix.
\<close>

subsection \<open>State\<close>

record membuff =
  mb_start :: "buf option"
  mb_end :: int
  mb_head :: int
  mb_tail :: int

text \<open>\<open>memcpy\<close> of \<open>bs\<close> to the address \<open>start + off\<close>.\<close>

definition mb_write :: "membuff \<Rightarrow> int \<Rightarrow> byte list \<Rightarrow> membuff" where
  "mb_write mb off bs = mb\<lparr>mb_start := map_option (blit (nat off) bs) (mb_start mb)\<rparr>"

text \<open>The \<open>len\<close> bytes from the address \<open>start + off\<close> on.\<close>

definition mb_read :: "membuff \<Rightarrow> int \<Rightarrow> int \<Rightarrow> byte list" where
  "mb_read mb off len = (case mb_start mb of None \<Rightarrow> [] | Some b \<Rightarrow> chunk (nat off) (nat len) b)"

subsection \<open>Operations\<close>

definition membuff_purge :: "membuff \<Rightarrow> membuff" where
  "membuff_purge mb = mb\<lparr>mb_head := 0, mb_tail := 0\<rparr>"

definition membuff_putrawflex :: "membuff \<Rightarrow> int \<Rightarrow> bool \<Rightarrow> int \<times> membuff \<times> int" where
  "membuff_putrawflex mb maxlen update =
     (let offset = mb_head mb in
      if mb_start mb = None then (0, mb, offset)
      else if mb_head mb \<ge> mb_tail mb then
        (let len0 = mb_end mb - mb_head mb - 1;
             len = (if maxlen \<ge> 0 \<and> len0 > maxlen then maxlen else len0);
             mb1 = (if update then mb\<lparr>mb_head := mb_head mb + len\<rparr> else mb)
         in if (maxlen < 0 \<or> len < maxlen) \<and> mb_tail mb1 \<noteq> 0
            then (len + 1, if update then mb1\<lparr>mb_head := 0\<rparr> else mb1, offset)
            else (len, mb1, offset))
      else
        (let len0 = mb_tail mb - mb_head mb - 1;
             len = (if maxlen \<ge> 0 \<and> len0 > maxlen then maxlen else len0);
             mb1 = (if update then mb\<lparr>mb_head := mb_head mb + len\<rparr> else mb)
         in (len, mb1, offset)))"

definition membuff_putraw :: "membuff \<Rightarrow> int \<Rightarrow> bool \<Rightarrow> int \<times> membuff \<times> int" where
  "membuff_putraw mb maxlen update =
     (case membuff_putrawflex mb maxlen update of (sz, mb', offset) \<Rightarrow> (sz, mb', offset))"

definition membuff_putbyte :: "membuff \<Rightarrow> int \<Rightarrow> bool \<times> membuff" where
  "membuff_putbyte mb ch =
     (case membuff_putraw mb 1 True of (sz, mb', data) \<Rightarrow>
        if sz \<noteq> 1 then (False, mb') else (True, mb_write mb' data [word_of_int ch]))"

definition membuff_getraw :: "membuff \<Rightarrow> int \<Rightarrow> bool \<Rightarrow> int \<times> membuff \<times> int" where
  "membuff_getraw mb maxlen update =
     (if mb_head mb > mb_tail mb then
        (let len0 = mb_head mb - mb_tail mb;
             len = (if maxlen \<ge> 0 \<and> len0 > maxlen then maxlen else len0)
         in (len, if update then mb\<lparr>mb_tail := mb_tail mb + len\<rparr> else mb, mb_tail mb))
      else if mb_head mb < mb_tail mb then
        (let len0 = mb_end mb - mb_tail mb;
             len = (if maxlen \<ge> 0 \<and> len0 > maxlen then maxlen else len0);
             t = mb_tail mb + len
         in (len, if update then mb\<lparr>mb_tail := (if t = mb_end mb then 0 else t)\<rparr> else mb, mb_tail mb))
      else (0, mb, 0))"

definition membuff_getbyte :: "membuff \<Rightarrow> int \<times> membuff" where
  "membuff_getbyte mb =
     (case membuff_getraw mb 1 True of (len, mb', data) \<Rightarrow>
        (if len \<noteq> 1 then - 1 else uint (hd (mb_read mb data 1)), mb'))"

definition membuff_peekbyte :: "membuff \<Rightarrow> int" where
  "membuff_peekbyte mb =
     (case membuff_getraw mb 1 False of (len, mb', data) \<Rightarrow>
        if len \<noteq> 1 then - 1 else uint (hd (mb_read mb data 1)))"

text \<open>The loop of \<open>membuff_get\<close>: at most two rounds, ended early by an empty one.\<close>

fun membuff_get_loop :: "nat \<Rightarrow> membuff \<Rightarrow> int \<Rightarrow> byte list \<Rightarrow> byte list \<times> membuff" where
  "membuff_get_loop 0 mb maxlen out = (out, mb)"
| "membuff_get_loop (Suc k) mb maxlen out =
     (case membuff_getraw mb maxlen True of (len, mb', data) \<Rightarrow>
        (let out' = out @ mb_read mb data len
         in if len = 0 then (out', mb') else membuff_get_loop k mb' (maxlen - len) out'))"

definition membuff_get :: "membuff \<Rightarrow> int \<Rightarrow> int \<times> byte list \<times> membuff" where
  "membuff_get mb maxlen =
     (case membuff_get_loop 2 mb maxlen [] of (out, mb') \<Rightarrow> (int (length out), out, mb'))"

fun membuff_put_loop :: "nat \<Rightarrow> membuff \<Rightarrow> byte list \<Rightarrow> int \<Rightarrow> int \<Rightarrow> int \<times> membuff" where
  "membuff_put_loop 0 mb buff len written = (written, mb)"
| "membuff_put_loop (Suc k) mb buff len written =
     (case membuff_putraw mb len True of (towrite, mb', data) \<Rightarrow>
        membuff_put_loop k (mb_write mb' data (take (nat towrite) buff))
          (drop (nat towrite) buff) (len - towrite) (written + towrite))"

definition membuff_put :: "membuff \<Rightarrow> byte list \<Rightarrow> int \<Rightarrow> int \<times> membuff" where
  "membuff_put mb buff len = membuff_put_loop 2 mb buff len 0"

definition membuff_isempty :: "membuff \<Rightarrow> bool" where
  "membuff_isempty mb \<longleftrightarrow> mb_head mb = mb_tail mb"

definition membuff_avail :: "membuff \<Rightarrow> int" where
  "membuff_avail mb =
     (case membuff_getraw mb (- 1) True of (n1, copy1, _) \<Rightarrow>
      case membuff_getraw copy1 (- 1) True of (n2, copy2, _) \<Rightarrow> n1 + n2)"

definition membuff_size :: "membuff \<Rightarrow> int" where
  "membuff_size mb = mb_end mb"

definition membuff_makecontig :: "membuff \<Rightarrow> bool \<times> membuff" where
  "membuff_makecontig mb =
     (if mb_tail mb > mb_head mb then
        (let topsize = mb_end mb - mb_tail mb; botsize = mb_head mb in
         if mb_head mb + topsize \<ge> mb_tail mb then (False, mb)
         else
           (let mb1 = mb_write mb topsize (mb_read mb 0 botsize);
                mb2 = mb_write mb1 0 (mb_read mb1 (mb_tail mb1) topsize)
            in (True, mb2\<lparr>mb_tail := 0, mb_head := topsize + botsize\<rparr>)))
      else
        (let topsize = mb_head mb - mb_tail mb; botsize = 0;
             mb2 = mb_write mb 0 (mb_read mb (mb_tail mb) topsize)
         in (True, mb2\<lparr>mb_tail := 0, mb_head := topsize + botsize\<rparr>)))"

definition membuff_free :: "membuff \<Rightarrow> int" where
  "membuff_free mb = (if mb_end mb = 0 then 0 else mb_end mb - 1 - membuff_avail mb)"

text \<open>
  The loop of \<open>membuff_readline\<close>. \<open>s\<close> and \<open>e\<close> are the scan position and its current limit, \<open>acc\<close>
  the bytes stored through \<open>str\<close> so far; plain \<open>char\<close> is unsigned on the target. A line end stops the
  loop before \<open>str\<close> is advanced, so the terminating NUL replaces it: it is left out of \<open>acc\<close>.
\<close>

function membuff_readline_loop ::
    "membuff \<Rightarrow> int \<Rightarrow> int \<Rightarrow> int \<Rightarrow> int \<Rightarrow> int \<Rightarrow> byte list \<Rightarrow> bool \<times> int \<times> int \<times> byte list" where
  "membuff_readline_loop mb maxlen minch s e len acc =
     (if s < e \<and> len < maxlen - 1 then
        (let c = hd (mb_read mb s 1); s1 = s + 1; len1 = len + 1 in
         if c = 10 \<or> uint c < minch then (True, s1, len1, acc)
         else if s1 = e \<and> mb_tail mb > mb_head mb
              then membuff_readline_loop mb maxlen minch 0 (mb_head mb) len1 (acc @ [c])
              else membuff_readline_loop mb maxlen minch s1 e len1 (acc @ [c]))
      else (False, s, len, acc))"
  by pat_completeness auto
termination
  by (relation "measure (\<lambda>(mb, maxlen, minch, s, e, len, acc). nat (maxlen - 1 - len))") auto

declare membuff_readline_loop.simps [simp del]

text \<open>The result, the string left in the caller's array (without its NUL) and the new state.\<close>

definition membuff_readline ::
    "membuff \<Rightarrow> int \<Rightarrow> int \<Rightarrow> bool \<Rightarrow> int \<times> byte list \<times> membuff" where
  "membuff_readline mb maxlen minch must_fit =
     (let e = (if mb_head mb \<ge> mb_tail mb then mb_head mb else mb_end mb) in
      case membuff_readline_loop mb maxlen minch (mb_tail mb) e 0 [] of (ok, s, len, acc) \<Rightarrow>
        if \<not> ok \<and> must_fit then (0, [], mb)
        else (len, acc, mb\<lparr>mb_tail := (if s = mb_end mb then 0 else s)\<rparr>))"

text \<open>
  The doubling loop of \<open>membuff_extend_by\<close>: \<^term>\<open>None\<close> when it does not end or when the signed
  multiplication overflows.
\<close>

partial_function (option) membuff_grow_size :: "int \<Rightarrow> int \<Rightarrow> int option" where
  "membuff_grow_size sz need =
     (if sz < need
      then (if 2 * sz > INT_MAX then None else membuff_grow_size (2 * sz) need)
      else Some sz)"

definition membuff_extend_by :: "c_heap \<Rightarrow> membuff \<Rightarrow> int \<Rightarrow> int \<Rightarrow> (int \<times> membuff) option" where
  "membuff_extend_by h mb by mx =
     (let orig = mb_end mb in
      case membuff_grow_size orig (orig + by) of None \<Rightarrow> None
      | Some size0 \<Rightarrow>
         (let sz = (if mx \<noteq> - 1 then min size0 mx else size0); by' = sz - orig in
          if by' \<le> 0 then Some (- E2BIG, mb)
          else
            (let old = (case mb_start mb of None \<Rightarrow> [] | Some b \<Rightarrow> b) in
             case c_realloc h old (nat sz) of None \<Rightarrow> Some (- ENOMEM, mb)
             | Some ptr \<Rightarrow>
                (let mb1 = mb\<lparr>mb_start := Some ptr\<rparr>;
                     mb2 = (if mb_head mb1 < mb_tail mb1
                            then (mb_write mb1 (mb_tail mb1 + by')
                                   (mb_read mb1 (mb_tail mb1) (orig - mb_tail mb)))
                                 \<lparr>mb_tail := mb_tail mb1 + by'\<rparr>
                            else mb1)
                 in Some (0, mb2\<lparr>mb_end := sz\<rparr>)))))"

definition membuff_init :: "membuff \<Rightarrow> buf \<Rightarrow> int \<Rightarrow> membuff" where
  "membuff_init mb buff sz = membuff_purge (mb\<lparr>mb_start := Some buff, mb_end := sz\<rparr>)"

definition membuff_new :: "c_heap \<Rightarrow> membuff \<Rightarrow> int \<Rightarrow> int \<times> membuff" where
  "membuff_new h mb sz =
     (case c_malloc h (nat sz) of None \<Rightarrow> (- ENOMEM, mb\<lparr>mb_start := None\<rparr>)
      | Some b \<Rightarrow> (0, membuff_init (mb\<lparr>mb_start := Some b\<rparr>) b sz))"

definition membuff_uninit :: "membuff \<Rightarrow> membuff" where
  "membuff_uninit mb = membuff_purge (mb\<lparr>mb_end := 0, mb_start := None\<rparr>)"

text \<open>\<open>membuff_dispose\<close> passes the address of the field, not the block, to \<open>free\<close>.\<close>

datatype free_arg = Free_start_field | Free_block "buf option"

definition membuff_dispose :: "membuff \<Rightarrow> free_arg \<times> membuff" where
  "membuff_dispose mb = (Free_start_field, membuff_uninit mb)"

subsection \<open>Invariant and abstraction\<close>

definition membuff_wf :: "membuff \<Rightarrow> bool" where
  "membuff_wf mb \<longleftrightarrow>
     (case mb_start mb of
        None \<Rightarrow> mb_end mb = 0 \<and> mb_head mb = 0 \<and> mb_tail mb = 0
      | Some b \<Rightarrow> mb_end mb = int (length b) \<and> 0 \<le> mb_head mb \<and> mb_head mb < mb_end mb \<and>
          0 \<le> mb_tail mb \<and> mb_tail mb < mb_end mb)"

definition mb_list :: "membuff \<Rightarrow> byte list" where
  "mb_list mb =
     (if mb_tail mb \<le> mb_head mb then mb_read mb (mb_tail mb) (mb_head mb - mb_tail mb)
      else mb_read mb (mb_tail mb) (mb_end mb - mb_tail mb) @ mb_read mb 0 (mb_head mb))"

text \<open>The room for new bytes, and how much of it one \<open>membuff_putraw\<close> can hand out.\<close>

definition mb_room :: "membuff \<Rightarrow> nat" where
  "mb_room mb = (case mb_start mb of None \<Rightarrow> 0 | Some b \<Rightarrow> length b - 1 - length (mb_list mb))"

definition mb_put_seg :: "membuff \<Rightarrow> int" where
  "mb_put_seg mb =
     (if mb_start mb = None then 0
      else if mb_tail mb \<le> mb_head mb
      then mb_end mb - mb_head mb - (if mb_tail mb = 0 then 1 else 0)
      else mb_tail mb - mb_head mb - 1)"

definition mb_get_seg :: "membuff \<Rightarrow> int" where
  "mb_get_seg mb =
     (if mb_tail mb \<le> mb_head mb then mb_head mb - mb_tail mb else mb_end mb - mb_tail mb)"

text \<open>The position of the \<open>k\<close>-th queued byte.\<close>

definition mb_pos :: "membuff \<Rightarrow> int \<Rightarrow> int" where
  "mb_pos mb k = (if mb_tail mb + k \<ge> mb_end mb then mb_tail mb + k - mb_end mb else mb_tail mb + k)"

definition is_eol :: "int \<Rightarrow> byte \<Rightarrow> bool" where
  "is_eol minch c \<longleftrightarrow> c = 10 \<or> uint c < minch"

text \<open>The limit of the scan of \<open>membuff_readline\<close> after \<open>k\<close> bytes.\<close>

definition mb_scan_end :: "membuff \<Rightarrow> int \<Rightarrow> int" where
  "mb_scan_end mb k =
     (if mb_tail mb \<le> mb_head mb then mb_head mb
      else if mb_tail mb + k < mb_end mb then mb_end mb else mb_head mb)"

definition mb_capacity :: "membuff \<Rightarrow> nat" where
  "mb_capacity mb = (case mb_start mb of None \<Rightarrow> 0 | Some b \<Rightarrow> length b - 1)"

datatype fifo_op = Fput "byte list" | Fget nat

datatype fifo_res = Rput nat | Rget "byte list"

definition fifo_put :: "nat \<Rightarrow> byte list \<Rightarrow> byte list \<Rightarrow> nat \<times> byte list" where
  "fifo_put cap q xs = (let n = min (length xs) (cap - length q) in (n, q @ take n xs))"

definition fifo_get :: "byte list \<Rightarrow> nat \<Rightarrow> byte list \<times> byte list" where
  "fifo_get q n = (take n q, drop n q)"

fun fifo_run ::
    "('q \<Rightarrow> byte list \<Rightarrow> nat \<times> 'q) \<Rightarrow> ('q \<Rightarrow> nat \<Rightarrow> byte list \<times> 'q) \<Rightarrow> 'q \<Rightarrow> fifo_op list \<Rightarrow> fifo_res list \<times> 'q" where
  "fifo_run put get q [] = ([], q)"
| "fifo_run put get q (Fput xs # ops) =
     (case put q xs of (n, q1) \<Rightarrow> case fifo_run put get q1 ops of (rs, q2) \<Rightarrow> (Rput n # rs, q2))"
| "fifo_run put get q (Fget n # ops) =
     (case get q n of (xs, q1) \<Rightarrow> case fifo_run put get q1 ops of (rs, q2) \<Rightarrow> (Rget xs # rs, q2))"

text \<open>The two calls as a client of the queue sees them.\<close>

definition mb_put :: "membuff \<Rightarrow> byte list \<Rightarrow> nat \<times> membuff" where
  "mb_put mb xs = (case membuff_put mb xs (int (length xs)) of (n, mb') \<Rightarrow> (nat n, mb'))"

definition mb_get :: "membuff \<Rightarrow> nat \<Rightarrow> byte list \<times> membuff" where
  "mb_get mb n = (case membuff_get mb (int n) of (_, xs, mb') \<Rightarrow> (xs, mb'))"

definition mb_ex :: membuff where
  "mb_ex = \<lparr>mb_start = Some [1, 2, 3, 4, 5, 6], mb_end = 6, mb_head = 2, mb_tail = 4\<rparr>"

subsection \<open>Lemmas\<close>

lemma mb_read_None [simp]: "mb_start mb = None \<Longrightarrow> mb_read mb off len = []"
  by (simp add: mb_read_def)

lemma mb_read_zero [simp]: "mb_read mb off 0 = []"
  by (simp add: mb_read_def split: option.splits)

lemma mb_write_sel [simp]:
  "mb_end (mb_write mb off bs) = mb_end mb"
  "mb_head (mb_write mb off bs) = mb_head mb"
  "mb_tail (mb_write mb off bs) = mb_tail mb"
  "mb_start (mb_write mb off bs) = map_option (blit (nat off) bs) (mb_start mb)"
  by (simp_all add: mb_write_def)

lemma mb_read_upd [simp]:
  "mb_read (mb\<lparr>mb_head := h\<rparr>) off len = mb_read mb off len"
  "mb_read (mb\<lparr>mb_tail := t\<rparr>) off len = mb_read mb off len"
  "mb_read (mb\<lparr>mb_end := e\<rparr>) off len = mb_read mb off len"
  by (simp_all add: mb_read_def)

lemma length_mb_list:
  assumes "membuff_wf mb"
  shows "int (length (mb_list mb)) =
    (if mb_tail mb \<le> mb_head mb then mb_head mb - mb_tail mb
     else mb_end mb - mb_tail mb + mb_head mb)"
  using assms by (auto simp: membuff_wf_def mb_list_def mb_read_def nat_diff_distrib split: option.splits)

lemma mb_room_eq:
  assumes "membuff_wf mb"
  shows "int (mb_room mb) =
    (if mb_start mb = None then 0
     else if mb_tail mb \<le> mb_head mb then mb_end mb - 1 - (mb_head mb - mb_tail mb)
     else mb_tail mb - mb_head mb - 1)"
  using assms length_mb_list [OF assms]
  by (auto simp: membuff_wf_def mb_room_def split: option.splits)

lemma chunk_blit_append:
  assumes "s \<le> h" and "h + length bs \<le> length b"
  shows "chunk s (h + length bs - s) (blit h bs b) = chunk s (h - s) b @ bs"
proof -
  have "chunk s (h + length bs - s) (blit h bs b)
      = chunk s (h - s) (blit h bs b) @ chunk (s + (h - s)) (length bs) (blit h bs b)"
    using assms by (simp only: chunk_append_chunk) simp
  with assms show ?thesis by (simp add: buf_simps)
qed

lemma putraw_list:
  assumes wf: "membuff_wf mb" and pos: "0 \<le> maxlen"
    and put: "membuff_putraw mb maxlen True = (len, mb', off)"
    and bs: "length bs = nat len" and ge: "0 \<le> len"
  shows "mb_list (mb_write mb' off bs) = mb_list mb @ bs"
proof (cases "mb_start mb")
  case None
  with wf put bs show ?thesis
    by (auto simp: membuff_wf_def membuff_putraw_def membuff_putrawflex_def mb_list_def)
next
  case (Some b)
  define h t n where "h = nat (mb_head mb)" and "t = nat (mb_tail mb)" and "n = length b"
  have hd: "mb_head mb = int h" "mb_tail mb = int t" "mb_end mb = int n" "h < n" "t < n"
    using wf Some by (auto simp: membuff_wf_def h_def t_def n_def)
  obtain l where l: "len = int l" using ge nonneg_int_cases by blast
  note put' = put [unfolded membuff_putraw_def membuff_putrawflex_def Let_def, simplified Some hd]
  show ?thesis
  proof (cases "t \<le> h")
    case True
    have "chunk t (h + l - t) (blit h bs b) = chunk t (h - t) b @ bs" if "h + l \<le> n"
      using chunk_blit_append [of t h bs b] True that bs l by (simp add: n_def)
    moreover have "h + l \<le> n" "mb_start mb' = Some b" "off = int h" "mb_tail mb' = int t" "mb_end mb' = int n"
      "mb_head mb' = (if h + l = n then 0 else int (h + l))" "h + l = n \<Longrightarrow> 0 < t"
      using put' True hd l pos Some by (auto split: if_splits)
    ultimately show ?thesis using True hd Some l
      by (auto simp: mb_list_def mb_read_def nat_diff_distrib nat_int_add)
  next
    case False
    have "chunk 0 (h + l) (blit h bs b) = chunk 0 h b @ bs" if "h + l \<le> n"
      using chunk_blit_append [of 0 h bs b] that bs l by (simp add: n_def)
    moreover have "h + l < t" "mb_start mb' = Some b" "off = int h" "mb_tail mb' = int t" "mb_end mb' = int n"
      "mb_head mb' = int (h + l)"
      using put' False hd l pos Some by (auto split: if_splits)
    ultimately show ?thesis using False hd Some l bs
      by (simp add: mb_list_def mb_read_def nat_diff_distrib nat_int_add buf_simps n_def)
  qed
qed

lemma putraw_step:
  assumes wf: "membuff_wf mb" and pos: "0 \<le> maxlen"
    and put: "membuff_putraw mb maxlen True = (len, mb', off)"
    and bs: "length bs = nat len"
  shows "len = min maxlen (mb_put_seg mb)" and "0 \<le> len"
    and "membuff_wf (mb_write mb' off bs)"
    and "mb_list (mb_write mb' off bs) = mb_list mb @ bs"
    and "len = mb_put_seg mb \<Longrightarrow> mb_put_seg (mb_write mb' off bs) = int (mb_room mb) - len"
proof -
  show len: "len = min maxlen (mb_put_seg mb)"
    using wf pos put
    by (auto simp: membuff_wf_def membuff_putraw_def membuff_putrawflex_def mb_put_seg_def Let_def min_def
        split: option.splits if_splits)
  then show ge: "0 \<le> len"
    using wf pos by (auto simp: membuff_wf_def mb_put_seg_def split: option.splits)
  show "membuff_wf (mb_write mb' off bs)"
    using wf pos put bs
    by (auto simp: membuff_wf_def membuff_putraw_def membuff_putrawflex_def Let_def
        split: option.splits if_splits)
  show "mb_list (mb_write mb' off bs) = mb_list mb @ bs"
    using wf pos put bs ge by (rule putraw_list)
  show "mb_put_seg (mb_write mb' off bs) = int (mb_room mb) - len" if "len = mb_put_seg mb"
    using wf pos put bs that mb_room_eq [OF wf]
    by (auto simp: membuff_wf_def membuff_putraw_def membuff_putrawflex_def Let_def mb_put_seg_def
        split: option.splits if_splits)
qed

lemma mb_read_length:
  assumes "membuff_wf mb" and "0 \<le> off" and "0 \<le> len" and "off + len \<le> mb_end mb"
  shows "int (length (mb_read mb off len)) = len"
  using assms by (auto simp: membuff_wf_def mb_read_def split: option.splits)

lemma mb_read_append:
  assumes "0 \<le> off" and "0 \<le> m" and "0 \<le> n"
  shows "mb_read mb off m @ mb_read mb (off + m) n = mb_read mb off (m + n)"
  using assms
  by (auto simp: mb_read_def nat_add_distrib chunk_append_chunk split: option.splits)

lemma getraw_step:
  assumes wf: "membuff_wf mb"
    and get: "membuff_getraw mb maxlen True = (len, mb', off)"
  shows "len = (if maxlen < 0 then mb_get_seg mb else min maxlen (mb_get_seg mb))" and "0 \<le> len"
    and "membuff_wf mb'" and "mb_start mb' = mb_start mb"
    and "int (length (mb_read mb off len)) = len"
    and "mb_list mb = mb_read mb off len @ mb_list mb'"
    and "len = mb_get_seg mb \<Longrightarrow> mb_get_seg mb' = int (length (mb_list mb)) - len"
proof -
  note defs = membuff_wf_def membuff_getraw_def mb_get_seg_def Let_def
  show len: "len = (if maxlen < 0 then mb_get_seg mb else min maxlen (mb_get_seg mb))"
    using wf get by (auto simp: defs split: option.splits if_splits)
  then show ge: "0 \<le> len"
    using wf by (auto simp: defs split: option.splits if_splits)
  show wf': "membuff_wf mb'" and st: "mb_start mb' = mb_start mb"
    using wf get by (auto simp: defs split: option.splits if_splits)
  show "int (length (mb_read mb off len)) = len"
    using wf get ge by (intro mb_read_length) (auto simp: defs split: option.splits if_splits)
  have rd: "mb_read mb' = mb_read mb"
    using st by (simp add: fun_eq_iff mb_read_def)
  have bnd: "0 \<le> mb_head mb" "0 \<le> mb_tail mb" "mb_head mb \<le> mb_end mb" "mb_tail mb \<le> mb_end mb"
    using wf by (auto simp: membuff_wf_def split: option.splits)
  show "mb_list mb = mb_read mb off len @ mb_list mb'"
  proof (cases "mb_tail mb \<le> mb_head mb")
    case True
    then have "mb_tail mb' = mb_tail mb + len" "mb_head mb' = mb_head mb" "len \<le> mb_head mb - mb_tail mb"
      "off = mb_tail mb \<or> len = 0 \<and> mb_head mb = mb_tail mb"
      using get by (auto simp: defs split: if_splits)
    with True ge bnd mb_read_append [of "mb_tail mb" len "mb_head mb - mb_tail mb - len" mb]
    show ?thesis by (auto simp: mb_list_def rd diff_diff_eq)
  next
    case False
    then have facts: "mb_tail mb' = (if mb_tail mb + len = mb_end mb then 0 else mb_tail mb + len)"
      "mb_head mb' = mb_head mb" "len \<le> mb_end mb - mb_tail mb" "off = mb_tail mb"
      "mb_end mb' = mb_end mb"
      using get by (auto simp: defs split: if_splits)
    have "mb_read mb (mb_tail mb) len @ mb_read mb (mb_tail mb + len) (mb_end mb - mb_tail mb - len)
        = mb_read mb (mb_tail mb) (mb_end mb - mb_tail mb)"
      using facts ge bnd by (subst mb_read_append) auto
    with facts False ge bnd show ?thesis by (auto simp: mb_list_def rd diff_diff_eq)
  qed
  show "mb_get_seg mb' = int (length (mb_list mb)) - len" if "len = mb_get_seg mb"
    using wf get that length_mb_list [OF wf]
    by (auto simp: defs split: option.splits if_splits)
qed

lemma getraw_seg_le: "membuff_wf mb \<Longrightarrow> mb_get_seg mb \<le> int (length (mb_list mb))"
  using length_mb_list [of mb] by (auto simp: membuff_wf_def mb_get_seg_def split: option.splits)

lemma putraw_seg_le: "membuff_wf mb \<Longrightarrow> mb_put_seg mb \<le> int (mb_room mb)"
  using mb_room_eq [of mb] by (auto simp: membuff_wf_def mb_put_seg_def split: option.splits)

lemma membuff_get_spec:
  assumes wf: "membuff_wf mb" and pos: "0 \<le> maxlen"
    and get: "membuff_get mb maxlen = (n, out, mb')"
  shows "membuff_wf mb'" and "out = take (nat maxlen) (mb_list mb)"
    and "mb_list mb' = drop (nat maxlen) (mb_list mb)" and "n = int (length out)"
    and "mb_start mb' = mb_start mb"
proof -
  obtain l1 mb1 o1 where g1: "membuff_getraw mb maxlen True = (l1, mb1, o1)"
    by (metis prod_cases3)
  note s1 = getraw_step [OF wf g1]
  obtain l2 mb2 o2 where g2: "membuff_getraw mb1 (maxlen - l1) True = (l2, mb2, o2)"
    by (metis prod_cases3)
  note s2 = getraw_step [OF s1(3) g2]
  define r1 r2 where "r1 = mb_read mb o1 l1" and "r2 = mb_read mb1 o2 l2"
  have l1: "l1 \<le> maxlen" "0 \<le> l1" "int (length r1) = l1" using s1 pos by (auto simp: r1_def)
  have l2: "l2 \<le> maxlen - l1" "0 \<le> l2" "int (length r2) = l2" using s2 l1 by (auto simp: r2_def)
  have loop: "membuff_get_loop 2 mb maxlen [] = (if l1 = 0 then (r1, mb1) else (r1 @ r2, mb2))"
    by (simp add: numeral_2_eq_2 g1 g2 r1_def r2_def Let_def)
  then have res: "out = (if l1 = 0 then r1 else r1 @ r2)" "mb' = (if l1 = 0 then mb1 else mb2)"
    "n = int (length out)"
    using get by (auto simp: membuff_get_def split: if_splits)
  show "n = int (length out)" by (fact res(3))
  show "membuff_wf mb'" using res(2) s1(3) s2(3) by simp
  show "mb_start mb' = mb_start mb" using res(2) s1(4) s2(4) by simp
  have split: "mb_list mb = out @ mb_list mb'"
    using res(1,2) s1(6) s2(6) by (simp add: r1_def r2_def)
  have len: "length out = min (nat maxlen) (length (mb_list mb))"
  proof (cases "l1 = mb_get_seg mb")
    case True
    then have "l2 = min (maxlen - l1) (int (length (mb_list mb)) - l1)"
      using s2(1) s1(7) l1(1) by simp
    moreover have "length (mb_list mb) = 0" if "l1 = 0"
      using that True length_mb_list [OF wf] wf
      by (auto simp: mb_get_seg_def membuff_wf_def split: option.splits if_splits)
    ultimately show ?thesis using res(1) l1 l2 by auto
  next
    case False
    then have "l1 = maxlen" using s1(1) pos by (auto split: if_splits)
    then show ?thesis using res(1) l1 l2 getraw_seg_le [OF wf] s1(1) pos by auto
  qed
  from split len
  show "out = take (nat maxlen) (mb_list mb)" "mb_list mb' = drop (nat maxlen) (mb_list mb)"
    by (auto simp: min_def split: if_splits)
qed

lemma membuff_put_spec:
  assumes wf: "membuff_wf mb" and put: "membuff_put mb bs (int (length bs)) = (n, mb')"
  shows "membuff_wf mb'" and "n = int (min (length bs) (mb_room mb))"
    and "mb_list mb' = mb_list mb @ take (nat n) bs"
proof -
  obtain l1 m1 o1 where p1: "membuff_putraw mb (int (length bs)) True = (l1, m1, o1)"
    by (metis prod_cases3)
  define bs1 mb1 where "bs1 = take (nat l1) bs" and "mb1 = mb_write m1 o1 bs1"
  have l1: "l1 = min (int (length bs)) (mb_put_seg mb)" "0 \<le> l1"
    using putraw_step(1,2) [OF wf _ p1, of "replicate (nat l1) 0"] by auto
  then have len1: "length bs1 = nat l1" by (auto simp: bs1_def)
  note s1 = putraw_step [OF wf _ p1 len1, simplified, folded mb1_def]
  obtain l2 m2 o2 where p2: "membuff_putraw mb1 (int (length bs) - l1) True = (l2, m2, o2)"
    by (metis prod_cases3)
  define bs2 mb2 where "bs2 = take (nat l2) (drop (nat l1) bs)" and "mb2 = mb_write m2 o2 bs2"
  have pos2: "0 \<le> int (length bs) - l1" using l1 by auto
  have l2: "l2 = min (int (length bs) - l1) (mb_put_seg mb1)" "0 \<le> l2"
    using putraw_step(1,2) [OF s1(3) pos2 p2, of "replicate (nat l2) 0"] by auto
  then have len2: "length bs2 = nat l2" using l1 by (auto simp: bs2_def)
  note s2 = putraw_step [OF s1(3) pos2 p2 len2, folded mb2_def]
  have res: "n = l1 + l2" "mb' = mb2"
    using put p1 p2 by (auto simp: membuff_put_def numeral_2_eq_2 bs1_def mb1_def bs2_def mb2_def)
  show "membuff_wf mb'" using s2(3) res by simp
  show n: "n = int (min (length bs) (mb_room mb))"
  proof (cases "l1 = mb_put_seg mb")
    case True
    then show ?thesis using s1(5) l2 res by auto
  next
    case False
    then show ?thesis using l1 l2 res putraw_seg_le [OF wf] s2(2) by auto
  qed
  have "mb_list mb' = mb_list mb @ bs1 @ bs2" using s1(4) s2(4) res by simp
  also have "bs1 @ bs2 = take (nat n) bs"
    using l1 l2 res by (simp add: bs1_def bs2_def take_add nat_add_distrib)
  finally show "mb_list mb' = mb_list mb @ take (nat n) bs" .
qed

lemma membuff_avail_eq: "membuff_wf mb \<Longrightarrow> membuff_avail mb = int (length (mb_list mb))"
proof -
  assume wf: "membuff_wf mb"
  obtain l1 mb1 o1 where g1: "membuff_getraw mb (- 1) True = (l1, mb1, o1)"
    by (metis prod_cases3)
  note s1 = getraw_step [OF wf g1]
  obtain l2 mb2 o2 where g2: "membuff_getraw mb1 (- 1) True = (l2, mb2, o2)"
    by (metis prod_cases3)
  note s2 = getraw_step [OF s1(3) g2]
  from s1(1,7) s2(1) g1 g2 show ?thesis by (simp add: membuff_avail_def)
qed

lemma membuff_free_eq: "membuff_wf mb \<Longrightarrow> membuff_free mb = int (mb_room mb)"
  using membuff_avail_eq [of mb] length_mb_list [of mb]
  by (auto simp: membuff_free_def mb_room_def membuff_wf_def split: option.splits if_splits)

lemma membuff_isempty_iff: "membuff_wf mb \<Longrightarrow> membuff_isempty mb \<longleftrightarrow> mb_list mb = []"
  using length_mb_list [of mb]
  by (auto simp: membuff_isempty_def membuff_wf_def split: option.splits if_splits)

lemma mb_read_nth:
  "mb_start mb = Some b \<Longrightarrow> 0 \<le> off \<Longrightarrow> i < nat len \<Longrightarrow> nat off + i < length b \<Longrightarrow>
   mb_read mb off len ! i = b ! (nat off + i)"
  by (simp add: mb_read_def nth_chunk)

lemma mb_read_hd:
  "mb_start mb = Some b \<Longrightarrow> 0 \<le> off \<Longrightarrow> nat off < length b \<Longrightarrow> hd (mb_read mb off 1) = b ! nat off"
  by (simp add: mb_read_def chunk_def hd_drop_conv_nth)

lemma mb_list_nth:
  assumes wf: "membuff_wf mb" and k: "k < length (mb_list mb)"
  shows "hd (mb_read mb (mb_pos mb (int k)) 1) = mb_list mb ! k"
proof -
  obtain b where b: "mb_start mb = Some b"
    using wf k length_mb_list [OF wf] by (cases "mb_start mb") (auto simp: membuff_wf_def)
  define h t n where "h = nat (mb_head mb)" and "t = nat (mb_tail mb)" and "n = length b"
  have hd: "mb_head mb = int h" "mb_tail mb = int t" "mb_end mb = int n" "h < n" "t < n"
    using wf b by (auto simp: membuff_wf_def h_def t_def n_def)
  have len: "length (mb_list mb) = (if t \<le> h then h - t else n - t + h)"
    using length_mb_list [OF wf] hd by (auto split: if_splits)
  have "hd (mb_read mb (mb_pos mb (int k)) 1) = b ! nat (mb_pos mb (int k))"
    using hd k len b by (intro mb_read_hd) (auto simp: mb_pos_def n_def split: if_splits)
  also have "\<dots> = mb_list mb ! k"
    using hd k len b
    by (auto simp: mb_list_def mb_pos_def mb_read_def nth_chunk nth_append n_def nat_diff_distrib
        nat_int_add split: if_splits intro!: arg_cong [where f = "nth b"])
  finally show ?thesis .
qed

lemma mb_advance:
  assumes wf: "membuff_wf mb" and k: "k \<le> length (mb_list mb)"
  shows "membuff_wf (mb\<lparr>mb_tail := mb_pos mb (int k)\<rparr>)"
    and "mb_list (mb\<lparr>mb_tail := mb_pos mb (int k)\<rparr>) = drop k (mb_list mb)"
proof -
  show wf': "membuff_wf (mb\<lparr>mb_tail := mb_pos mb (int k)\<rparr>)"
    using wf k length_mb_list [OF wf]
    by (auto simp: membuff_wf_def mb_pos_def split: option.splits if_splits)
  let ?mb' = "mb\<lparr>mb_tail := mb_pos mb (int k)\<rparr>"
  show "mb_list ?mb' = drop k (mb_list mb)"
  proof (rule nth_equalityI)
    show len: "length (mb_list ?mb') = length (drop k (mb_list mb))"
      using length_mb_list [OF wf] length_mb_list [OF wf'] k wf
      by (auto simp: mb_pos_def membuff_wf_def split: option.splits if_splits)
    fix i assume i: "i < length (mb_list ?mb')"
    have "mb_list ?mb' ! i = hd (mb_read mb (mb_pos ?mb' (int i)) 1)"
      using mb_list_nth [OF wf' i] by simp
    also have "mb_pos ?mb' (int i) = mb_pos mb (int (k + i))"
      using length_mb_list [OF wf] len i wf
      by (auto simp: mb_pos_def membuff_wf_def split: option.splits if_splits)
    also have "hd (mb_read mb (mb_pos mb (int (k + i))) 1) = drop k (mb_list mb) ! i"
      using mb_list_nth [OF wf, of "k + i"] i len by simp
    finally show "mb_list ?mb' ! i = drop k (mb_list mb) ! i" .
  qed
qed

lemma readline_loop_finds:
  assumes wf: "membuff_wf mb" and j: "j < length (mb_list mb)" and jm: "int j < maxlen - 1"
    and eol: "is_eol minch (mb_list mb ! j)"
    and no: "\<And>i. k \<le> i \<Longrightarrow> i < j \<Longrightarrow> \<not> is_eol minch (mb_list mb ! i)"
    and k: "k \<le> j"
  shows "membuff_readline_loop mb maxlen minch (mb_pos mb (int k)) (mb_scan_end mb (int k)) (int k) acc
    = (True, mb_pos mb (int j) + 1, int j + 1, acc @ chunk k (j - k) (mb_list mb))"
  using no k
proof (induction "j - k" arbitrary: k acc)
  case 0
  then have "k = j" by simp
  have "mb_pos mb (int j) < mb_scan_end mb (int j)"
    using length_mb_list [OF wf] j wf
    by (auto simp: mb_pos_def mb_scan_end_def membuff_wf_def split: option.splits if_splits)
  with \<open>k = j\<close> eol jm mb_list_nth [OF wf j] show ?case
    by (subst membuff_readline_loop.simps) (simp add: is_eol_def)
next
  case (Suc d)
  then have kj: "k < j" by simp
  let ?c = "mb_list mb ! k"
  have lt: "mb_pos mb (int k) < mb_scan_end mb (int k)"
    using length_mb_list [OF wf] j kj wf
    by (auto simp: mb_pos_def mb_scan_end_def membuff_wf_def split: option.splits if_splits)
  have c: "hd (mb_read mb (mb_pos mb (int k)) 1) = ?c"
    using mb_list_nth [OF wf, of k] j kj by simp
  have nc: "\<not> is_eol minch ?c" using Suc.prems kj by simp
  have nxt: "(if mb_pos mb (int k) + 1 = mb_scan_end mb (int k) \<and> mb_tail mb > mb_head mb
      then (0, mb_head mb) else (mb_pos mb (int k) + 1, mb_scan_end mb (int k)))
    = (mb_pos mb (int (Suc k)), mb_scan_end mb (int (Suc k)))"
    using length_mb_list [OF wf] j kj wf
    by (auto simp: mb_pos_def mb_scan_end_def membuff_wf_def split: option.splits if_splits)
  have IH: "membuff_readline_loop mb maxlen minch (mb_pos mb (int (Suc k))) (mb_scan_end mb (int (Suc k)))
      (int (Suc k)) (acc @ [?c])
    = (True, mb_pos mb (int j) + 1, int j + 1, (acc @ [?c]) @ chunk (Suc k) (j - Suc k) (mb_list mb))"
    using Suc.hyps(2) Suc.prems kj by (intro Suc.hyps(1)) auto
  have "?c # chunk (Suc k) (j - Suc k) (mb_list mb) = chunk k (j - k) (mb_list mb)"
  proof -
    have "j - k = Suc (j - Suc k)" using kj by simp
    moreover have "drop k (mb_list mb) = ?c # drop (Suc k) (mb_list mb)"
      using j kj by (simp add: Cons_nth_drop_Suc)
    ultimately show ?thesis by (simp add: chunk_def)
  qed
  with IH lt c nc nxt jm kj show ?case
    by (subst membuff_readline_loop.simps) (auto simp: is_eol_def Let_def add.commute [of 1 "int k"] split: if_splits)
qed

text \<open>C2: when the first line end of the queue is its \<open>j\<close>-th byte and fits the caller's array,
  \<open>membuff_readline\<close> stores the bytes before it, returns \<open>j + 1\<close> and leaves exactly the bytes
  after it queued, wherever the queue wraps.\<close>

theorem membuff_readline_line:
  assumes wf: "membuff_wf mb" and j: "j < length (mb_list mb)" and jm: "int j < maxlen - 1"
    and eol: "is_eol minch (mb_list mb ! j)"
    and no: "\<And>i. i < j \<Longrightarrow> \<not> is_eol minch (mb_list mb ! i)"
  shows "\<exists>mb'. membuff_readline mb maxlen minch must_fit = (int j + 1, take j (mb_list mb), mb') \<and>
    membuff_wf mb' \<and> mb_list mb' = drop (Suc j) (mb_list mb)"
proof -
  let ?mb' = "mb\<lparr>mb_tail := mb_pos mb (int (Suc j))\<rparr>"
  have pos0: "mb_pos mb 0 = mb_tail mb"
    "mb_scan_end mb 0 = (if mb_head mb \<ge> mb_tail mb then mb_head mb else mb_end mb)"
    using wf j by (auto simp: mb_pos_def mb_scan_end_def membuff_wf_def mb_list_def split: option.splits)
  have "mb_pos mb (int (Suc j)) = (if mb_pos mb (int j) + 1 = mb_end mb then 0 else mb_pos mb (int j) + 1)"
    using length_mb_list [OF wf] j wf
    by (auto simp: mb_pos_def membuff_wf_def split: option.splits if_splits)
  with readline_loop_finds [OF wf j jm eol no, of 0 "[]"] pos0
  have "membuff_readline mb maxlen minch must_fit = (int j + 1, take j (mb_list mb), ?mb')"
    by (simp add: membuff_readline_def Let_def chunk_def)
  with mb_advance [OF wf, of "Suc j"] j show ?thesis by auto
qed

lemma contig_blits:
  assumes "h + (n - t) \<le> t" and "t \<le> n" and "length b = n" and "h \<le> n"
    and b1: "b1 = blit (n - t) (chunk 0 h b) b" and b2: "b2 = blit 0 (chunk t (n - t) b1) b1"
  shows "length b2 = n" and "chunk 0 (n - t + h) b2 = chunk t (n - t) b @ chunk 0 h b"
proof -
  have l1: "length b1 = n" using assms by simp
  then show "length b2 = n" using assms by simp
  have "chunk 0 (n - t) b2 = chunk t (n - t) b1"
    using chunk_blit [of 0 "chunk t (n - t) b1" b1] l1 b2 assms(2) by simp
  moreover have "chunk t (n - t) b1 = chunk t (n - t) b"
    unfolding b1 using assms by (subst chunk_blit_after) auto
  moreover have "chunk (n - t) h b2 = chunk (n - t) h b1"
    unfolding b2 using assms l1 by (subst chunk_blit_after) auto
  moreover have "chunk (n - t) h b1 = chunk 0 h b"
    using chunk_blit [of "n - t" "chunk 0 h b" b] assms by simp
  moreover have "chunk 0 (n - t + h) b2 = chunk 0 (n - t) b2 @ chunk (n - t) h b2"
    using chunk_append_chunk [of 0 "n - t" b2 h] by simp
  ultimately show "chunk 0 (n - t + h) b2 = chunk t (n - t) b @ chunk 0 h b" by simp
qed

lemma membuff_makecontig_list:
  assumes wf: "membuff_wf mb" and mc: "membuff_makecontig mb = (ok, mb')"
  shows "membuff_wf mb' \<and> mb_list mb' = mb_list mb"
proof (cases "mb_start mb")
  case None
  with wf mc show ?thesis
    by (auto simp: membuff_wf_def membuff_makecontig_def mb_list_def mb_write_def Let_def)
next
  case (Some b)
  define h t n where "h = nat (mb_head mb)" and "t = nat (mb_tail mb)" and "n = length b"
  have hd: "mb_head mb = int h" "mb_tail mb = int t" "mb_end mb = int n" "h < n" "t < n" "length b = n"
    using wf Some by (auto simp: membuff_wf_def h_def t_def n_def)
  note unf = membuff_makecontig_def Let_def mb_write_def mb_read_def nat_diff_distrib of_nat_diff
  consider "\<not> ok" | "ok" "h < t" | "ok" "\<not> h < t" by blast
  then show ?thesis
  proof cases
    case 1
    with mc wf show ?thesis by (auto simp: membuff_makecontig_def Let_def split: if_splits)
  next
    case 2
    define b1 b2 where "b1 = blit (n - t) (chunk 0 h b) b" and "b2 = blit 0 (chunk t (n - t) b1) b1"
    have fit: "h + (n - t) < t"
      using mc 2 hd Some by (auto simp: unf split: if_splits)
    have mb': "mb' = mb\<lparr>mb_start := Some b2, mb_tail := 0, mb_head := int (n - t + h)\<rparr>"
      using mc 2 hd Some fit by (auto simp: unf b1_def b2_def split: if_splits)
    from contig_blits [OF _ _ _ _ b1_def b2_def] fit hd mb' 2 Some show ?thesis
      by (auto simp: membuff_wf_def mb_list_def mb_read_def nat_diff_distrib nat_int_add of_nat_diff)
  next
    case 3
    define b2 where "b2 = blit 0 (chunk t (h - t) b) b"
    have mb': "mb' = mb\<lparr>mb_start := Some b2, mb_tail := 0, mb_head := int (h - t)\<rparr>"
      using mc 3 hd Some by (auto simp: unf b2_def split: if_splits)
    have "length b2 = n" "chunk 0 (h - t) b2 = chunk t (h - t) b"
      using hd chunk_blit [of 0 "chunk t (h - t) b" b] by (simp_all add: b2_def)
    with mb' hd 3 Some show ?thesis
      by (auto simp: membuff_wf_def mb_list_def mb_read_def nat_diff_distrib)
  qed
qed

lemma membuff_makecontig_shape:
  assumes "membuff_wf mb" and "membuff_makecontig mb = (ok, mb')"
  shows "if ok then mb_tail mb' = 0 \<and> mb_head mb' = int (length (mb_list mb)) else mb' = mb"
  using assms(2) length_mb_list [OF assms(1)]
  by (auto simp: membuff_makecontig_def Let_def split: if_splits)

lemma membuff_grow_size_ret:
  assumes ret: "membuff_grow_size sz need = Some r"
  shows "need \<le> r \<and> (sz \<le> r \<or> sz < 0)"
proof (rule membuff_grow_size.raw_induct [where P = "\<lambda>sz need r. need \<le> r \<and> (sz \<le> r \<or> sz < 0)", OF _ ret])
  fix f sz need r
  assume IH: "\<And>sz need r. f sz need = Some r \<Longrightarrow> need \<le> r \<and> (sz \<le> r \<or> sz < 0)"
    and eq: "(if sz < need then if 2 * sz > INT_MAX then None else f (2 * sz) need else Some sz) = Some r"
  show "need \<le> r \<and> (sz \<le> r \<or> sz < 0)"
    using eq IH [of "2 * sz" need r] by (auto split: if_splits)
qed

text \<open>The doubling ends when the size is positive and the doubled need is within range.\<close>

lemma membuff_grow_size_terminates:
  assumes "0 < sz" and "2 * need \<le> INT_MAX"
  shows "\<exists>r. membuff_grow_size sz need = Some r"
  using assms
proof (induction "nat (need - sz)" arbitrary: sz rule: less_induct)
  case less
  show ?case
  proof (cases "sz < need")
    case True
    then have "nat (need - 2 * sz) < nat (need - sz)" "0 < 2 * sz" using less.prems by auto
    from less.hyps [OF this(1,2)] less.prems True show ?thesis
      by (subst membuff_grow_size.simps) simp
  next
    case False
    then show ?thesis by (subst membuff_grow_size.simps) simp
  qed
qed

lemma membuff_grow_size_zero: "0 < need \<Longrightarrow> membuff_grow_size 0 need = None"
proof (rule ccontr)
  assume need: "0 < need" and "membuff_grow_size 0 need \<noteq> None"
  then obtain r where ret: "membuff_grow_size 0 need = Some r" by auto
  have "(0::int) = 0 \<longrightarrow> need \<le> 0"
  proof (rule membuff_grow_size.raw_induct [where P = "\<lambda>sz need r. sz = 0 \<longrightarrow> need \<le> 0", OF _ ret])
    fix f sz need r
    assume IH: "\<And>sz need r. f sz need = Some r \<Longrightarrow> sz = 0 \<longrightarrow> need \<le> 0"
      and eq: "(if sz < need then if 2 * sz > INT_MAX then None else f (2 * sz) need else Some sz) = Some r"
    show "sz = 0 \<longrightarrow> need \<le> (0::int)"
      using eq IH [of "2 * sz" need r] by (auto split: if_splits)
  qed
  with need show False by simp
qed

lemma mb_write_Nil [simp]: "mb_write mb off [] = mb"
  by (cases "mb_start mb") (simp_all add: mb_write_def)

text \<open>Moving the upper part of a wrapped queue to the end of the larger block.\<close>

lemma extend_blit:
  assumes keep: "\<And>i k. i + k \<le> n \<Longrightarrow> chunk i k p = chunk i k old"
    and "length p = n + d" and "hh < t" and "t \<le> n"
    and b2: "b2 = blit (t + d) (chunk t (n - t) p) p"
  shows "length b2 = n + d" and "chunk (t + d) (n - t) b2 = chunk t (n - t) old"
    and "chunk 0 hh b2 = chunk 0 hh old"
proof -
  have l: "length (chunk t (n - t) p) = n - t" using assms(2,4) by simp
  with assms(2,4) b2 show "length b2 = n + d" by simp
  show "chunk (t + d) (n - t) b2 = chunk t (n - t) old"
    using chunk_blit [of "t + d" "chunk t (n - t) p" p] l assms(2,4) b2 keep [of t "n - t"] by simp
  show "chunk 0 hh b2 = chunk 0 hh old"
    using assms(2-4) b2 l keep [of 0 hh] by (simp add: chunk_blit_before)
qed

lemma membuff_extend_by_spec:
  assumes wf: "membuff_wf mb" and ext: "membuff_extend_by h mb by mx = Some (r, mb')"
  shows "membuff_wf mb'" and "mb_list mb' = mb_list mb"
    and "r = 0 \<Longrightarrow> mb_end mb < mb_end mb'" and "r \<noteq> 0 \<Longrightarrow> mb' = mb"
proof -
  obtain sz0 where g: "membuff_grow_size (mb_end mb) (mb_end mb + by) = Some sz0"
    using ext by (auto simp: membuff_extend_by_def Let_def split: option.splits)
  define sz where "sz = (if mx \<noteq> - 1 then min sz0 mx else sz0)"
  note ext' = ext [unfolded membuff_extend_by_def Let_def g option.case, folded sz_def]
  show "r \<noteq> 0 \<Longrightarrow> mb' = mb" and "r = 0 \<Longrightarrow> mb_end mb < mb_end mb'"
    using ext' by (auto split: if_splits option.splits)
  have "membuff_wf mb' \<and> mb_list mb' = mb_list mb"
  proof (cases "r = 0")
    case False
    with \<open>r \<noteq> 0 \<Longrightarrow> mb' = mb\<close> wf show ?thesis by simp
  next
    case True
    define old where "old = (case mb_start mb of None \<Rightarrow> [] | Some b \<Rightarrow> b)"
    from ext' True obtain p where p: "c_realloc h old (nat sz) = Some p" and grow: "mb_end mb < sz"
      by (auto simp: old_def split: if_splits option.splits)
    define hh t n where "hh = nat (mb_head mb)" and "t = nat (mb_tail mb)" and "n = length old"
    have st: "mb_head mb = int hh" "mb_tail mb = int t" "mb_end mb = int n" "hh \<le> n" "t \<le> n"
      "length p = nat sz" "int n < sz" "mb_read mb = (\<lambda>off len. chunk (nat off) (nat len) old)"
      using wf grow c_realloc_length [OF p]
      by (auto simp: membuff_wf_def hh_def t_def n_def old_def mb_read_def fun_eq_iff chunk_def split: option.splits)
    have keep: "chunk i k p = chunk i k old" if "i + k \<le> n" for i k
      using c_realloc_chunk [OF p, of i k] that st by (auto simp: n_def)
    show ?thesis
    proof (cases "hh < t")
      case False
      have "mb' = mb\<lparr>mb_start := Some p, mb_end := sz\<rparr>"
        using ext' True p st False by (auto simp: old_def [symmetric] split: if_splits)
      with st False wf keep [of t "hh - t"] show ?thesis
        by (auto simp: membuff_wf_def mb_list_def mb_read_def nat_diff_distrib split: option.splits)
    next
      case lt: True
      define d b2 where "d = nat sz - n" and "b2 = blit (t + d) (chunk t (n - t) p) p"
      have d: "sz = int (n + d)" "length p = n + d" using st by (auto simp: d_def)
      have mb': "mb' = mb\<lparr>mb_start := Some b2, mb_tail := int (t + d), mb_end := sz\<rparr>"
        using ext' True p st lt d
        by (auto simp: old_def [symmetric] mb_write_def mb_read_def b2_def nat_diff_distrib nat_int_add
            split: if_splits)
      from extend_blit [OF keep d(2) lt st(5) b2_def] mb' st lt d wf show ?thesis
        by (auto simp: membuff_wf_def mb_list_def mb_read_def nat_diff_distrib nat_int_add
            split: option.splits)
    qed
  qed
  then show "membuff_wf mb'" "mb_list mb' = mb_list mb" by auto
qed

lemma membuff_init_wf:
  "0 < sz \<Longrightarrow> int (length buff) = sz \<Longrightarrow> membuff_wf (membuff_init mb buff sz)"
  "mb_list (membuff_init mb buff sz) = []"
  by (simp_all add: membuff_init_def membuff_purge_def membuff_wf_def mb_list_def)

lemma membuff_new_wf:
  "0 < sz \<Longrightarrow> membuff_new h mb sz = (0, mb') \<Longrightarrow> membuff_wf mb' \<and> mb_list mb' = []"
  by (auto simp: membuff_new_def membuff_init_wf split: option.splits dest: c_malloc_length)

lemma membuff_purge_wf: "membuff_wf mb \<Longrightarrow> membuff_wf (membuff_purge mb) \<and> mb_list (membuff_purge mb) = []"
  by (auto simp: membuff_wf_def membuff_purge_def mb_list_def split: option.splits)

lemma membuff_uninit_wf: "membuff_wf (membuff_uninit mb) \<and> mb_list (membuff_uninit mb) = []"
  by (simp add: membuff_wf_def membuff_uninit_def membuff_purge_def mb_list_def)

lemma membuff_putbyte_put:
  assumes wf: "membuff_wf mb" and pb: "membuff_putbyte mb ch = (ok, mb')"
  shows "membuff_wf mb'" and "ok \<longleftrightarrow> 0 < mb_room mb"
    and "mb_list mb' = (if ok then mb_list mb @ [word_of_int ch] else mb_list mb)"
proof -
  obtain l m off where p: "membuff_putraw mb 1 True = (l, m, off)" by (metis prod_cases3)
  have l: "l = min 1 (mb_put_seg mb)" "0 \<le> l"
    using putraw_step(1,2) [OF wf _ p, of "replicate (nat l) 0"] by auto
  have seg: "0 < mb_put_seg mb \<longleftrightarrow> 0 < mb_room mb"
    using mb_room_eq [OF wf] wf by (auto simp: mb_put_seg_def membuff_wf_def split: option.splits)
  have "membuff_wf mb' \<and> (ok \<longleftrightarrow> 0 < mb_room mb) \<and>
    mb_list mb' = (if ok then mb_list mb @ [word_of_int ch] else mb_list mb)"
  proof (cases "l = 1")
    case True
    with putraw_step [OF wf _ p, of "[word_of_int ch]"] pb p l seg show ?thesis
      by (auto simp: membuff_putbyte_def)
  next
    case False
    with l have "l = 0" by auto
    with putraw_step(3,4) [OF wf _ p, of "[]"] pb p l seg show ?thesis
      by (auto simp: membuff_putbyte_def)
  qed
  then show "membuff_wf mb'" "ok \<longleftrightarrow> 0 < mb_room mb"
    "mb_list mb' = (if ok then mb_list mb @ [word_of_int ch] else mb_list mb)" by auto
qed

lemma membuff_getbyte_get:
  assumes wf: "membuff_wf mb" and gb: "membuff_getbyte mb = (c, mb')"
  shows "membuff_wf mb'" and "c = (case mb_list mb of [] \<Rightarrow> - 1 | x # _ \<Rightarrow> uint x)"
    and "mb_list mb' = drop 1 (mb_list mb)"
proof -
  obtain l m off where p: "membuff_getraw mb 1 True = (l, m, off)" by (metis prod_cases3)
  note s = getraw_step [OF wf p]
  have seg: "mb_get_seg mb = 0 \<longleftrightarrow> mb_list mb = []" "0 \<le> mb_get_seg mb"
    using length_mb_list [OF wf] wf by (auto simp: mb_get_seg_def membuff_wf_def split: option.splits)
  have mb': "mb' = m" using gb p by (auto simp: membuff_getbyte_def)
  with s(3) show "membuff_wf mb'" by simp
  consider "l = 0" "mb_list mb = []" | "l = 1" using s(1,2) seg by fastforce
  then have "c = (case mb_list mb of [] \<Rightarrow> - 1 | x # _ \<Rightarrow> uint x) \<and> mb_list mb' = drop 1 (mb_list mb)"
  proof cases
    case 1
    with s(6) gb p mb' show ?thesis by (auto simp: membuff_getbyte_def)
  next
    case 2
    then obtain x where "mb_read mb off 1 = [x]" using s(5) by (cases "mb_read mb off 1") auto
    with 2 s(6) gb p mb' show ?thesis by (auto simp: membuff_getbyte_def)
  qed
  then show "c = (case mb_list mb of [] \<Rightarrow> - 1 | x # _ \<Rightarrow> uint x)"
    "mb_list mb' = drop 1 (mb_list mb)" by auto
qed

lemma membuff_peekbyte_eq: "membuff_peekbyte mb = fst (membuff_getbyte mb)"
  by (auto simp: membuff_peekbyte_def membuff_getbyte_def membuff_getraw_def Let_def)

locale byte_fifo =
  fixes put :: "'q \<Rightarrow> byte list \<Rightarrow> nat \<times> 'q"
    and get :: "'q \<Rightarrow> nat \<Rightarrow> byte list \<times> 'q"
    and contents :: "'q \<Rightarrow> byte list"
    and capacity :: "'q \<Rightarrow> nat"
    and invar :: "'q \<Rightarrow> bool"
  assumes put_refines: "invar q \<Longrightarrow> put q xs = (n, q') \<Longrightarrow>
      invar q' \<and> capacity q' = capacity q \<and> fifo_put (capacity q) (contents q) xs = (n, contents q')"
    and get_refines: "invar q \<Longrightarrow> get q k = (xs, q') \<Longrightarrow>
      invar q' \<and> capacity q' = capacity q \<and> fifo_get (contents q) k = (xs, contents q')"
begin

lemma run_refines:
  assumes "invar q"
  shows "case fifo_run put get q ops of (rs, q') \<Rightarrow>
    invar q' \<and> fifo_run (fifo_put (capacity q)) fifo_get (contents q) ops = (rs, contents q')"
  using assms
proof (induction ops arbitrary: q)
  case Nil
  then show ?case by simp
next
  case (Cons op ops)
  show ?case
  proof (cases op)
    case (Fput xs)
    obtain n q1 where p: "put q xs = (n, q1)" by fastforce
    from Cons.IH [of q1] put_refines [OF Cons.prems p] Fput p show ?thesis
      by (auto split: prod.splits)
  next
    case (Fget k)
    obtain xs q1 where g: "get q k = (xs, q1)" by fastforce
    from Cons.IH [of q1] get_refines [OF Cons.prems g] Fget g show ?thesis
      by (auto split: prod.splits)
  qed
qed

lemma get_after_put:
  assumes "invar q" and "put q xs = (n, q')" and "length (contents q) + length xs \<le> capacity q"
    and "get q' k = (ys, q'')"
  shows "n = length xs \<and> ys = take k (contents q @ xs) \<and> contents q'' = drop k (contents q @ xs)"
  using put_refines [OF assms(1,2)] get_refines [of q' k ys q''] assms(3,4)
  by (auto simp: fifo_put_def fifo_get_def Let_def)

end

lemma membuff_put_start:
  "membuff_put mb bs k = (n, mb') \<Longrightarrow> mb_start mb' = None \<longleftrightarrow> mb_start mb = None"
  by (auto simp: membuff_put_def membuff_putraw_def membuff_putrawflex_def numeral_2_eq_2 Let_def
      split: if_splits)

lemma mb_capacity_wf:
  "membuff_wf mb \<Longrightarrow> int (mb_capacity mb) = (if mb_start mb = None then 0 else mb_end mb - 1)"
  by (auto simp: mb_capacity_def membuff_wf_def split: option.splits)

lemma membuff_put_end: "membuff_put mb bs k = (n, mb') \<Longrightarrow> mb_end mb' = mb_end mb"
  by (auto simp: membuff_put_def membuff_putraw_def membuff_putrawflex_def numeral_2_eq_2 Let_def
      split: if_splits)

lemma mb_room_capacity: "mb_room mb = mb_capacity mb - length (mb_list mb)"
  by (auto simp: mb_room_def mb_capacity_def split: option.splits)

interpretation mbq: byte_fifo mb_put mb_get mb_list mb_capacity membuff_wf
proof
  fix q xs n q' assume wf: "membuff_wf q" and "mb_put q xs = (n, q')"
  then obtain m where m: "membuff_put q xs (int (length xs)) = (m, q')" and n: "n = nat m"
    by (auto simp: mb_put_def split: prod.splits)
  note s = membuff_put_spec [OF wf m]
  have "mb_capacity q' = mb_capacity q"
    using mb_capacity_wf [OF wf] mb_capacity_wf [OF s(1)] membuff_put_start [OF m] membuff_put_end [OF m]
    by (simp split: if_splits)
  with s n show "membuff_wf q' \<and> mb_capacity q' = mb_capacity q \<and>
      fifo_put (mb_capacity q) (mb_list q) xs = (n, mb_list q')"
    by (simp add: fifo_put_def Let_def mb_room_capacity)
next
  fix q k xs q' assume wf: "membuff_wf q" and "mb_get q k = (xs, q')"
  then obtain m where m: "membuff_get q (int k) = (m, xs, q')"
    by (auto simp: mb_get_def split: prod.splits)
  from membuff_get_spec [OF wf _ m]
  show "membuff_wf q' \<and> mb_capacity q' = mb_capacity q \<and> fifo_get (mb_list q) k = (xs, mb_list q')"
    by (auto simp: fifo_get_def mb_capacity_def)
qed

text \<open>C1: a well-formed membuff answers every sequence of \<open>membuff_put\<close> and \<open>membuff_get\<close> calls
  exactly as a FIFO queue of bytes does that holds at most one byte less than the block, and it
  stays well-formed.\<close>

theorem membuff_run_refines:
  assumes "membuff_wf mb"
  shows "case fifo_run mb_put mb_get mb ops of (rs, mb') \<Rightarrow>
    membuff_wf mb' \<and> fifo_run (fifo_put (mb_capacity mb)) fifo_get (mb_list mb) ops = (rs, mb_list mb')"
  using assms by (rule mbq.run_refines)

lemma mb_ex_facts: "membuff_wf mb_ex" "mb_list mb_ex = [5, 6, 1, 2]"
  by (simp_all add: membuff_wf_def mb_list_def mb_read_def mb_ex_def chunk_def eval_nat_numeral)

theorem membuff_run_refines_witness:
  "membuff_wf mb_ex \<and> fifo_run mb_put mb_get mb_ex [Fput [7, 8], Fget 4, Fput [9]] =
    ([Rput 1, Rget [5, 6, 1, 2], Rput 1], \<lparr>mb_start = Some [1, 2, 7, 9, 5, 6], mb_end = 6, mb_head = 4, mb_tail = 2\<rparr>)
   \<and> fifo_run (fifo_put 5) fifo_get [5, 6, 1, 2] [Fput [7, 8], Fget 4, Fput [9]] =
    ([Rput 1, Rget [5, 6, 1, 2], Rput 1], [7, 9])"
proof -
  note wf = mb_ex_facts(1)
  have run: "fifo_run mb_put mb_get mb_ex [Fput [7, 8], Fget 4, Fput [9]] =
    ([Rput 1, Rget [5, 6, 1, 2], Rput 1], \<lparr>mb_start = Some [1, 2, 7, 9, 5, 6], mb_end = 6, mb_head = 4, mb_tail = 2\<rparr>)"
    by code_simp
  from membuff_run_refines [OF wf, of "[Fput [7, 8], Fget 4, Fput [9]]"] run wf show ?thesis
    using mb_ex_facts(2) by (simp add: mb_capacity_def mb_ex_def)
       (simp add: mb_list_def mb_read_def chunk_def eval_nat_numeral)
qed

lemma readline_loop_overruns:
  assumes wf: "membuff_wf mb" and wrap: "0 < mb_head mb" "mb_head mb < mb_tail mb"
    and no: "\<And>c. c \<in> set (mb_list mb) \<Longrightarrow> \<not> is_eol minch c"
    and st: "0 \<le> s" "s < e" "e = mb_head mb \<or> mb_tail mb \<le> s \<and> e = mb_end mb" and len: "len < maxlen"
  shows "\<exists>s' acc'. membuff_readline_loop mb maxlen minch s e len acc = (False, s', maxlen - 1, acc')"
  using st len
proof (induction "nat (maxlen - 1 - len)" arbitrary: s e len acc)
  case 0
  then show ?case by (subst membuff_readline_loop.simps) auto
next
  case (Suc d)
  obtain b where b: "mb_start mb = Some b" using wf wrap by (cases "mb_start mb") (auto simp: membuff_wf_def)
  have rng: "nat s < length b" "mb_end mb = int (length b)" using wf b Suc.prems wrap by (auto simp: membuff_wf_def)
  have "b ! nat s \<in> set (mb_list mb)"
  proof (cases "e = mb_head mb")
    case True
    then have "b ! nat s = chunk 0 (nat (mb_head mb)) b ! nat s" using Suc.prems rng by (simp add: nth_chunk)
    moreover have "nat s < length (chunk 0 (nat (mb_head mb)) b)" using True Suc.prems rng by auto
    ultimately have "b ! nat s \<in> set (chunk 0 (nat (mb_head mb)) b)" using nth_mem by fastforce
    with wrap b show ?thesis by (simp add: mb_list_def mb_read_def)
  next
    case False
    then have ts: "mb_tail mb \<le> s" "0 \<le> mb_tail mb" using Suc.prems wrap by auto
    let ?u = "chunk (nat (mb_tail mb)) (nat (mb_end mb - mb_tail mb)) b"
    have "b ! nat s = ?u ! (nat s - nat (mb_tail mb))" "nat s - nat (mb_tail mb) < length ?u"
      using ts rng by (auto simp: nth_chunk)
    then have "b ! nat s \<in> set ?u" using nth_mem by fastforce
    with wrap b show ?thesis by (simp add: mb_list_def mb_read_def)
  qed
  with no have nc: "\<not> is_eol minch (hd (mb_read mb s 1))"
    using mb_read_hd [OF b, of s] Suc.prems rng by simp
  have lt: "len < maxlen - 1" using Suc.hyps(2) by simp
  have "\<exists>s' acc'. membuff_readline_loop mb maxlen minch 0 (mb_head mb) (len + 1) a = (False, s', maxlen - 1, acc')" for a
    using Suc.hyps(2) lt wrap by (intro Suc.hyps(1)) auto
  moreover have "\<exists>s' acc'. membuff_readline_loop mb maxlen minch (s + 1) e (len + 1) a = (False, s', maxlen - 1, acc')"
    if "s + 1 \<noteq> e" for a
    using Suc.hyps(2) lt Suc.prems that by (intro Suc.hyps(1)) auto
  ultimately show ?case using nc lt Suc.prems wrap
    by (subst membuff_readline_loop.simps) (auto simp: Let_def is_eol_def)
qed

text \<open>C4: with \<open>must_fit\<close> false and no line end in a wrapped queue, \<open>membuff_readline\<close> returns
  \<open>maxlen - 1\<close> whatever the number of queued bytes: after the wrapped part it starts over.\<close>

theorem membuff_readline_overrun:
  assumes "membuff_wf mb" and "0 < mb_head mb" "mb_head mb < mb_tail mb"
    and "\<forall>c \<in> set (mb_list mb). \<not> is_eol minch c" and "0 < maxlen"
  shows "fst (membuff_readline mb maxlen minch False) = maxlen - 1"
proof -
  have "\<exists>s' acc'. membuff_readline_loop mb maxlen minch (mb_tail mb) (mb_end mb) 0 [] = (False, s', maxlen - 1, acc')"
    using assms by (intro readline_loop_overruns) (auto simp: membuff_wf_def split: option.splits)
  with assms(3) show ?thesis by (auto simp: membuff_readline_def Let_def)
qed

theorem membuff_readline_overrun_witness:
  "membuff_wf mb_ex \<and> length (mb_list mb_ex) = 4 \<and> fst (membuff_readline mb_ex 20 0 False) = 19"
  using membuff_readline_overrun [of mb_ex 0 20] mb_ex_facts
  by (simp add: is_eol_def) (simp add: mb_ex_def)

text \<open>C3: \<open>membuff_extend_by\<close> returns for every non-empty block and every request that stays in
  the range of \<open>int\<close>; the queued bytes are kept in every case, the block grows on success and is
  left alone on an error.\<close>

theorem membuff_extend_by_keeps:
  assumes "membuff_wf mb" and "0 < mb_end mb" and "2 * (mb_end mb + by) \<le> INT_MAX"
  shows "\<exists>r mb'. membuff_extend_by h mb by mx = Some (r, mb') \<and> membuff_wf mb' \<and>
    mb_list mb' = mb_list mb \<and> (if r = 0 then mb_end mb < mb_end mb' else mb' = mb)"
proof -
  obtain sz where "membuff_grow_size (mb_end mb) (mb_end mb + by) = Some sz"
    using membuff_grow_size_terminates assms(2,3) by blast
  then obtain r mb' where ext: "membuff_extend_by h mb by mx = Some (r, mb')"
    by (fastforce simp: membuff_extend_by_def Let_def split: option.splits)
  from membuff_extend_by_spec [OF assms(1) ext] ext show ?thesis by auto
qed

theorem membuff_extend_by_keeps_witness:
  "\<exists>mb'. membuff_extend_by \<lparr>malloc_ok = (\<lambda>_. True), junk = (\<lambda>_. 0)\<rparr> mb_ex 3 (- 1) = Some (0, mb') \<and>
     mb_list mb' = [5, 6, 1, 2] \<and> mb_end mb' = 12"
proof -
  let ?h = "\<lparr>malloc_ok = (\<lambda>_. True), junk = (\<lambda>_. 0)\<rparr>"
  have grow: "membuff_grow_size 6 9 = Some 12"
    by (simp add: membuff_grow_size.simps)
  have "\<exists>mb'. membuff_extend_by ?h mb_ex 3 (- 1) = Some (0, mb') \<and> mb_end mb' = 12"
    using grow by (simp add: membuff_extend_by_def mb_ex_def c_realloc_def Let_def)
  then show ?thesis
    using membuff_extend_by_keeps [OF mb_ex_facts(1), of 3 ?h "- 1"] mb_ex_facts(2) by (auto simp: mb_ex_def)
qed

lemma membuff_extend_by_diverges:
  "mb_end mb = 0 \<Longrightarrow> 0 < by \<Longrightarrow> membuff_extend_by h mb by mx = None"
  by (simp add: membuff_extend_by_def membuff_grow_size_zero)

theorem membuff_readline_line_witness:
  "\<exists>mb'. membuff_readline mb_ex 10 2 True = (3, [5, 6], mb') \<and> membuff_wf mb' \<and> mb_list mb' = [2]"
proof -
  note wf = mb_ex_facts(1) and l = mb_ex_facts(2)
  have "\<not> is_eol 2 (mb_list mb_ex ! i)" if "i < 2" for i
    using that by (cases i) (auto simp: l is_eol_def)
  from membuff_readline_line [OF wf, of 2 10 2 True] this show ?thesis
    by (simp add: l is_eol_def)
qed

end
