(* ===== verification/Alist.thy ===== *)
theory Alist
  imports Prelude
begin

text \<open>
  The growable object list of lib/alist.c and include/alist.h. The block \<open>data\<close> points to is
  modelled as the list of the objects it holds (\<^term>\<open>[]\<close> for a null pointer), \<open>z\<close> is the object
  whose bytes are all zero, and a pointer to an object is its index, or its byte distance from
  \<open>data\<close> where the source does pointer arithmetic. The four 16-bit fields keep their width, and the
  sizes computed from them are 32-bit as in the source, so the truncations are visible. Functions
  that copy memory return \<^term>\<open>None\<close> when they would access memory outside the block, or, with a
  loop, when the loop does not end. The lemmas show that \<open>alist_add_ptr\<close> appends to the list as
  long as the allocation can be doubled within 16 bits, and what happens when it cannot.
\<close>

subsection \<open>State\<close>

record 'a alist =
  al_data :: "'a list"
  al_obj_size :: u16
  al_count :: u16
  al_alloc :: u16
  al_flags :: u16

definition ALISTF_FAIL :: u16 where [simp]: "ALISTF_FAIL = 1"

definition ALIST_INITIAL_SIZE :: u32 where [simp]: "ALIST_INITIAL_SIZE = 4"

definition alist_zero :: "'a alist" where
  "alist_zero = \<lparr>al_data = [], al_obj_size = 0, al_count = 0, al_alloc = 0, al_flags = 0\<rparr>"

subsection \<open>Operations\<close>

definition alist_has :: "'a alist \<Rightarrow> u32 \<Rightarrow> bool" where
  "alist_has lst index \<longleftrightarrow> index < ucast (al_count lst)"

definition alist_err :: "'a alist \<Rightarrow> bool" where
  "alist_err lst \<longleftrightarrow> al_flags lst AND ALISTF_FAIL \<noteq> 0"

definition alist_full :: "'a alist \<Rightarrow> bool" where
  "alist_full lst \<longleftrightarrow> al_count lst = al_alloc lst"

definition alist_init :: "c_heap \<Rightarrow> 'a \<Rightarrow> u32 \<Rightarrow> u32 \<Rightarrow> bool \<times> 'a alist" where
  "alist_init h z obj_size start_size =
     (let lst = alist_zero in
      if start_size \<noteq> 0 then
        (if \<not> malloc_ok h (unat obj_size * unat start_size)
         then (False, lst\<lparr>al_flags := ALISTF_FAIL\<rparr>)
         else (True, lst\<lparr>al_data := replicate (unat start_size) z, al_alloc := ucast start_size,
                         al_obj_size := ucast obj_size\<rparr>))
      else (True, lst\<lparr>al_obj_size := ucast obj_size\<rparr>))"

definition alist_uninit :: "'a alist \<Rightarrow> 'a alist" where
  "alist_uninit lst = alist_zero"

definition alist_empty :: "'a alist \<Rightarrow> 'a alist" where
  "alist_empty lst = lst\<lparr>al_count := 0\<rparr>"

text \<open>
  \<open>blk\<close>, \<open>ncopy\<close> and \<open>nset\<close> are the byte counts given to \<open>malloc\<close>, \<open>memcpy\<close> and \<open>memset\<close>, with the
  widths of their C types.
\<close>

definition alist_expand_to :: "c_heap \<Rightarrow> 'a \<Rightarrow> 'a alist \<Rightarrow> u32 \<Rightarrow> (bool \<times> 'a alist) option" where
  "alist_expand_to h z lst new_alloc =
     (if al_flags lst AND ALISTF_FAIL \<noteq> 0 then Some (False, lst)
      else
        (let obj = unat (al_obj_size lst);
             blk = unat ((ucast (al_obj_size lst) :: u32) * new_alloc);
             ncopy = obj * unat (al_alloc lst);
             nset = unat ((ucast (al_obj_size lst) :: u32) * (new_alloc - ucast (al_alloc lst)))
         in if \<not> malloc_ok h blk then Some (False, lst\<lparr>al_flags := al_flags lst OR ALISTF_FAIL\<rparr>)
            else if length (al_data lst) < unat (al_alloc lst) \<or> blk < ncopy + nset then None
            else Some (True, lst\<lparr>al_alloc := ucast new_alloc,
                   al_data := take (unat (al_alloc lst)) (al_data lst)
                              @ replicate (blk div obj - unat (al_alloc lst)) z\<rparr>)))"

definition alist_expand_by :: "c_heap \<Rightarrow> 'a \<Rightarrow> 'a alist \<Rightarrow> u32 \<Rightarrow> (bool \<times> 'a alist) option" where
  "alist_expand_by h z lst inc_by = alist_expand_to h z lst (ucast (al_alloc lst) + inc_by)"

text \<open>The doubling loop of \<open>alist_expand_min\<close>; the 32-bit product wraps.\<close>

partial_function (option) alist_double :: "u32 \<Rightarrow> u32 \<Rightarrow> u32 option" where
  "alist_double new_alloc min_alloc =
     (if new_alloc < min_alloc then alist_double (new_alloc * 2) min_alloc else Some new_alloc)"

definition alist_expand_min :: "c_heap \<Rightarrow> 'a \<Rightarrow> 'a alist \<Rightarrow> u32 \<Rightarrow> (bool \<times> 'a alist) option" where
  "alist_expand_min h z lst min_alloc =
     (case alist_double (if al_alloc lst \<noteq> 0 then ucast (al_alloc lst) else ALIST_INITIAL_SIZE) min_alloc of
        None \<Rightarrow> None
      | Some new_alloc \<Rightarrow> alist_expand_to h z lst new_alloc)"

definition alist_get_ptr :: "'a alist \<Rightarrow> u32 \<Rightarrow> u32 option" where
  "alist_get_ptr lst index = (if index \<ge> ucast (al_count lst) then None else Some index)"

text \<open>\<open>ptr\<close> is a byte distance from \<open>data\<close>; the object size is not zero in an initialised list.\<close>

definition alist_calc_index :: "'a alist \<Rightarrow> int \<Rightarrow> int" where
  "alist_calc_index lst ptr =
     (if al_count lst = 0 \<or> ptr < 0 then - 1
      else to_int (ptr div int (unat (al_obj_size lst))))"

definition alist_update_end :: "'a alist \<Rightarrow> int \<Rightarrow> 'a alist" where
  "alist_update_end lst ptr =
     (let index = alist_calc_index lst ptr
      in lst\<lparr>al_count := (if index = - 1 then 0 else word_of_int index)\<rparr>)"

definition alist_chk_ptr :: "'a alist \<Rightarrow> int \<Rightarrow> bool" where
  "alist_chk_ptr lst ptr =
     (let index = alist_calc_index lst ptr in index \<ge> 0 \<and> index < int (unat (al_count lst)))"

definition alist_next_ptrd :: "'a alist \<Rightarrow> int \<Rightarrow> u32 option" where
  "alist_next_ptrd lst ptr = alist_get_ptr lst (word_of_int (alist_calc_index lst ptr + 1))"

definition alist_ensure_ptr :: "c_heap \<Rightarrow> 'a \<Rightarrow> 'a alist \<Rightarrow> u32 \<Rightarrow> (u32 option \<times> 'a alist) option" where
  "alist_ensure_ptr h z lst index =
     (let minsize = index + 1;
          set_count = (\<lambda>l. if minsize \<ge> ucast (al_count l) then l\<lparr>al_count := ucast minsize\<rparr> else l)
      in if index \<ge> ucast (al_alloc lst) then
           (case alist_expand_min h z lst minsize of
              None \<Rightarrow> None
            | Some (ok, lst1) \<Rightarrow>
                if \<not> ok then Some (None, lst1) else Some (Some index, set_count lst1))
         else Some (Some index, set_count lst))"

definition alist_add_placeholder :: "c_heap \<Rightarrow> 'a \<Rightarrow> 'a alist \<Rightarrow> (u32 option \<times> 'a alist) option" where
  "alist_add_placeholder h z lst = alist_ensure_ptr h z lst (ucast (al_count lst))"

definition alist_add_ptr :: "c_heap \<Rightarrow> 'a \<Rightarrow> 'a alist \<Rightarrow> 'a \<Rightarrow> (u32 option \<times> 'a alist) option" where
  "alist_add_ptr h z lst obj =
     (case alist_add_placeholder h z lst of
        None \<Rightarrow> None
      | Some (None, lst1) \<Rightarrow> Some (None, lst1)
      | Some (Some ptr, lst1) \<Rightarrow>
          if unat ptr < length (al_data lst1)
          then Some (Some ptr, lst1\<lparr>al_data := (al_data lst1)[unat ptr := obj]\<rparr>)
          else None)"

text \<open>The block handed to the caller, its number of objects, and the emptied list.\<close>

definition alist_uninit_move_ptr :: "c_heap \<Rightarrow> 'a \<Rightarrow> 'a alist \<Rightarrow> 'a list option \<times> u16 \<times> 'a alist" where
  "alist_uninit_move_ptr h z lst =
     (if al_count lst = 0 then (None, al_count lst, alist_uninit lst)
      else (Some (al_data lst), al_count lst, snd (alist_init h z (ucast (al_obj_size lst)) 0)))"

subsection \<open>Invariant and abstraction\<close>

definition alist_wf :: "'a alist \<Rightarrow> bool" where
  "alist_wf lst \<longleftrightarrow>
     0 < al_obj_size lst \<and> length (al_data lst) = unat (al_alloc lst) \<and> al_count lst \<le> al_alloc lst"

definition alist_list :: "'a alist \<Rightarrow> 'a list" where
  "alist_list lst = take (unat (al_count lst)) (al_data lst)"

text \<open>The call a client makes when it needs a free slot: \<open>alist_expand_by\<close> by the current allocation.\<close>

definition alist_grow :: "c_heap \<Rightarrow> 'a \<Rightarrow> 'a alist \<Rightarrow> (bool \<times> 'a alist) option" where
  "alist_grow h z lst = alist_expand_by h z lst (ucast (al_alloc lst))"

definition alist_slots :: "'a alist \<Rightarrow> nat" where
  "alist_slots lst = unat (al_alloc lst)"

definition alist_growable :: "'a alist \<Rightarrow> bool" where
  "alist_growable lst \<longleftrightarrow> 0 < alist_slots lst \<and> alist_slots lst < 32768"

definition alist_ex :: "nat alist" where
  "alist_ex = \<lparr>al_data = [7, 8], al_obj_size = 8, al_count = 2, al_alloc = 2, al_flags = 0\<rparr>"

definition alist_big :: "nat alist" where
  "alist_big = \<lparr>al_data = replicate 32768 1, al_obj_size = 8, al_count = 32768, al_alloc = 32768, al_flags = 0\<rparr>"

subsection \<open>Lemmas\<close>

lemma alist_expand_to_ok:
  assumes wf: "alist_wf lst" and ge: "unat (al_alloc lst) \<le> unat new_alloc" and lt: "unat new_alloc < 65536"
  shows "\<exists>ok lst'. alist_expand_to h z lst new_alloc = Some (ok, lst') \<and> alist_wf lst' \<and>
    alist_list lst' = alist_list lst \<and> al_count lst' = al_count lst \<and>
    al_obj_size lst' = al_obj_size lst \<and>
    (if ok then unat (al_alloc lst') = unat new_alloc \<and> al_flags lst' = al_flags lst
     else alist_err lst' \<and> al_alloc lst' = al_alloc lst \<and> al_data lst' = al_data lst)"
proof -
  define obj where "obj = unat (al_obj_size lst)"
  have obj: "0 < obj" "obj < 65536"
    using wf unat_u16_less [of "al_obj_size lst"] by (auto simp: alist_wf_def obj_def word_less_nat_alt)
  have "obj * unat new_alloc \<le> 65535 * 65535" using obj lt by (intro mult_le_mono) auto
  then have blk: "unat ((ucast (al_obj_size lst) :: u32) * new_alloc) = obj * unat new_alloc"
    by (subst unat_mult_small) (simp_all add: obj_def)
  have sub: "unat (new_alloc - ucast (al_alloc lst)) = unat new_alloc - unat (al_alloc lst)"
    using ge by (simp add: unat_sub word_le_nat_alt)
  have "obj * (unat new_alloc - unat (al_alloc lst)) \<le> 65535 * 65535" using obj lt by (intro mult_le_mono) auto
  then have nset: "unat ((ucast (al_obj_size lst) :: u32) * (new_alloc - ucast (al_alloc lst)))
      = obj * (unat new_alloc - unat (al_alloc lst))"
    using sub by (subst unat_mult_small) (simp_all add: obj_def)
  have tot: "obj * unat (al_alloc lst) + obj * (unat new_alloc - unat (al_alloc lst)) = obj * unat new_alloc"
    using ge by (simp add: distrib_left [symmetric])
  have le: "unat (al_count lst) \<le> unat (al_alloc lst)" "length (al_data lst) = unat (al_alloc lst)"
    using wf by (simp_all add: alist_wf_def word_le_nat_alt)
  have uc: "unat (ucast new_alloc :: u16) = unat new_alloc" using lt by (rule unat_ucast_32_16)
  show ?thesis
  proof (cases "al_flags lst AND ALISTF_FAIL \<noteq> 0")
    case True
    with wf show ?thesis
      by (intro exI [of _ False] exI [of _ lst]) (simp add: alist_expand_to_def alist_err_def)
  next
    case False
    then show ?thesis
      using wf le obj ge uc
      by (auto simp: alist_expand_to_def blk nset tot obj_def [symmetric] Let_def alist_wf_def alist_list_def
          alist_err_def word_le_nat_alt word_ao_absorbs)
  qed
qed

lemma alist_double_step:
  assumes "0 < a" and "unat a < 2147483648"
  shows "alist_double a (a + 1) = Some (a * 2)"
proof -
  have a1: "unat (a + 1) = unat a + 1" using assms by (simp add: unat_plus_if')
  have a2: "unat (a * 2) = unat a * 2" using assms by (subst unat_mult_small) auto
  have "a < a + 1" "\<not> a * 2 < a + 1"
    using a1 a2 assms(1) by (auto simp: word_less_nat_alt)
  then show ?thesis by (simp add: alist_double.simps [of a] alist_double.simps [of "a * 2"])
qed

lemma alist_expand_min_ok:
  assumes wf: "alist_wf lst" and full: "al_count lst = al_alloc lst" and lt: "unat (al_alloc lst) < 32768"
  shows "\<exists>ok lst'. alist_expand_min h z lst (ucast (al_count lst) + 1) = Some (ok, lst') \<and> alist_wf lst' \<and>
    alist_list lst' = alist_list lst \<and> al_count lst' = al_count lst \<and>
    (if ok then unat (al_count lst) < unat (al_alloc lst') else alist_err lst')"
proof -
  define a :: u32 where "a = (if al_alloc lst \<noteq> 0 then ucast (al_alloc lst) else 4)"
  obtain n where n: "alist_double a (ucast (al_count lst) + 1) = Some n"
    and bnd: "unat (al_alloc lst) < unat n" "unat n < 65536"
  proof (cases "al_alloc lst = 0")
    case True
    then have "alist_double a (ucast (al_count lst) + 1) = Some 4"
      using full by (simp add: a_def alist_double.simps)
    with True that [of 4] show ?thesis by simp
  next
    case False
    then have a: "a = ucast (al_alloc lst)" "0 < a" by (simp_all add: a_def word_less_nat_alt unat_gt_0)
    have "alist_double a (a + 1) = Some (a * 2)" using a lt by (intro alist_double_step) auto
    moreover have "unat (a * 2) = unat a * 2" using a lt by (subst unat_mult_small) auto
    ultimately show ?thesis using that [of "a * 2"] a full lt False
      by (simp add: unat_gt_0 [symmetric] del: unat_gt_0)
  qed
  from alist_expand_to_ok [OF wf _ bnd(2), of h z] bnd(1)
  obtain ok lst' where e: "alist_expand_to h z lst n = Some (ok, lst')" and r: "alist_wf lst'"
    "alist_list lst' = alist_list lst" "al_count lst' = al_count lst"
    "if ok then unat (al_alloc lst') = unat n else alist_err lst'"
    by (auto split: if_splits)
  have "alist_expand_min h z lst (ucast (al_count lst) + 1) = Some (ok, lst')"
    using n e by (auto simp: alist_expand_min_def a_def split: if_splits)
  with r bnd(1) full show ?thesis by (auto split: if_splits)
qed

lemma alist_count_Suc:
  assumes "unat (c :: u16) < 65535"
  shows "unat (ucast (ucast c + 1 :: u32) :: u16) = unat c + 1"
proof -
  have "unat (ucast c + 1 :: u32) = unat c + 1" using assms by (simp add: unat_plus_if')
  with assms show ?thesis using unat_ucast_32_16 [of "ucast c + 1"] by simp
qed

text \<open>Storing an object in a list that has a free slot.\<close>

lemma alist_store:
  assumes wf: "alist_wf lst" and room: "unat (al_count lst) < unat (al_alloc lst)"
    and l1: "l1 = lst\<lparr>al_count := ucast (ucast (al_count lst) + 1 :: u32)\<rparr>"
    and l2: "l2 = l1\<lparr>al_data := (al_data l1)[unat (al_count lst) := obj]\<rparr>"
  shows "alist_wf l2" and "alist_list l2 = alist_list lst @ [obj]" and "unat (al_count lst) < length (al_data l1)"
proof -
  have c: "unat (al_count l1) = unat (al_count lst) + 1"
    using alist_count_Suc [of "al_count lst"] room unat_u16_less [of "al_alloc lst"] l1 by simp
  have d: "length (al_data lst) = unat (al_alloc lst)" "0 < al_obj_size lst" using wf by (auto simp: alist_wf_def)
  show "unat (al_count lst) < length (al_data l1)" using d room l1 by simp
  show "alist_wf l2" using d c room l1 l2 by (simp add: alist_wf_def word_le_nat_alt)
  have "alist_list l2 = take (unat (al_count lst) + 1) ((al_data lst)[unat (al_count lst) := obj])"
    using c l1 l2 by (simp add: alist_list_def)
  also have "\<dots> = take (unat (al_count lst)) (al_data lst) @ [obj]"
    using d room by (simp add: take_Suc_conv_app_nth)
  finally show "alist_list l2 = alist_list lst @ [obj]" by (simp add: alist_list_def)
qed

lemma alist_ucast_ge: "(ucast (a :: u16) :: u32) \<ge> ucast b \<longleftrightarrow> b \<le> (a :: u16)"
  by (simp add: word_le_nat_alt)

lemma alist_add_ptr_room:
  assumes wf: "alist_wf lst" and room: "unat (al_count lst) < unat (al_alloc lst)"
  shows "\<exists>lst'. alist_add_ptr h z lst obj = Some (Some (ucast (al_count lst)), lst') \<and> alist_wf lst' \<and>
    alist_list lst' = alist_list lst @ [obj]"
proof -
  define l1 where "l1 = lst\<lparr>al_count := ucast (ucast (al_count lst) + 1 :: u32)\<rparr>"
  define l2 where "l2 = l1\<lparr>al_data := (al_data l1)[unat (al_count lst) := obj]\<rparr>"
  have "unat (ucast (al_count lst) + 1 :: u32) = unat (al_count lst) + 1"
    using unat_u16_less [of "al_count lst"] by (simp add: unat_plus_if')
  then have "(ucast (al_count lst) :: u32) \<le> ucast (al_count lst) + 1" by (simp add: word_le_nat_alt)
  moreover have "\<not> al_alloc lst \<le> al_count lst" using room by (simp add: word_le_nat_alt)
  ultimately have "alist_add_placeholder h z lst = Some (Some (ucast (al_count lst)), l1)"
    by (simp add: alist_add_placeholder_def alist_ensure_ptr_def Let_def alist_ucast_ge l1_def)
  with alist_store [OF wf room l1_def l2_def] show ?thesis
    by (simp add: alist_add_ptr_def l2_def)
qed

lemma alist_add_ptr_expand:
  assumes wf: "alist_wf lst" and full: "al_count lst = al_alloc lst"
    and exp: "alist_expand_min h z lst (ucast (al_count lst) + 1) = Some (True, lst1)"
    and l1: "alist_wf lst1" "al_count lst1 = al_count lst" "unat (al_count lst) < unat (al_alloc lst1)"
  shows "alist_add_ptr h z lst obj = alist_add_ptr h z lst1 obj"
proof -
  have "\<not> al_alloc lst1 \<le> al_count lst1" using l1 by (simp add: word_le_nat_alt)
  then show ?thesis using full exp l1
    by (simp add: alist_add_ptr_def alist_add_placeholder_def alist_ensure_ptr_def Let_def alist_ucast_ge)
qed

text \<open>C11: as long as the allocation can be doubled within 16 bits, \<open>alist_add_ptr\<close> returns; it either
  stores the object behind the existing ones and returns its index, or it leaves the list unchanged
  and marks it failed.\<close>

theorem alist_add_appends:
  assumes "alist_wf lst" and "unat (al_alloc lst) < 32768"
  shows "\<exists>r lst'. alist_add_ptr h z lst obj = Some (r, lst') \<and> alist_wf lst' \<and>
    (case r of
       Some ptr \<Rightarrow> unat ptr = length (alist_list lst) \<and> alist_list lst' = alist_list lst @ [obj]
     | None \<Rightarrow> alist_list lst' = alist_list lst \<and> alist_err lst')"
proof -
  have len: "length (alist_list lst) = unat (al_count lst)"
    using assms by (simp add: alist_list_def alist_wf_def word_le_nat_alt)
  show ?thesis
  proof (cases "al_count lst = al_alloc lst")
    case False
    then have "unat (al_count lst) < unat (al_alloc lst)"
      using assms(1) by (simp add: alist_wf_def word_le_nat_alt word_unat_eq_iff)
    from alist_add_ptr_room [OF assms(1) this, of h z obj] len show ?thesis by auto
  next
    case True
    from alist_expand_min_ok [OF assms(1) True assms(2), of h z] obtain ok lst1 where
      e: "alist_expand_min h z lst (ucast (al_count lst) + 1) = Some (ok, lst1)" and
      r: "alist_wf lst1" "alist_list lst1 = alist_list lst" "al_count lst1 = al_count lst"
        "if ok then unat (al_count lst) < unat (al_alloc lst1) else alist_err lst1" by blast
    show ?thesis
    proof (cases ok)
      case ok: True
      with r have room: "unat (al_count lst1) < unat (al_alloc lst1)" by simp
      from alist_add_ptr_room [OF r(1) room, of h z obj] len r
        alist_add_ptr_expand [OF assms(1) True, of h z lst1 obj] e ok room
      show ?thesis by auto
    next
      case False
      with e r True show ?thesis
        by (simp add: alist_add_ptr_def alist_add_placeholder_def alist_ensure_ptr_def Let_def)
    qed
  qed
qed

text \<open>\<open>alist_uninit_move_ptr\<close> gives the objects away and leaves an empty, usable list.\<close>

lemma alist_uninit_move:
  "alist_wf lst \<Longrightarrow> alist_uninit_move_ptr h z lst = (p, n, lst') \<Longrightarrow>
   (case p of None \<Rightarrow> alist_list lst = [] | Some d \<Rightarrow> take (unat n) d = alist_list lst) \<and> alist_list lst' = []"
  by (auto simp: alist_uninit_move_ptr_def alist_list_def alist_uninit_def alist_zero_def alist_init_def
      split: if_splits)

lemma alist_init_ok:
  assumes "alist_init h z obj n = (True, lst)" and "0 < obj" "unat obj < 65536" "unat n < 65536"
  shows "alist_wf lst \<and> alist_list lst = [] \<and> unat (al_alloc lst) = unat n \<and> \<not> alist_err lst"
proof -
  have "unat (ucast obj :: u16) = unat obj" "unat (ucast n :: u16) = unat n"
    using assms(3,4) by (simp_all add: unat_ucast_32_16)
  with assms show ?thesis
    by (auto simp: alist_init_def alist_zero_def alist_wf_def alist_list_def alist_err_def Let_def
        word_less_nat_alt word_le_nat_alt split: if_splits)
qed

text \<open>The 16-bit allocation count wraps to zero when it is doubled from 32768.\<close>

lemma alist_double_32770: "alist_double 4 32770 = Some 65536"
  by (simp add: alist_double.simps)

lemma alist_expand_to_wraps:
  assumes "\<not> alist_err lst" and "\<And>n. malloc_ok h n" and "unat (al_alloc lst) \<le> length (al_data lst)"
    and "0 < al_obj_size lst" and "unat (al_alloc lst) \<le> 65536"
  shows "alist_expand_to h z lst 65536 =
    Some (True, lst\<lparr>al_alloc := 0, al_data := take (unat (al_alloc lst)) (al_data lst)
                                 @ replicate (65536 - unat (al_alloc lst)) z\<rparr>)"
proof -
  define obj where "obj = unat (al_obj_size lst)"
  have obj: "0 < obj" "obj < 65536"
    using assms(4) unat_u16_less [of "al_obj_size lst"] by (auto simp: obj_def word_less_nat_alt)
  have blk: "unat ((ucast (al_obj_size lst) :: u32) * 65536) = obj * 65536"
    using obj by (subst unat_mult_small) (simp_all add: obj_def)
  have sub: "unat (65536 - ucast (al_alloc lst) :: u32) = 65536 - unat (al_alloc lst)"
    using assms(5) by (simp add: unat_sub word_le_nat_alt)
  have "obj * (65536 - unat (al_alloc lst)) \<le> 65535 * 65536" using obj by (intro mult_le_mono) auto
  then have nset: "unat ((ucast (al_obj_size lst) :: u32) * (65536 - ucast (al_alloc lst)))
      = obj * (65536 - unat (al_alloc lst))"
    using sub by (subst unat_mult_small) (simp_all add: obj_def)
  have "obj * unat (al_alloc lst) + obj * (65536 - unat (al_alloc lst)) = obj * 65536"
    using assms(5) by (simp add: distrib_left [symmetric])
  then show ?thesis
    using assms(1-3) obj
    by (simp add: alist_expand_to_def blk nset obj_def [symmetric] Let_def alist_err_def)
qed

text \<open>C16: once 32768 objects fill the allocation, the next \<open>alist_add_ptr\<close> truncates the doubled
  allocation count to zero, and the one after it succeeds with every earlier object zeroed.\<close>

theorem alist_add_loses:
  assumes "alist_wf lst" and "unat (al_count lst) = 32768" and "al_alloc lst = al_count lst"
    and "\<not> alist_err lst" and "\<And>n. malloc_ok h n"
  shows "\<exists>lst1 lst2. alist_add_ptr h z lst a = Some (Some 32768, lst1) \<and>
    alist_add_ptr h z lst1 b = Some (Some 32769, lst2) \<and>
    alist_list lst2 = replicate 32769 z @ [b]"
proof -
  have cnt: "al_count lst = 32768" "al_alloc lst = 32768"
    using assms(2,3) by (simp_all add: word_unat_eq_iff)
  have dat: "length (al_data lst) = 32768" "0 < al_obj_size lst"
    using assms(1) cnt by (simp_all add: alist_wf_def)
  have step: "alist_double 32768 32769 = Some 65536"
    by (simp add: alist_double.simps)
  define lst1 where "lst1 = lst\<lparr>al_alloc := 0, al_count := 32769,
     al_data := (al_data lst @ replicate 32768 z)[32768 := a]\<rparr>"
  define lst2 where "lst2 = lst1\<lparr>al_count := 32770, al_data := (replicate 65536 z)[32769 := b]\<rparr>"
  have e1: "alist_expand_to h z lst 65536 =
      Some (True, lst\<lparr>al_alloc := 0, al_data := al_data lst @ replicate 32768 z\<rparr>)"
    using alist_expand_to_wraps [of lst h z] assms dat cnt by simp
  have a1: "alist_add_ptr h z lst a = Some (Some 32768, lst1)"
    using e1 step cnt dat
    by (simp add: alist_add_ptr_def alist_add_placeholder_def alist_ensure_ptr_def alist_expand_min_def Let_def lst1_def)
  have "\<not> alist_err lst1" using assms(4) by (simp add: lst1_def alist_err_def)
  then have e2: "alist_expand_to h z lst1 65536 = Some (True, lst1\<lparr>al_alloc := 0, al_data := replicate 65536 z\<rparr>)"
    using alist_expand_to_wraps [of lst1 h z] assms(5) dat by (simp add: lst1_def)
  have a2: "alist_add_ptr h z lst1 b = Some (Some 32769, lst2)"
    using e2 alist_double_32770
    by (simp add: alist_add_ptr_def alist_add_placeholder_def alist_ensure_ptr_def alist_expand_min_def Let_def
        lst1_def lst2_def)
  have "alist_list lst2 = replicate 32769 z @ [b]"
    using take_replicate_update [of 32769 65536 z b] by (simp add: alist_list_def lst2_def)
  with a1 a2 show ?thesis by blast
qed

locale room_list =
  fixes full :: "'l \<Rightarrow> bool"
    and grow :: "'l \<Rightarrow> (bool \<times> 'l) option"
    and contents :: "'l \<Rightarrow> 'a list"
    and slots :: "'l \<Rightarrow> nat"
    and invar :: "'l \<Rightarrow> bool"
    and growable :: "'l \<Rightarrow> bool"
  assumes contents_fit: "invar l \<Longrightarrow> length (contents l) \<le> slots l"
    and full_iff: "invar l \<Longrightarrow> full l \<longleftrightarrow> length (contents l) = slots l"
    and grow_keeps: "invar l \<Longrightarrow> growable l \<Longrightarrow>
      \<exists>ok l'. grow l = Some (ok, l') \<and> invar l' \<and> contents l' = contents l \<and> (ok \<longrightarrow> slots l < slots l')"
begin

lemma make_room:
  assumes "invar l" and "full l \<Longrightarrow> growable l"
  shows "\<exists>ok l'. (if full l then grow l else Some (True, l)) = Some (ok, l') \<and> invar l' \<and>
    contents l' = contents l \<and> (ok \<longrightarrow> length (contents l') < slots l')"
proof (cases "full l")
  case True
  with grow_keeps [OF assms(1) assms(2)] full_iff [OF assms(1)] show ?thesis by auto
next
  case False
  with contents_fit [OF assms(1)] full_iff [OF assms(1)] assms(1) show ?thesis by auto
qed

end

interpretation alr: room_list alist_full "alist_grow h z" alist_list alist_slots alist_wf alist_growable
  for h and z
proof
  fix l :: "'a alist" assume wf: "alist_wf l"
  then have len: "length (alist_list l) = unat (al_count l)" "unat (al_count l) \<le> unat (al_alloc l)"
    by (simp_all add: alist_list_def alist_wf_def word_le_nat_alt)
  then show "length (alist_list l) \<le> alist_slots l" by (simp add: alist_slots_def)
  from len show "alist_full l \<longleftrightarrow> length (alist_list l) = alist_slots l"
    by (simp add: alist_full_def alist_slots_def word_unat_eq_iff)
  assume gr: "alist_growable l"
  let ?n = "ucast (al_alloc l) + ucast (al_alloc l) :: u32"
  have n: "unat ?n = 2 * unat (al_alloc l)"
    using gr by (subst unat_plus_if') (auto simp: alist_growable_def alist_slots_def)
  have "unat (al_alloc l) \<le> unat ?n" "unat ?n < 65536"
    using gr n by (auto simp: alist_growable_def alist_slots_def)
  from alist_expand_to_ok [OF wf this, of h z] n gr
  show "\<exists>ok l'. alist_grow h z l = Some (ok, l') \<and> alist_wf l' \<and> alist_list l' = alist_list l \<and>
      (ok \<longrightarrow> alist_slots l < alist_slots l')"
    unfolding alist_grow_def alist_expand_by_def alist_slots_def alist_growable_def
    by (fastforce split: if_splits)
qed

theorem alist_add_appends_witness:
  "\<exists>r lst'. alist_add_ptr heap_ok 0 alist_ex 9 = Some (Some r, lst') \<and> unat r = 2 \<and> alist_list lst' = [7, 8, 9]"
proof -
  have wf: "alist_wf alist_ex" by (simp add: alist_wf_def alist_ex_def)
  have lst: "alist_list alist_ex = [7, 8]" by (simp add: alist_list_def alist_ex_def)
  have small: "unat (al_alloc alist_ex) < 32768" by (simp add: alist_ex_def)
  have "alist_double 2 3 = Some 4" by (simp add: alist_double.simps)
  then have "\<exists>l. alist_add_ptr heap_ok 0 alist_ex 9 = Some (Some 2, l)"
    by (simp add: alist_add_ptr_def alist_add_placeholder_def alist_ensure_ptr_def alist_expand_min_def
        alist_expand_to_def alist_ex_def heap_ok_def Let_def)
  with alist_add_appends [OF wf small, of heap_ok 0 9] lst show ?thesis by auto
qed

theorem alist_add_loses_witness:
  "\<exists>lst1 lst2. alist_add_ptr heap_ok 0 alist_big 2 = Some (Some 32768, lst1) \<and>
    alist_add_ptr heap_ok 0 lst1 3 = Some (Some 32769, lst2) \<and> alist_list lst2 = replicate 32769 0 @ [3]"
  by (rule alist_add_loses)
     (simp_all add: alist_big_def alist_wf_def alist_err_def heap_ok_def)

end
