(* ===== verification/Lmb.thy ===== *)
theory Lmb
  imports Alist
begin

text \<open>
  The logical memory blocks of lib/lmb.c: the map of available memory and the map of used memory,
  each an \<open>alist\<close> of regions sorted by base address. Addresses and sizes are 64-bit words, so the
  wrap-around of every address computation is that of the source. The functions that may grow a
  list take the heap and return \<^term>\<open>None\<close> where \<open>alist_expand_by\<close> would touch memory outside its
  block. \<open>efi_map_update_notify\<close>, the hook into the EFI memory map, is the parameter \<open>ntf\<close>. The
  lemmas give the meaning of a region list as a map from addresses to flags and show that adding a
  region that overlaps no other extends that map, that freeing removes exactly the given range, and
  that an allocation lies in available memory, apart from everything reserved before.
\<close>

subsection \<open>State\<close>

record lmb_region =
  rg_base :: u64
  rg_size :: u64
  rg_flags :: u32

record lmb =
  available_mem :: "lmb_region alist"
  used_mem :: "lmb_region alist"
  lmb_test :: bool

datatype lmb_map_op = LMB_MAP_OP_RESERVE | LMB_MAP_OP_FREE | LMB_MAP_OP_ADD

type_synonym map_notify = "u64 \<Rightarrow> u64 \<Rightarrow> lmb_map_op \<Rightarrow> u32 \<Rightarrow> int"

definition LMB_NONE :: u32 where [simp]: "LMB_NONE = 0"
definition LMB_NOMAP :: u32 where [simp]: "LMB_NOMAP = 1"
definition LMB_NOOVERWRITE :: u32 where [simp]: "LMB_NOOVERWRITE = 2"
definition LMB_NONOTIFY :: u32 where [simp]: "LMB_NONOTIFY = 4"
definition LMB_ALLOC_ANYWHERE :: u64 where [simp]: "LMB_ALLOC_ANYWHERE = 0"
definition LMB_ALIST_INITIAL_SIZE :: u32 where [simp]: "LMB_ALIST_INITIAL_SIZE = 4"

text \<open>\<open>sizeof(struct lmb_region)\<close> and the region \<open>calloc\<close> leaves in a fresh slot.\<close>

definition sizeof_lmb_region :: u32 where [simp]: "sizeof_lmb_region = 24"

definition lmb_region_zero :: lmb_region where
  "lmb_region_zero = \<lparr>rg_base = 0, rg_size = 0, rg_flags = 0\<rparr>"

text \<open>\<open>rgn[i]\<close> and the assignment to it.\<close>

definition rgn :: "lmb_region alist \<Rightarrow> nat \<Rightarrow> lmb_region" where
  "rgn lst i = al_data lst ! i"

definition rgn_set :: "lmb_region alist \<Rightarrow> nat \<Rightarrow> lmb_region \<Rightarrow> lmb_region alist" where
  "rgn_set lst i r = lst\<lparr>al_data := (al_data lst)[i := r]\<rparr>"

definition rgn_count :: "lmb_region alist \<Rightarrow> nat" where
  "rgn_count lst = unat (al_count lst)"

subsection \<open>Region lists\<close>

definition lmb_addrs_overlap :: "u64 \<Rightarrow> u64 \<Rightarrow> u64 \<Rightarrow> u64 \<Rightarrow> bool" where
  "lmb_addrs_overlap base1 size1 base2 size2 =
     (let base1_end = base1 + size1 - 1; base2_end = base2 + size2 - 1
      in base1 \<le> base2_end \<and> base2 \<le> base1_end)"

definition lmb_addrs_adjacent :: "u64 \<Rightarrow> u64 \<Rightarrow> u64 \<Rightarrow> u64 \<Rightarrow> int" where
  "lmb_addrs_adjacent base1 size1 base2 size2 =
     (if base2 = base1 + size1 then 1 else if base1 = base2 + size2 then - 1 else 0)"

definition lmb_regions_overlap :: "lmb_region alist \<Rightarrow> nat \<Rightarrow> nat \<Rightarrow> bool" where
  "lmb_regions_overlap lst r1 r2 =
     lmb_addrs_overlap (rg_base (rgn lst r1)) (rg_size (rgn lst r1)) (rg_base (rgn lst r2)) (rg_size (rgn lst r2))"

definition lmb_regions_adjacent :: "lmb_region alist \<Rightarrow> nat \<Rightarrow> nat \<Rightarrow> int" where
  "lmb_regions_adjacent lst r1 r2 =
     lmb_addrs_adjacent (rg_base (rgn lst r1)) (rg_size (rgn lst r1)) (rg_base (rgn lst r2)) (rg_size (rgn lst r2))"

text \<open>The loop of \<open>lmb_remove_region\<close>: the regions from \<open>i\<close> on move down by one, up to index \<open>n\<close>.\<close>

function lmb_shift_down :: "lmb_region list \<Rightarrow> nat \<Rightarrow> nat \<Rightarrow> lmb_region list" where
  "lmb_shift_down rs i n = (if i < n then lmb_shift_down (rs[i := rs ! (i + 1)]) (i + 1) n else rs)"
  by pat_completeness auto
termination
  by (relation "measure (\<lambda>(rs, i, n). n - i)") auto

declare lmb_shift_down.simps [simp del]

definition lmb_remove_region :: "lmb_region alist \<Rightarrow> nat \<Rightarrow> lmb_region alist" where
  "lmb_remove_region lst r =
     lst\<lparr>al_data := lmb_shift_down (al_data lst) r (rgn_count lst - 1), al_count := al_count lst - 1\<rparr>"

definition lmb_coalesce_regions :: "lmb_region alist \<Rightarrow> nat \<Rightarrow> nat \<Rightarrow> lmb_region alist" where
  "lmb_coalesce_regions lst r1 r2 =
     lmb_remove_region
       (rgn_set lst r1 ((rgn lst r1)\<lparr>rg_size := rg_size (rgn lst r1) + rg_size (rgn lst r2)\<rparr>)) r2"

definition lmb_fix_over_lap_regions :: "lmb_region alist \<Rightarrow> nat \<Rightarrow> nat \<Rightarrow> lmb_region alist" where
  "lmb_fix_over_lap_regions lst r1 r2 =
     (let base1 = rg_base (rgn lst r1); size1 = rg_size (rgn lst r1);
          base2 = rg_base (rgn lst r2); size2 = rg_size (rgn lst r2)
      in if base1 + size1 > base2 + size2 then lst
         else lmb_remove_region
                (rgn_set lst r1 ((rgn lst r1)\<lparr>rg_size := base2 + size2 - base1\<rparr>)) r2)"

text \<open>
  The first loop of \<open>lmb_resize_regions\<close>: the number of overlapping regions and the last of them,
  \<^term>\<open>None\<close> when one of them has flags.
\<close>

function lmb_resize_scan ::
    "lmb_region alist \<Rightarrow> nat \<Rightarrow> u64 \<Rightarrow> u64 \<Rightarrow> nat \<Rightarrow> nat \<Rightarrow> (nat \<times> nat) option" where
  "lmb_resize_scan lst idx base sz rgn_cnt idx_end =
     (if idx < rgn_count lst then
        (if lmb_addrs_overlap base sz (rg_base (rgn lst idx)) (rg_size (rgn lst idx)) then
           (if rg_flags (rgn lst idx) \<noteq> LMB_NONE then None
            else lmb_resize_scan lst (idx + 1) base sz (rgn_cnt + 1) idx)
         else lmb_resize_scan lst (idx + 1) base sz rgn_cnt idx_end)
      else Some (rgn_cnt, idx_end))"
  by pat_completeness auto
termination
  by (relation "measure (\<lambda>(lst, idx, base, sz, rgn_cnt, idx_end). rgn_count lst - idx)") auto

declare lmb_resize_scan.simps [simp del]

text \<open>
  \<open>lmb_resize_regions\<close> is called with \<open>idx_start\<close> overlapping the new range, so at least one region
  is counted and the second loop removes the other counted ones.
\<close>

definition lmb_resize_regions :: "lmb_region alist \<Rightarrow> nat \<Rightarrow> u64 \<Rightarrow> u64 \<Rightarrow> int \<times> lmb_region alist" where
  "lmb_resize_regions lst idx_start base sz =
     (case lmb_resize_scan lst idx_start base sz 0 idx_start of
        None \<Rightarrow> (- 1, lst)
      | Some (rgn_cnt, idx_end) \<Rightarrow>
          (let rgnbase = rg_base (rgn lst idx_start);
               mergebase = min base rgnbase;
               rgnend = rg_base (rgn lst idx_end) + rg_size (rgn lst idx_end);
               mergeend = max rgnend (base + sz);
               lst1 = rgn_set lst idx_start
                        ((rgn lst idx_start)\<lparr>rg_base := mergebase, rg_size := mergeend - mergebase\<rparr>)
           in (0, ((\<lambda>l. lmb_remove_region l (idx_start + 1)) ^^ (rgn_cnt - 1)) lst1)))"

text \<open>
  The coalescing loop of \<open>lmb_add_region_flags\<close>: an early return value, the index at which the
  loop stopped, the value of \<open>coalesced\<close> and the list.
\<close>

function lmb_add_scan ::
    "lmb_region alist \<Rightarrow> nat \<Rightarrow> u64 \<Rightarrow> u64 \<Rightarrow> u32 \<Rightarrow> int option \<times> nat \<times> nat \<times> lmb_region alist" where
  "lmb_add_scan lst i base sz flags =
     (if i < rgn_count lst then
        (let r = rgn lst i; ret = lmb_addrs_adjacent base sz (rg_base r) (rg_size r) in
         if ret > 0 then
           (if flags \<noteq> rg_flags r then (None, i, 0, lst)
            else (None, i, 1, rgn_set lst i (r\<lparr>rg_base := rg_base r - sz, rg_size := rg_size r + sz\<rparr>)))
         else if ret < 0 then
           (if flags \<noteq> rg_flags r then (None, i, 0, lst)
            else (None, i, 1, rgn_set lst i (r\<lparr>rg_size := rg_size r + sz\<rparr>)))
         else if lmb_addrs_overlap base sz (rg_base r) (rg_size r) then
           (if flags \<noteq> LMB_NONE then (Some (- EEXIST), i, 0, lst)
            else (case lmb_resize_regions lst i base sz of (ret, lst') \<Rightarrow>
                    if ret < 0 then (Some (- 1), i, 0, lst') else (None, i, 1, lst')))
         else lmb_add_scan lst (i + 1) base sz flags)
      else (None, i, 0, lst))"
  by pat_completeness auto
termination
  by (relation "measure (\<lambda>(lst, i, base, sz, flags). rgn_count lst - i)") auto

declare lmb_add_scan.simps [simp del]

text \<open>The step after the loop: join region \<open>i\<close> with its successor.\<close>

definition lmb_add_join :: "lmb_region alist \<Rightarrow> nat \<Rightarrow> nat \<Rightarrow> nat \<times> lmb_region alist" where
  "lmb_add_join lst i coalesced =
     (if rgn_count lst \<noteq> 0 \<and> i < rgn_count lst - 1 then
        (if rg_flags (rgn lst i) = rg_flags (rgn lst (i + 1)) then
           (if lmb_regions_adjacent lst i (i + 1) \<noteq> 0 then (coalesced + 1, lmb_coalesce_regions lst i (i + 1))
            else if lmb_regions_overlap lst i (i + 1)
            then (coalesced + 1, lmb_fix_over_lap_regions lst i (i + 1))
            else (coalesced, lst))
         else (coalesced, lst))
      else (coalesced, lst))"

text \<open>The insertion loop, counting \<open>i\<close> down from the number of regions.\<close>

fun lmb_insert :: "lmb_region list \<Rightarrow> nat \<Rightarrow> lmb_region \<Rightarrow> lmb_region list" where
  "lmb_insert rs 0 r = rs[0 := r]"
| "lmb_insert rs (Suc i) r =
     (if rg_base r < rg_base (rs ! i) then lmb_insert (rs[Suc i := rs ! i]) i r else rs[Suc i := r])"

text \<open>The last part of \<open>lmb_add_region_flags\<close>: make room for one more region and insert it.\<close>

definition lmb_add_insert ::
    "c_heap \<Rightarrow> lmb_region alist \<Rightarrow> lmb_region \<Rightarrow> (int \<times> lmb_region alist) option" where
  "lmb_add_insert h lst r =
     (case (if alist_full lst then alist_grow h lmb_region_zero lst else Some (True, lst)) of
        None \<Rightarrow> None
      | Some (ok, lst1) \<Rightarrow>
          if \<not> ok then Some (- 1, lst1)
          else Some (0, lst1\<lparr>al_data := lmb_insert (al_data lst1) (rgn_count lst1) r,
                             al_count := al_count lst1 + 1\<rparr>))"

definition lmb_add_region_flags ::
    "c_heap \<Rightarrow> lmb_region alist \<Rightarrow> u64 \<Rightarrow> u64 \<Rightarrow> u32 \<Rightarrow> (int \<times> lmb_region alist) option" where
  "lmb_add_region_flags h lst base sz flags =
     (if alist_err lst then Some (- 1, lst)
      else
        (case lmb_add_scan lst 0 base sz flags of
           (Some ret, i, coalesced, lst1) \<Rightarrow> Some (ret, lst1)
         | (None, i, coalesced, lst1) \<Rightarrow>
             (case lmb_add_join lst1 i coalesced of (coalesced, lst2) \<Rightarrow>
                if coalesced \<noteq> 0 then Some (0, lst2)
                else lmb_add_insert h lst2 \<lparr>rg_base = base, rg_size = sz, rg_flags = flags\<rparr>)))"

text \<open>The first region that holds \<open>(base, end)\<close>.\<close>

function lmb_free_find :: "lmb_region alist \<Rightarrow> nat \<Rightarrow> u64 \<Rightarrow> u64 \<Rightarrow> nat" where
  "lmb_free_find lst i base en =
     (if i < rgn_count lst then
        (let rgnbegin = rg_base (rgn lst i); rgnend = rgnbegin + rg_size (rgn lst i) - 1 in
         if rgnbegin \<le> base \<and> en \<le> rgnend then i else lmb_free_find lst (i + 1) base en)
      else i)"
  by pat_completeness auto
termination
  by (relation "measure (\<lambda>(lst, i, base, en). rgn_count lst - i)") auto

declare lmb_free_find.simps [simp del]

definition lmb_free_region ::
    "c_heap \<Rightarrow> lmb_region alist \<Rightarrow> u64 \<Rightarrow> u64 \<Rightarrow> (int \<times> lmb_region alist) option" where
  "lmb_free_region h lst base sz =
     (let en = base + sz - 1; i = lmb_free_find lst 0 base en in
      if i = rgn_count lst then Some (- 1, lst)
      else
        (let r = rgn lst i; rgnbegin = rg_base r; rgnend = rgnbegin + rg_size r - 1 in
         if rgnbegin = base \<and> rgnend = en then Some (0, lmb_remove_region lst i)
         else if rgnbegin = base then
           Some (0, rgn_set lst i (r\<lparr>rg_base := en + 1, rg_size := rg_size r - sz\<rparr>))
         else if rgnend = en then Some (0, rgn_set lst i (r\<lparr>rg_size := rg_size r - sz\<rparr>))
         else
           (let lst1 = rgn_set lst i (r\<lparr>rg_size := base - rg_base r\<rparr>)
            in lmb_add_region_flags h lst1 (en + 1) (rgnend - en) (rg_flags (rgn lst1 i)))))"

function lmb_overlaps_from :: "lmb_region alist \<Rightarrow> nat \<Rightarrow> u64 \<Rightarrow> u64 \<Rightarrow> nat option" where
  "lmb_overlaps_from lst i base sz =
     (if i < rgn_count lst then
        (if lmb_addrs_overlap base sz (rg_base (rgn lst i)) (rg_size (rgn lst i)) then Some i
         else lmb_overlaps_from lst (i + 1) base sz)
      else None)"
  by pat_completeness auto
termination
  by (relation "measure (\<lambda>(lst, i, base, sz). rgn_count lst - i)") auto

declare lmb_overlaps_from.simps [simp del]

text \<open>The index of the first overlapping region; \<^term>\<open>None\<close> stands for the result -1.\<close>

definition lmb_overlaps_region :: "lmb_region alist \<Rightarrow> u64 \<Rightarrow> u64 \<Rightarrow> nat option" where
  "lmb_overlaps_region lst base sz = lmb_overlaps_from lst 0 base sz"

definition rg_lo :: "lmb_region \<Rightarrow> nat" where "rg_lo r = unat (rg_base r)"

definition rg_hi :: "lmb_region \<Rightarrow> nat" where "rg_hi r = unat (rg_base r) + unat (rg_size r)"

text \<open>A region that is not empty and ends before the last address.\<close>

definition rg_ok :: "lmb_region \<Rightarrow> bool" where
  "rg_ok r \<longleftrightarrow> rg_lo r < rg_hi r \<and> rg_hi r < 2 ^ 64"

text \<open>Sorted by address, without overlap.\<close>

definition rgs_ok :: "lmb_region list \<Rightarrow> bool" where
  "rgs_ok rs \<longleftrightarrow> (\<forall>r \<in> set rs. rg_ok r) \<and> sorted_wrt (\<lambda>a b. rg_hi a \<le> rg_lo b) rs"

text \<open>Neighbours with the same flags do not touch: they would have been joined.\<close>

definition rgs_sep :: "lmb_region list \<Rightarrow> bool" where
  "rgs_sep = successively (\<lambda>a b. rg_flags a = rg_flags b \<longrightarrow> rg_hi a \<noteq> rg_lo b)"

text \<open>What a list of regions says: the flags of every address in one of them.\<close>

fun lmb_map :: "lmb_region list \<Rightarrow> nat \<Rightarrow> u32 option" where
  "lmb_map [] a = None"
| "lmb_map (r # rs) a = (if rg_lo r \<le> a \<and> a < rg_hi r then Some (rg_flags r) else lmb_map rs a)"

definition lmb_list_wf :: "lmb_region alist \<Rightarrow> bool" where
  "lmb_list_wf lst \<longleftrightarrow> alist_wf lst \<and> rgs_ok (alist_list lst)"

abbreviation mkrg :: "u64 \<Rightarrow> u64 \<Rightarrow> u32 \<Rightarrow> lmb_region" where
  "mkrg b s f \<equiv> \<lparr>rg_base = b, rg_size = s, rg_flags = f\<rparr>"

definition list_remove :: "nat \<Rightarrow> 'a list \<Rightarrow> 'a list" where
  "list_remove i xs = take i xs @ drop (Suc i) xs"

text \<open>The sorted insertion the loop performs.\<close>

fun rgs_insert :: "lmb_region \<Rightarrow> lmb_region list \<Rightarrow> lmb_region list" where
  "rgs_insert r [] = [r]"
| "rgs_insert r (x # xs) = (if rg_base r < rg_base x then r # x # xs else x # rgs_insert r xs)"

definition map_range :: "nat \<Rightarrow> nat \<Rightarrow> u32 option \<Rightarrow> (nat \<Rightarrow> u32 option) \<Rightarrow> nat \<Rightarrow> u32 option" where
  "map_range lo hi v m = (\<lambda>a. if lo \<le> a \<and> a < hi then v else m a)"

definition rg_apart :: "lmb_region \<Rightarrow> lmb_region \<Rightarrow> bool" where
  "rg_apart a b \<longleftrightarrow> rg_hi a \<le> rg_lo b \<or> rg_hi b \<le> rg_lo a"

definition rg_touch :: "lmb_region \<Rightarrow> lmb_region \<Rightarrow> bool" where
  "rg_touch n x \<longleftrightarrow> rg_lo x = rg_hi n \<or> rg_lo n = rg_hi x"

text \<open>A region can be added to a list when it overlaps none of its regions and a full list can grow.\<close>

definition lmb_addable :: "lmb_region alist \<Rightarrow> lmb_region \<Rightarrow> bool" where
  "lmb_addable lst n \<longleftrightarrow> lmb_list_wf lst \<and> rgs_sep (alist_list lst) \<and> (alist_full lst \<longrightarrow> alist_growable lst) \<and>
     rg_ok n \<and> (\<forall>x \<in> set (alist_list lst). rg_apart n x)"

text \<open>No region with other flags ends where the new one begins.\<close>

definition lmb_joinable :: "lmb_region alist \<Rightarrow> lmb_region \<Rightarrow> bool" where
  "lmb_joinable lst n \<longleftrightarrow> (\<forall>x \<in> set (alist_list lst). rg_hi x = rg_lo n \<longrightarrow> rg_flags x = rg_flags n)"

definition lmb_added :: "lmb_region list \<Rightarrow> lmb_region \<Rightarrow> lmb_region list \<Rightarrow> bool" where
  "lmb_added rs n rs' \<longleftrightarrow> rgs_ok rs' \<and>
     lmb_map rs' = map_range (rg_lo n) (rg_hi n) (Some (rg_flags n)) (lmb_map rs)"

definition rg_within :: "lmb_region \<Rightarrow> lmb_region \<Rightarrow> bool" where
  "rg_within n r \<longleftrightarrow> rg_lo r \<le> rg_lo n \<and> rg_hi n \<le> rg_hi r"

definition lmb_list_ex :: "lmb_region list \<Rightarrow> lmb_region alist" where
  "lmb_list_ex rs = \<lparr>al_data = rs @ replicate (4 - length rs) lmb_region_zero, al_obj_size = 24,
     al_count = word_of_nat (length rs), al_alloc = 4, al_flags = 0\<rparr>"

subsection \<open>Lemmas\<close>

lemma unat_base_size: "rg_ok r \<Longrightarrow> unat (rg_base r + rg_size r) = rg_hi r"
  by (simp add: rg_ok_def rg_hi_def unat_plus_if')

lemma unat_base_size_m1: "rg_ok r \<Longrightarrow> unat (rg_base r + rg_size r - 1) = rg_hi r - 1"
proof -
  assume ok: "rg_ok r"
  then have "1 \<le> rg_base r + rg_size r"
    using unat_base_size [OF ok] by (simp add: word_le_nat_alt rg_ok_def)
  then show ?thesis using unat_base_size [OF ok] by (simp add: unat_sub)
qed

lemma lmb_addrs_overlap_iff:
  assumes "rg_ok a" and "rg_ok b"
  shows "lmb_addrs_overlap (rg_base a) (rg_size a) (rg_base b) (rg_size b)
    \<longleftrightarrow> rg_lo a < rg_hi b \<and> rg_lo b < rg_hi a"
  using assms unat_base_size_m1 [OF assms(1)] unat_base_size_m1 [OF assms(2)]
  by (auto simp: lmb_addrs_overlap_def Let_def word_le_nat_alt rg_ok_def rg_lo_def)

lemma lmb_addrs_adjacent_iff:
  assumes "rg_ok a" and "rg_ok b"
  shows "lmb_addrs_adjacent (rg_base a) (rg_size a) (rg_base b) (rg_size b) =
    (if rg_lo b = rg_hi a then 1 else if rg_lo a = rg_hi b then - 1 else 0)"
  using unat_base_size [OF assms(1)] unat_base_size [OF assms(2)]
  by (simp add: lmb_addrs_adjacent_def word_unat_eq_iff rg_lo_def)

subsubsection \<open>Arrays and lists\<close>

lemma lmb_shift_down_length [simp]: "length (lmb_shift_down rs i n) = length rs"
  by (induction rs i n rule: lmb_shift_down.induct) (subst lmb_shift_down.simps, simp)

lemma lmb_shift_down_nth:
  assumes "n < length rs" and "k < length rs"
  shows "lmb_shift_down rs i n ! k = (if i \<le> k \<and> k < n then rs ! Suc k else rs ! k)"
  using assms
proof (induction rs i n rule: lmb_shift_down.induct)
  case (1 rs i n)
  then show ?case
    by (subst lmb_shift_down.simps) (auto simp: nth_list_update not_less_eq_eq dest: le_antisym)
qed

lemma length_list_remove [simp]: "i < length xs \<Longrightarrow> length (list_remove i xs) = length xs - 1"
  by (simp add: list_remove_def)

lemma nth_list_remove: "i < length xs \<Longrightarrow> k < length xs - 1 \<Longrightarrow>
    list_remove i xs ! k = (if k < i then xs ! k else xs ! Suc k)"
  by (auto simp: list_remove_def nth_append min_def)

lemma rgn_count_length: "alist_wf lst \<Longrightarrow> rgn_count lst = length (alist_list lst)"
  by (simp add: rgn_count_def alist_list_def alist_wf_def word_le_nat_alt)

lemma rgn_nth: "alist_wf lst \<Longrightarrow> i < rgn_count lst \<Longrightarrow> rgn lst i = alist_list lst ! i"
  by (simp add: rgn_def alist_list_def rgn_count_def)

lemma rgn_set_list: "alist_list (rgn_set lst i r) = (alist_list lst)[i := r]"
  by (simp add: alist_list_def rgn_set_def take_update_swap)

lemma rgn_set_wf [simp]:
  "alist_wf (rgn_set lst i r) = alist_wf lst" "alist_err (rgn_set lst i r) = alist_err lst"
  "alist_growable (rgn_set lst i r) = alist_growable lst" "rgn_count (rgn_set lst i r) = rgn_count lst"
  "alist_slots (rgn_set lst i r) = alist_slots lst"
  by (simp_all add: rgn_set_def alist_wf_def alist_err_def alist_growable_def alist_slots_def rgn_count_def)

lemma lmb_remove_region_list:
  assumes wf: "alist_wf lst" and i: "i < rgn_count lst"
  shows "alist_list (lmb_remove_region lst i) = list_remove i (alist_list lst)"
    and "alist_wf (lmb_remove_region lst i)"
    and "alist_err (lmb_remove_region lst i) = alist_err lst"
    and "alist_growable (lmb_remove_region lst i) = alist_growable lst"
proof -
  have c: "unat (al_count lst - 1) = rgn_count lst - 1"
    using i by (subst unat_sub) (auto simp: rgn_count_def word_le_nat_alt)
  have le: "rgn_count lst \<le> length (al_data lst)" "0 < al_obj_size lst" "length (al_data lst) = unat (al_alloc lst)"
    using wf by (simp_all add: alist_wf_def rgn_count_def word_le_nat_alt)
  show "alist_list (lmb_remove_region lst i) = list_remove i (alist_list lst)"
  proof (rule nth_equalityI)
    show "length (alist_list (lmb_remove_region lst i)) = length (list_remove i (alist_list lst))"
      using i le c rgn_count_length [OF wf] by (simp add: alist_list_def lmb_remove_region_def)
    fix k assume k: "k < length (alist_list (lmb_remove_region lst i))"
    then have "k < rgn_count lst - 1" using le c by (simp add: alist_list_def lmb_remove_region_def)
    then show "alist_list (lmb_remove_region lst i) ! k = list_remove i (alist_list lst) ! k"
      using i le c rgn_count_length [OF wf]
      by (auto simp: alist_list_def lmb_remove_region_def nth_list_remove lmb_shift_down_nth rgn_count_def)
  qed
  show "alist_wf (lmb_remove_region lst i)"
    using le c i by (simp add: alist_wf_def lmb_remove_region_def word_le_nat_alt)
  show "alist_err (lmb_remove_region lst i) = alist_err lst"
    and "alist_growable (lmb_remove_region lst i) = alist_growable lst"
    by (simp_all add: alist_err_def alist_growable_def alist_slots_def lmb_remove_region_def)
qed

lemma lmb_insert_length [simp]: "length (lmb_insert rs i r) = length rs"
  by (induction rs i r rule: lmb_insert.induct) auto

lemma rgs_insert_snoc:
  assumes "sorted_wrt (\<lambda>a b. rg_base a \<le> rg_base b) (xs @ [x])"
  shows "rgs_insert r (xs @ [x]) = (if rg_base r < rg_base x then rgs_insert r xs @ [x] else xs @ [x, r])"
  using assms by (induction xs) (auto simp: sorted_wrt_append)

lemma lmb_insert_list:
  assumes "n < length rs" and "sorted_wrt (\<lambda>a b. rg_base a \<le> rg_base b) (take n rs)"
  shows "lmb_insert rs n r = rgs_insert r (take n rs) @ drop (Suc n) rs"
  using assms
proof (induction rs n r rule: lmb_insert.induct)
  case (1 rs r)
  then show ?case by (cases rs) auto
next
  case (2 rs i r)
  have tk: "take (Suc i) rs = take i rs @ [rs ! i]"
    using "2.prems" by (simp add: take_Suc_conv_app_nth)
  note snoc = rgs_insert_snoc [OF "2.prems"(2) [unfolded tk], of r]
  show ?case
  proof (cases "rg_base r < rg_base (rs ! i)")
    case True
    have "sorted_wrt (\<lambda>a b. rg_base a \<le> rg_base b) (take i rs)"
      using "2.prems"(2) tk by (simp add: sorted_wrt_append)
    moreover have "drop (Suc i) (rs[Suc i := rs ! i]) = rs ! i # drop (Suc (Suc i)) rs"
      using "2.prems"(1) by (simp add: drop_update_swap Cons_nth_drop_Suc [symmetric])
    ultimately show ?thesis using "2.IH" [OF True] True "2.prems"(1) snoc tk by simp
  next
    case False
    with "2.prems"(1) snoc tk show ?thesis
      by (simp add: upd_conv_take_nth_drop)
  qed
qed

subsubsection \<open>Region lists\<close>

lemma rgs_ok_append:
  "rgs_ok (xs @ ys) \<longleftrightarrow> rgs_ok xs \<and> rgs_ok ys \<and> (\<forall>x \<in> set xs. \<forall>y \<in> set ys. rg_hi x \<le> rg_lo y)"
  by (auto simp: rgs_ok_def sorted_wrt_append)

lemma rgs_ok_Cons:
  "rgs_ok (r # rs) \<longleftrightarrow> rg_ok r \<and> rgs_ok rs \<and> (\<forall>y \<in> set rs. rg_hi r \<le> rg_lo y)"
  by (auto simp: rgs_ok_def)

lemma rgs_ok_Nil [simp]: "rgs_ok []"
  by (simp add: rgs_ok_def)

lemma rgs_ok_in: "rgs_ok rs \<Longrightarrow> r \<in> set rs \<Longrightarrow> rg_ok r"
  by (simp add: rgs_ok_def)

lemmas rgs_ok_simps = rgs_ok_append rgs_ok_Cons

lemma rgs_ok_sorted: "rgs_ok rs \<Longrightarrow> sorted_wrt (\<lambda>a b. rg_base a \<le> rg_base b) rs"
  by (induction rs) (auto simp: rgs_ok_Cons word_le_nat_alt rg_ok_def rg_lo_def rg_hi_def)

lemma lmb_map_append:
  "lmb_map (xs @ ys) a = (case lmb_map xs a of None \<Rightarrow> lmb_map ys a | Some f \<Rightarrow> Some f)"
  by (induction xs) auto

lemma lmb_map_None_iff: "lmb_map rs a = None \<longleftrightarrow> (\<forall>r \<in> set rs. \<not> (rg_lo r \<le> a \<and> a < rg_hi r))"
  by (induction rs) auto

lemma lmb_map_below: "\<forall>r \<in> set rs. rg_hi r \<le> a \<Longrightarrow> lmb_map rs a = None"
  by (auto simp: lmb_map_None_iff)

lemma lmb_map_above: "\<forall>r \<in> set rs. a < rg_lo r \<Longrightarrow> lmb_map rs a = None"
  by (auto simp: lmb_map_None_iff)

lemma set_rgs_insert [simp]: "set (rgs_insert r rs) = insert r (set rs)"
  by (induction rs) auto

lemma rgs_insert_ok:
  assumes "rgs_ok rs" and "rg_ok r" and "\<forall>x \<in> set rs. rg_apart r x"
  shows "rgs_ok (rgs_insert r rs)"
    and "lmb_map (rgs_insert r rs) = map_range (rg_lo r) (rg_hi r) (Some (rg_flags r)) (lmb_map rs)"
proof -
  show "rgs_ok (rgs_insert r rs)"
    using assms
  proof (induction rs)
    case Nil
    then show ?case by (simp add: rgs_ok_Cons)
  next
    case (Cons x xs)
    show ?case
    proof (cases "rg_base r < rg_base x")
      case True
      then have "rg_hi r \<le> rg_lo x" using Cons.prems
        by (auto simp: rg_apart_def word_less_nat_alt rg_lo_def rg_ok_def rgs_ok_Cons)
      with True Cons.prems show ?thesis
        by (auto simp: rgs_ok_Cons rg_ok_def intro: order_trans [OF _ order_trans [OF less_imp_le]])
    next
      case False
      then have "rg_hi x \<le> rg_lo r" using Cons.prems
        by (auto simp: rg_apart_def word_less_nat_alt rg_lo_def rg_ok_def rgs_ok_Cons)
      with False Cons show ?thesis by (auto simp: rgs_ok_Cons)
    qed
  qed
  show "lmb_map (rgs_insert r rs) = map_range (rg_lo r) (rg_hi r) (Some (rg_flags r)) (lmb_map rs)"
    using assms(1,3)
  proof (induction rs)
    case Nil
    then show ?case by (simp add: map_range_def fun_eq_iff)
  next
    case (Cons x xs)
    then show ?case by (fastforce simp: map_range_def fun_eq_iff rgs_ok_Cons rg_apart_def)
  qed
qed

text \<open>Growing a region into a free range above or below it.\<close>

lemma rgs_grow_up:
  assumes ok: "rgs_ok (xs @ r # ys)" and n: "rg_ok n" "\<forall>x \<in> set (xs @ r # ys). rg_apart n x"
    and adj: "rg_lo n = rg_hi r" and f: "rg_flags n = rg_flags r"
    and r': "rg_lo r' = rg_lo r" "rg_hi r' = rg_hi n" "rg_flags r' = rg_flags r"
  shows "rgs_ok (xs @ r' # ys)"
    and "lmb_map (xs @ r' # ys) = map_range (rg_lo n) (rg_hi n) (Some (rg_flags n)) (lmb_map (xs @ r # ys))"
proof -
  have ys: "\<forall>y \<in> set ys. rg_hi n \<le> rg_lo y"
  proof
    fix y
    assume y: "y \<in> set ys"
    then have "rg_ok y" "rg_hi r \<le> rg_lo y" using ok by (auto simp: rgs_ok_simps dest: rgs_ok_in)
    moreover have "rg_apart n y" using n y by simp
    ultimately show "rg_hi n \<le> rg_lo y" using adj n(1) by (simp add: rg_apart_def rg_ok_def)
  qed
  then show "rgs_ok (xs @ r' # ys)"
    using ok n adj r' by (auto simp: rgs_ok_simps rg_ok_def)
  show "lmb_map (xs @ r' # ys) = map_range (rg_lo n) (rg_hi n) (Some (rg_flags n)) (lmb_map (xs @ r # ys))"
  proof
    fix a
    have "lmb_map xs a = None" if "rg_lo r \<le> a"
      using that ok by (intro lmb_map_below) (auto simp: rgs_ok_simps)
    then show "lmb_map (xs @ r' # ys) a
        = map_range (rg_lo n) (rg_hi n) (Some (rg_flags n)) (lmb_map (xs @ r # ys)) a"
      using adj f r' n(1) ok
      by (auto simp: lmb_map_append map_range_def rg_ok_def rgs_ok_simps split: option.splits)
  qed
qed

lemma rgs_grow_down:
  assumes ok: "rgs_ok (xs @ r # ys)" and n: "rg_ok n" "\<forall>x \<in> set (xs @ r # ys). rg_apart n x"
    and adj: "rg_hi n = rg_lo r" and f: "rg_flags n = rg_flags r"
    and r': "rg_lo r' = rg_lo n" "rg_hi r' = rg_hi r" "rg_flags r' = rg_flags r"
  shows "rgs_ok (xs @ r' # ys)"
    and "lmb_map (xs @ r' # ys) = map_range (rg_lo n) (rg_hi n) (Some (rg_flags n)) (lmb_map (xs @ r # ys))"
proof -
  have xs: "\<forall>x \<in> set xs. rg_hi x \<le> rg_lo n"
  proof
    fix x
    assume x: "x \<in> set xs"
    then have "rg_ok x" "rg_hi x \<le> rg_lo r" using ok by (auto simp: rgs_ok_simps dest: rgs_ok_in)
    moreover have "rg_apart n x" using n x by simp
    ultimately show "rg_hi x \<le> rg_lo n" using adj n(1) by (simp add: rg_apart_def rg_ok_def)
  qed
  then show "rgs_ok (xs @ r' # ys)"
    using ok n adj r' by (auto simp: rgs_ok_simps rg_ok_def)
  show "lmb_map (xs @ r' # ys) = map_range (rg_lo n) (rg_hi n) (Some (rg_flags n)) (lmb_map (xs @ r # ys))"
  proof
    fix a
    have "lmb_map xs a = None" if "rg_lo n \<le> a"
      using that xs by (intro lmb_map_below) auto
    then show "lmb_map (xs @ r' # ys) a
        = map_range (rg_lo n) (rg_hi n) (Some (rg_flags n)) (lmb_map (xs @ r # ys)) a"
      using adj f r' n(1) ok
      by (auto simp: lmb_map_append map_range_def rg_ok_def rgs_ok_simps split: option.splits)
  qed
qed

text \<open>Joining two touching regions with the same flags changes nothing.\<close>

lemma rgs_join:
  assumes ok: "rgs_ok (xs @ r # y # ys)" and adj: "rg_hi r = rg_lo y" and f: "rg_flags r = rg_flags y"
    and r': "rg_lo r' = rg_lo r" "rg_hi r' = rg_hi y" "rg_flags r' = rg_flags r"
  shows "rgs_ok (xs @ r' # ys)" and "lmb_map (xs @ r' # ys) = lmb_map (xs @ r # y # ys)"
proof -
  show "rgs_ok (xs @ r' # ys)"
    using ok adj r' by (auto simp: rgs_ok_simps rg_ok_def)
  show "lmb_map (xs @ r' # ys) = lmb_map (xs @ r # y # ys)"
    using ok adj f r' by (auto simp: fun_eq_iff lmb_map_append rgs_ok_simps rg_ok_def split: option.splits)
qed

subsubsection \<open>Adding a region\<close>

lemma rgn_at: "alist_wf lst \<Longrightarrow> alist_list lst = xs @ r # ys \<Longrightarrow> rgn lst (length xs) = r"
  using rgn_nth [of lst "length xs"] rgn_count_length [of lst] by simp

lemma rgn_at_Suc: "alist_wf lst \<Longrightarrow> alist_list lst = xs @ r # y # ys \<Longrightarrow> rgn lst (Suc (length xs)) = y"
  using rgn_at [of lst "xs @ [r]" y ys] by simp

lemma rgn_count_at: "alist_wf lst \<Longrightarrow> alist_list lst = xs @ ys \<Longrightarrow> rgn_count lst = length xs + length ys"
  by (simp add: rgn_count_length)

lemma lmb_add_scan_skip:
  assumes wf: "alist_wf lst" and n: "rg_ok (mkrg base sz flags)"
  shows "alist_list lst = xs @ us @ vs \<Longrightarrow>
    \<forall>x \<in> set us. rg_ok x \<and> rg_apart (mkrg base sz flags) x \<and> \<not> rg_touch (mkrg base sz flags) x \<Longrightarrow>
    lmb_add_scan lst (length xs) base sz flags = lmb_add_scan lst (length xs + length us) base sz flags"
proof (induction us arbitrary: xs)
  case Nil
  then show ?case by simp
next
  case (Cons x us)
  let ?n = "mkrg base sz flags"
  have x: "rg_ok x" "rg_apart ?n x" "\<not> rg_touch ?n x" using Cons.prems(2) by simp_all
  have c: "length xs < rgn_count lst" using Cons.prems(1) by (simp add: rgn_count_length wf)
  have r: "rgn lst (length xs) = x" using rgn_at [OF wf] Cons.prems(1) by simp
  have "lmb_addrs_adjacent base sz (rg_base x) (rg_size x) = 0"
    using lmb_addrs_adjacent_iff [OF n x(1)] x(3) by (auto simp: rg_touch_def)
  moreover have "\<not> lmb_addrs_overlap base sz (rg_base x) (rg_size x)"
    using lmb_addrs_overlap_iff [OF n x(1)] x(2) by (auto simp: rg_apart_def)
  ultimately have "lmb_add_scan lst (length xs) base sz flags = lmb_add_scan lst (length (xs @ [x])) base sz flags"
    using c r by (subst lmb_add_scan.simps) simp
  then show ?case using Cons.IH [of "xs @ [x]"] Cons.prems by simp
qed

lemma lmb_add_scan_touch:
  assumes wf: "alist_wf lst" and lst: "alist_list lst = xs @ r # ys"
    and ok: "rg_ok n" "rg_ok r" and t: "rg_touch n r"
  shows "lmb_add_scan lst (length xs) (rg_base n) (rg_size n) (rg_flags n) =
    (if rg_flags n \<noteq> rg_flags r then (None, length xs, 0, lst)
     else (None, length xs, 1, rgn_set lst (length xs)
       (if rg_lo r = rg_hi n then r\<lparr>rg_base := rg_base r - rg_size n, rg_size := rg_size r + rg_size n\<rparr>
        else r\<lparr>rg_size := rg_size r + rg_size n\<rparr>)))"
proof -
  have "length xs < rgn_count lst" using lst by (simp add: rgn_count_length wf)
  then show ?thesis
    using t lmb_addrs_adjacent_iff [OF ok] rgn_at [OF wf lst]
    by (subst lmb_add_scan.simps) (auto simp: rg_touch_def)
qed

lemma lmb_add_join_last: "lmb_add_join lst (rgn_count lst) c = (c, lst)"
  by (auto simp: lmb_add_join_def)

lemma lmb_add_join_none:
  assumes wf: "alist_wf lst" and lst: "alist_list lst = xs @ r # ys" and ok: "rgs_ok (xs @ r # ys)"
    and no: "\<And>y zs. ys = y # zs \<Longrightarrow> rg_flags r = rg_flags y \<Longrightarrow> rg_hi r \<noteq> rg_lo y"
  shows "lmb_add_join lst (length xs) c = (c, lst)"
proof (cases ys)
  case Nil
  then show ?thesis using rgn_count_at [OF wf lst] by (simp add: lmb_add_join_def)
next
  case (Cons y zs)
  have rr: "rgn lst (length xs) = r" "rgn lst (Suc (length xs)) = y"
    using rgn_at [OF wf lst] rgn_at_Suc [OF wf] lst Cons by simp_all
  have y: "rg_ok r" "rg_ok y" "rg_hi r \<le> rg_lo y" using ok Cons by (auto simp: rgs_ok_simps)
  then have "\<not> lmb_addrs_overlap (rg_base r) (rg_size r) (rg_base y) (rg_size y)"
    "lmb_addrs_adjacent (rg_base r) (rg_size r) (rg_base y) (rg_size y) = (if rg_lo y = rg_hi r then 1 else 0)"
    using lmb_addrs_overlap_iff [OF y(1,2)] lmb_addrs_adjacent_iff [OF y(1,2)] by (auto simp: rg_ok_def)
  then show ?thesis using rr no [OF Cons]
    by (auto simp: lmb_add_join_def lmb_regions_adjacent_def lmb_regions_overlap_def)
qed

lemma lmb_add_join_two:
  assumes wf: "alist_wf lst" and lst: "alist_list lst = xs @ r # y # ys" and ok: "rg_ok r" "rg_ok y"
    and f: "rg_flags r = rg_flags y" and adj: "rg_hi r = rg_lo y"
  shows "\<exists>lst'. lmb_add_join lst (length xs) c = (Suc c, lst') \<and> alist_wf lst' \<and>
    alist_list lst' = xs @ r\<lparr>rg_size := rg_size r + rg_size y\<rparr> # ys"
proof -
  have rr: "rgn lst (length xs) = r" "rgn lst (Suc (length xs)) = y"
    using rgn_at [OF wf lst] rgn_at_Suc [OF wf lst] by simp_all
  have c: "rgn_count lst = Suc (Suc (length xs + length ys))" using rgn_count_at [OF wf lst] by simp
  let ?l = "rgn_set lst (length xs) (r\<lparr>rg_size := rg_size r + rg_size y\<rparr>)"
  have l: "alist_wf ?l" "alist_list ?l = xs @ r\<lparr>rg_size := rg_size r + rg_size y\<rparr> # y # ys"
    using wf lst by (simp_all add: rgn_set_list)
  have "lmb_add_join lst (length xs) c = (Suc c, lmb_remove_region ?l (Suc (length xs)))"
    using lmb_addrs_adjacent_iff [OF ok] adj f rr c
    by (simp add: lmb_add_join_def lmb_regions_adjacent_def lmb_coalesce_regions_def)
  moreover have "Suc (length xs) < rgn_count ?l" using c by simp
  ultimately show ?thesis
    using lmb_remove_region_list [OF l(1), of "Suc (length xs)"] l(2) by (simp add: list_remove_def)
qed

lemma mkrg_eta [simp]: "mkrg (rg_base n) (rg_size n) (rg_flags n) = n"
  by simp

lemma length_rgs_insert [simp]: "length (rgs_insert r rs) = Suc (length rs)"
  by (induction rs) auto

lemma lmb_add_insert_ok:
  assumes wf: "lmb_list_wf lst" and room: "alist_full lst \<Longrightarrow> alist_growable lst"
  shows "\<exists>ret lst'. lmb_add_insert h lst r = Some (ret, lst') \<and> alist_wf lst' \<and>
    (ret = 0 \<and> alist_list lst' = rgs_insert r (alist_list lst) \<or> ret = - 1 \<and> alist_full lst \<and> alist_list lst' = alist_list lst)"
proof -
  have w: "alist_wf lst" "rgs_ok (alist_list lst)" using wf by (simp_all add: lmb_list_wf_def)
  obtain ok l where l: "(if alist_full lst then alist_grow h lmb_region_zero lst else Some (True, lst)) = Some (ok, l)"
    "alist_wf l" "alist_list l = alist_list lst" "ok \<longrightarrow> length (alist_list l) < alist_slots l"
    using alr.make_room [OF w(1) room, of h lmb_region_zero] by blast
  show ?thesis
  proof (cases ok)
    case False
    then show ?thesis using l by (cases "alist_full lst") (simp_all add: lmb_add_insert_def)
  next
    case True
    let ?l = "l\<lparr>al_data := lmb_insert (al_data l) (rgn_count l) r, al_count := al_count l + 1\<rparr>"
    have c: "rgn_count l < unat (al_alloc l)"
      using l True rgn_count_length [OF l(2)] by (simp add: alist_slots_def)
    then have c1: "unat (al_count l + 1) = Suc (rgn_count l)"
      using unat_u16_less [of "al_alloc l"] by (simp add: rgn_count_def unat_plus_if')
    have d: "length (al_data l) = unat (al_alloc l)" using l by (simp add: alist_wf_def)
    have "lmb_insert (al_data l) (rgn_count l) r = rgs_insert r (alist_list l) @ drop (Suc (rgn_count l)) (al_data l)"
      using lmb_insert_list [of "rgn_count l" "al_data l" r] rgs_ok_sorted [of "alist_list l"] w l c d
      by (simp add: alist_list_def rgn_count_def)
    then have "alist_list ?l = rgs_insert r (alist_list lst)"
      using c1 l(3) rgn_count_length [OF l(2)] by (subst alist_list_def) simp
    moreover have "alist_wf ?l"
      using c c1 d l by (simp add: alist_wf_def word_le_nat_alt)
    ultimately show ?thesis using l True by (simp add: lmb_add_insert_def)
  qed
qed

text \<open>The regions of a list after adding one that overlaps none of them.\<close>

lemma unat_rg_grow:
  "rg_ok n \<Longrightarrow> rg_ok r \<Longrightarrow> rg_lo n = rg_hi r \<Longrightarrow> rg_hi (r\<lparr>rg_size := rg_size r + rg_size n\<rparr>) = rg_hi n"
  by (simp add: rg_ok_def rg_hi_def rg_lo_def unat_plus_if')

lemma unat_rg_grow_down:
  assumes "rg_ok n" "rg_ok r" "rg_hi n = rg_lo r"
  shows "rg_lo (r\<lparr>rg_base := rg_base r - rg_size n, rg_size := rg_size r + rg_size n\<rparr>) = rg_lo n"
    and "rg_hi (r\<lparr>rg_base := rg_base r - rg_size n, rg_size := rg_size r + rg_size n\<rparr>) = rg_hi r"
proof -
  have b: "unat (rg_base r - rg_size n) = rg_lo n"
    using assms by (subst unat_sub) (auto simp: rg_lo_def rg_hi_def word_le_nat_alt)
  have "unat (rg_size r + rg_size n) = unat (rg_size r) + unat (rg_size n)"
    using assms by (simp add: rg_ok_def rg_hi_def rg_lo_def unat_plus_if')
  with b assms show "rg_hi (r\<lparr>rg_base := rg_base r - rg_size n, rg_size := rg_size r + rg_size n\<rparr>) = rg_hi r"
    by (simp add: rg_hi_def rg_lo_def)
  from b show "rg_lo (r\<lparr>rg_base := rg_base r - rg_size n, rg_size := rg_size r + rg_size n\<rparr>) = rg_lo n"
    by (simp add: rg_lo_def)
qed

lemma rgs_sep_append:
  "rgs_sep (xs @ r # ys) \<longleftrightarrow> rgs_sep xs \<and> rgs_sep (r # ys) \<and>
    (xs \<noteq> [] \<longrightarrow> rg_flags (last xs) = rg_flags r \<longrightarrow> rg_hi (last xs) \<noteq> rg_lo r)"
  by (auto simp: rgs_sep_def successively_append_iff)

lemma rgs_sep_Cons:
  "rgs_sep (r # ys) \<longleftrightarrow> rgs_sep ys \<and> (\<forall>y zs. ys = y # zs \<longrightarrow> rg_flags r = rg_flags y \<longrightarrow> rg_hi r \<noteq> rg_lo y)"
  by (cases ys) (auto simp: rgs_sep_def)

lemma rgs_sep_Nil [simp]: "rgs_sep []"
  by (simp add: rgs_sep_def)

lemma rgs_sep_insert:
  assumes "rgs_sep rs" and "\<forall>x \<in> set rs. rg_flags x = rg_flags r \<longrightarrow> \<not> rg_touch r x"
  shows "rgs_sep (rgs_insert r rs)"
  using assms
proof (induction rs)
  case Nil
  then show ?case by (simp add: rgs_sep_def)
next
  case (Cons x xs)
  then have "rgs_sep (rgs_insert r xs)" by (simp add: rgs_sep_Cons)
  with Cons.prems show ?case
    by (cases xs) (auto simp: rgs_sep_Cons rg_touch_def)
qed

lemma lmb_add_no_touch:
  assumes pre: "lmb_addable lst n" and no: "\<forall>x \<in> set (alist_list lst). \<not> rg_touch n x" and e: "\<not> alist_err lst"
  shows "lmb_add_region_flags h lst (rg_base n) (rg_size n) (rg_flags n) = lmb_add_insert h lst n"
proof -
  have wf: "alist_wf lst" "rg_ok n" and ok: "rgs_ok (alist_list lst)"
    using pre by (simp_all add: lmb_addable_def lmb_list_wf_def)
  have "lmb_add_scan lst 0 (rg_base n) (rg_size n) (rg_flags n) =
      lmb_add_scan lst (rgn_count lst) (rg_base n) (rg_size n) (rg_flags n)"
    using lmb_add_scan_skip [OF wf(1), of "rg_base n" "rg_size n" "rg_flags n" "[]" "alist_list lst" "[]"]
      wf no ok pre rgn_count_length [OF wf(1)]
    by (auto simp: lmb_addable_def dest: rgs_ok_in)
  also have "\<dots> = (None, rgn_count lst, 0, lst)"
    by (subst lmb_add_scan.simps) simp
  finally show ?thesis using e by (simp add: lmb_add_region_flags_def lmb_add_join_last)
qed

lemma lmb_add_first_touch:
  assumes pre: "lmb_addable lst n" and lst: "alist_list lst = xs @ r # ys"
    and xs: "\<forall>x \<in> set xs. \<not> rg_touch n x" and t: "rg_touch n r"
  shows "lmb_add_scan lst 0 (rg_base n) (rg_size n) (rg_flags n) =
    (if rg_flags n \<noteq> rg_flags r then (None, length xs, 0, lst)
     else (None, length xs, 1, rgn_set lst (length xs)
       (if rg_lo r = rg_hi n then r\<lparr>rg_base := rg_base r - rg_size n, rg_size := rg_size r + rg_size n\<rparr>
        else r\<lparr>rg_size := rg_size r + rg_size n\<rparr>)))"
proof -
  have wf: "alist_wf lst" "rg_ok n" and ok: "rgs_ok (xs @ r # ys)"
    using pre lst by (simp_all add: lmb_addable_def lmb_list_wf_def)
  have "lmb_add_scan lst 0 (rg_base n) (rg_size n) (rg_flags n) =
      lmb_add_scan lst (length xs) (rg_base n) (rg_size n) (rg_flags n)"
    using lmb_add_scan_skip [OF wf(1), of "rg_base n" "rg_size n" "rg_flags n" "[]" xs "r # ys"]
      wf lst xs pre ok by (auto simp: lmb_addable_def rgs_ok_simps dest: rgs_ok_in)
  also have "\<dots> = (if rg_flags n \<noteq> rg_flags r then (None, length xs, 0, lst)
     else (None, length xs, 1, rgn_set lst (length xs)
       (if rg_lo r = rg_hi n then r\<lparr>rg_base := rg_base r - rg_size n, rg_size := rg_size r + rg_size n\<rparr>
        else r\<lparr>rg_size := rg_size r + rg_size n\<rparr>)))"
    using lmb_add_scan_touch [OF wf(1) lst wf(2) _ t] ok by (simp add: rgs_ok_simps)
  finally show ?thesis .
qed

lemma lmb_add_other_flags:
  assumes pre: "lmb_addable lst n" and lst: "alist_list lst = xs @ r # ys"
    and xs: "\<forall>x \<in> set xs. \<not> rg_touch n x" and t: "rg_touch n r" and f: "rg_flags n \<noteq> rg_flags r"
    and e: "\<not> alist_err lst"
  shows "lmb_add_region_flags h lst (rg_base n) (rg_size n) (rg_flags n) = lmb_add_insert h lst n"
proof -
  have "lmb_add_join lst (length xs) 0 = (0, lst)"
    using pre lst by (intro lmb_add_join_none [of _ _ r ys])
      (auto simp: lmb_addable_def lmb_list_wf_def rgs_sep_append rgs_sep_Cons)
  then show ?thesis using lmb_add_first_touch [OF pre lst xs t] f e by (simp add: lmb_add_region_flags_def)
qed

lemma lmb_insert_added:
  assumes pre: "lmb_addable lst n"
  shows "\<exists>ret lst'. lmb_add_insert h lst n = Some (ret, lst') \<and> alist_wf lst' \<and>
    (ret = 0 \<and> lmb_added (alist_list lst) n (alist_list lst') \<and> alist_list lst' = rgs_insert n (alist_list lst) \<or>
     ret = - 1 \<and> alist_full lst \<and> alist_list lst' = alist_list lst)"
  using lmb_add_insert_ok [of lst h n] rgs_insert_ok [of "alist_list lst" n] pre
  by (fastforce simp: lmb_addable_def lmb_list_wf_def lmb_added_def)

lemma lmb_add_below:
  assumes pre: "lmb_addable lst n" and lst: "alist_list lst = xs @ r # ys"
    and xs: "\<forall>x \<in> set xs. \<not> rg_touch n x" and t: "rg_lo r = rg_hi n" and f: "rg_flags n = rg_flags r"
    and e: "\<not> alist_err lst"
  shows "\<exists>lst'. lmb_add_region_flags h lst (rg_base n) (rg_size n) (rg_flags n) = Some (0, lst') \<and> alist_wf lst' \<and>
    lmb_added (alist_list lst) n (alist_list lst') \<and> rgs_sep (alist_list lst')"
proof -
  define r' where "r' = r\<lparr>rg_base := rg_base r - rg_size n, rg_size := rg_size r + rg_size n\<rparr>"
  define l where "l = rgn_set lst (length xs) r'"
  have ok: "rgs_ok (xs @ r # ys)" "rg_ok r" "rg_ok n" and ap: "\<forall>x \<in> set (xs @ r # ys). rg_apart n x"
    and sep: "rgs_sep (xs @ r # ys)" and wf: "alist_wf lst"
    using pre lst by (auto simp: lmb_addable_def lmb_list_wf_def rgs_ok_simps)
  have r': "rg_lo r' = rg_lo n" "rg_hi r' = rg_hi r" "rg_flags r' = rg_flags r"
    using unat_rg_grow_down [OF ok(3,2)] t by (simp_all add: r'_def)
  have l: "alist_wf l" "alist_list l = xs @ r' # ys" using wf lst by (simp_all add: l_def rgn_set_list)
  have g: "rgs_ok (xs @ r' # ys)" "lmb_added (xs @ r # ys) n (xs @ r' # ys)"
    using rgs_grow_down [OF ok(1,3) ap t [symmetric] f r'] by (simp_all add: lmb_added_def)
  have "xs \<noteq> [] \<Longrightarrow> rg_hi (last xs) \<noteq> rg_lo n" using xs last_in_set [of xs] by (metis rg_touch_def)
  then have s: "rgs_sep (xs @ r' # ys)" using sep r' by (auto simp: rgs_sep_append rgs_sep_Cons)
  then have "lmb_add_join l (length xs) 1 = (1, l)"
    by (intro lmb_add_join_none [OF l g(1)]) (auto simp: rgs_sep_append rgs_sep_Cons)
  then have "lmb_add_region_flags h lst (rg_base n) (rg_size n) (rg_flags n) = Some (0, l)"
    using lmb_add_first_touch [OF pre lst xs] t f e by (simp add: lmb_add_region_flags_def l_def r'_def rg_touch_def)
  with l g s lst show ?thesis by simp
qed

lemma lmb_add_above:
  assumes pre: "lmb_addable lst n" and lst: "alist_list lst = xs @ r # ys"
    and xs: "\<forall>x \<in> set xs. \<not> rg_touch n x" and t: "rg_lo n = rg_hi r" and f: "rg_flags n = rg_flags r"
    and e: "\<not> alist_err lst"
  shows "\<exists>lst'. lmb_add_region_flags h lst (rg_base n) (rg_size n) (rg_flags n) = Some (0, lst') \<and> alist_wf lst' \<and>
    lmb_added (alist_list lst) n (alist_list lst') \<and> rgs_sep (alist_list lst')"
proof -
  define r' where "r' = r\<lparr>rg_size := rg_size r + rg_size n\<rparr>"
  define l where "l = rgn_set lst (length xs) r'"
  have ok: "rgs_ok (xs @ r # ys)" "rg_ok r" "rg_ok n" and ap: "\<forall>x \<in> set (xs @ r # ys). rg_apart n x"
    and sep: "rgs_sep (xs @ r # ys)" and wf: "alist_wf lst"
    using pre lst by (auto simp: lmb_addable_def lmb_list_wf_def rgs_ok_simps)
  have r': "rg_lo r' = rg_lo r" "rg_hi r' = rg_hi n" "rg_flags r' = rg_flags r"
    using unat_rg_grow [OF ok(3,2) t] by (simp_all add: r'_def rg_lo_def)
  have l: "alist_wf l" "alist_list l = xs @ r' # ys" using wf lst by (simp_all add: l_def rgn_set_list)
  have g: "rgs_ok (xs @ r' # ys)" "lmb_added (xs @ r # ys) n (xs @ r' # ys)"
    using rgs_grow_up [OF ok(1,3) ap t f r'] by (simp_all add: lmb_added_def)
  have "rg_lo r \<noteq> rg_hi n" using t ok(2,3) by (simp add: rg_ok_def)
  then have scan: "lmb_add_scan lst 0 (rg_base n) (rg_size n) (rg_flags n) = (None, length xs, 1, l)"
    using lmb_add_first_touch [OF pre lst xs] t f by (simp add: rg_touch_def l_def r'_def)
  show ?thesis
  proof (cases "\<exists>y zs. ys = y # zs \<and> rg_flags r' = rg_flags y \<and> rg_hi r' = rg_lo y")
    case False
    then have "lmb_add_join l (length xs) 1 = (1, l)" by (intro lmb_add_join_none [OF l g(1)]) auto
    then have "lmb_add_region_flags h lst (rg_base n) (rg_size n) (rg_flags n) = Some (0, l)"
      using scan e by (simp add: lmb_add_region_flags_def)
    moreover have "rgs_sep (xs @ r' # ys)" using sep r' False by (auto simp: rgs_sep_append rgs_sep_Cons)
    ultimately show ?thesis using l g lst by simp
  next
    case True
    then obtain y zs where y: "ys = y # zs" "rg_flags r' = rg_flags y" "rg_hi r' = rg_lo y" by blast
    define r2 where "r2 = r'\<lparr>rg_size := rg_size r' + rg_size y\<rparr>"
    have oky: "rg_ok r'" "rg_ok y" using g(1) y(1) by (auto simp: rgs_ok_simps)
    obtain l' where l': "lmb_add_join l (length xs) 1 = (2, l')" "alist_wf l'" "alist_list l' = xs @ r2 # zs"
      using lmb_add_join_two [OF l(1) l(2) [unfolded y(1)] oky y(2,3), of 1] by (auto simp: r2_def numeral_2_eq_2)
    have r2: "rg_lo r2 = rg_lo r'" "rg_hi r2 = rg_hi y" "rg_flags r2 = rg_flags r'"
      using unat_rg_grow [OF oky(2,1)] y(3) by (simp_all add: r2_def rg_lo_def)
    have "lmb_added (xs @ r # ys) n (xs @ r2 # zs)"
      using rgs_join [OF g(1) [unfolded y(1)] y(3,2) r2] g(2) y(1) by (simp add: lmb_added_def)
    moreover have "rgs_sep (xs @ r2 # zs)"
      using sep r' r2 y by (auto simp: rgs_sep_append rgs_sep_Cons)
    ultimately show ?thesis using l' scan e lst by (simp add: lmb_add_region_flags_def)
  qed
qed

lemma lmb_add_region_flags_ok:
  assumes pre: "lmb_addable lst n"
  shows "\<exists>ret lst'. lmb_add_region_flags h lst (rg_base n) (rg_size n) (rg_flags n) = Some (ret, lst') \<and>
    lmb_list_wf lst' \<and> (ret = 0 \<and> lmb_added (alist_list lst) n (alist_list lst') \<or>
      ret = - 1 \<and> (alist_err lst \<or> alist_full lst) \<and> alist_list lst' = alist_list lst) \<and>
    (lmb_joinable lst n \<longrightarrow> rgs_sep (alist_list lst'))"
proof (cases "alist_err lst")
  case True
  then show ?thesis using pre by (simp add: lmb_add_region_flags_def lmb_addable_def)
next
  case e: False
  have sep: "rgs_sep (alist_list lst)" and ok: "rgs_ok (alist_list lst)" "rg_ok n"
    and ap: "\<forall>x \<in> set (alist_list lst). rg_apart n x"
    using pre by (simp_all add: lmb_addable_def lmb_list_wf_def)
  obtain ret l where ins: "lmb_add_insert h lst n = Some (ret, l)" "alist_wf l"
    "ret = 0 \<and> lmb_added (alist_list lst) n (alist_list l) \<and> alist_list l = rgs_insert n (alist_list lst) \<or>
     ret = - 1 \<and> alist_full lst \<and> alist_list l = alist_list lst"
    using lmb_insert_added [OF pre] by blast
  then have l: "lmb_list_wf l" using ok by (auto simp: lmb_list_wf_def lmb_added_def)
  show ?thesis
  proof (cases "\<exists>x \<in> set (alist_list lst). rg_touch n x")
    case False
    then have "rgs_sep (alist_list l)" using ins rgs_sep_insert [OF sep, of n] sep by auto
    then show ?thesis using lmb_add_no_touch [OF pre _ e] False ins l by auto
  next
    case True
    then obtain xs r ys where s: "alist_list lst = xs @ r # ys" "rg_touch n r" "\<forall>x \<in> set xs. \<not> rg_touch n x"
      using split_list_first_prop [of "alist_list lst" "rg_touch n"] by blast
    consider "rg_flags n \<noteq> rg_flags r" | "rg_flags n = rg_flags r" "rg_lo r = rg_hi n"
      | "rg_flags n = rg_flags r" "rg_lo n = rg_hi r" using s(2) by (auto simp: rg_touch_def)
    then show ?thesis
    proof cases
      case 1
      have "rgs_sep (alist_list l)" if j: "lmb_joinable lst n"
      proof -
        have r: "rg_lo r = rg_hi n" using s j 1 by (auto simp: lmb_joinable_def rg_touch_def)
        have "\<not> rg_touch n y" if "y \<in> set ys" for y
          using that ok s(1) r rgs_ok_in [of ys y] by (fastforce simp: rgs_ok_simps rg_touch_def rg_ok_def)
        with s 1 have "\<forall>x \<in> set (alist_list lst). rg_flags x = rg_flags n \<longrightarrow> \<not> rg_touch n x" by auto
        with ins rgs_sep_insert [OF sep, of n] sep show ?thesis by auto
      qed
      then show ?thesis using lmb_add_other_flags [OF pre s(1,3,2) 1 e] ins l by auto
    next
      case 2
      then show ?thesis using lmb_add_below [OF pre s(1,3) 2(2,1) e, of h]
        by (auto simp: lmb_list_wf_def lmb_added_def)
    next
      case 3
      then show ?thesis using lmb_add_above [OF pre s(1,3) 3(2,1) e, of h]
        by (auto simp: lmb_list_wf_def lmb_added_def)
    qed
  qed
qed

subsubsection \<open>Freeing a range\<close>

lemma rgs_delete:
  assumes ok: "rgs_ok (xs @ r # ys)" and sep: "rgs_sep (xs @ r # ys)"
  shows "rgs_ok (xs @ ys)" and "rgs_sep (xs @ ys)"
    and "lmb_map (xs @ ys) = map_range (rg_lo r) (rg_hi r) None (lmb_map (xs @ r # ys))"
proof -
  show "rgs_ok (xs @ ys)" using ok by (auto simp: rgs_ok_simps)
  have "rg_hi (last xs) \<noteq> rg_lo y" if "xs \<noteq> []" "y \<in> set ys" for y
  proof -
    have "rg_hi (last xs) \<le> rg_lo r" "rg_hi r \<le> rg_lo y" "rg_lo r < rg_hi r"
      using ok that last_in_set [of xs] by (auto simp: rgs_ok_simps rg_ok_def)
    then show ?thesis by simp
  qed
  then show "rgs_sep (xs @ ys)" using sep by (cases ys) (auto simp: rgs_sep_append rgs_sep_Cons)
  show "lmb_map (xs @ ys) = map_range (rg_lo r) (rg_hi r) None (lmb_map (xs @ r # ys))"
  proof
    fix a
    have "lmb_map xs a = None" if "rg_lo r \<le> a"
      using that ok by (intro lmb_map_below) (auto simp: rgs_ok_simps)
    moreover have "lmb_map ys a = None" if "a < rg_hi r"
      using that ok by (intro lmb_map_above) (auto simp: rgs_ok_simps)
    ultimately show "lmb_map (xs @ ys) a = map_range (rg_lo r) (rg_hi r) None (lmb_map (xs @ r # ys)) a"
      by (auto simp: map_range_def lmb_map_append split: option.splits)
  qed
qed

lemma rgs_shrink:
  assumes ok: "rgs_ok (xs @ r # ys)" and sep: "rgs_sep (xs @ r # ys)"
    and r': "rg_within r' r" "rg_lo r' < rg_hi r'" "rg_flags r' = rg_flags r"
  shows "rgs_ok (xs @ r' # ys)" and "rgs_sep (xs @ r' # ys)"
    and "lmb_map (xs @ r' # ys) =
      map_range (rg_lo r) (rg_lo r') None (map_range (rg_hi r') (rg_hi r) None (lmb_map (xs @ r # ys)))"
proof -
  show "rgs_ok (xs @ r' # ys)" using ok r' by (auto simp: rgs_ok_simps rg_ok_def rg_within_def)
  have "rg_hi (last xs) \<le> rg_lo r" if "xs \<noteq> []"
    using ok that last_in_set [of xs] by (auto simp: rgs_ok_simps)
  moreover have "rg_hi r \<le> rg_lo y" if "y \<in> set ys" for y
    using ok that by (auto simp: rgs_ok_simps)
  ultimately show "rgs_sep (xs @ r' # ys)"
    using sep r' by (cases ys) (fastforce simp: rgs_sep_append rgs_sep_Cons rg_within_def)+
  show "lmb_map (xs @ r' # ys) =
      map_range (rg_lo r) (rg_lo r') None (map_range (rg_hi r') (rg_hi r) None (lmb_map (xs @ r # ys)))"
  proof
    fix a
    have "lmb_map xs a = None" if "rg_lo r \<le> a"
      using that ok by (intro lmb_map_below) (auto simp: rgs_ok_simps)
    moreover have "lmb_map ys a = None" if "a < rg_hi r"
      using that ok by (intro lmb_map_above) (auto simp: rgs_ok_simps)
    ultimately show "lmb_map (xs @ r' # ys) a =
      map_range (rg_lo r) (rg_lo r') None (map_range (rg_hi r') (rg_hi r) None (lmb_map (xs @ r # ys))) a"
      using r' by (auto simp: map_range_def lmb_map_append rg_within_def split: option.splits)
  qed
qed

lemma lmb_free_here:
  assumes "rg_ok n" and "rg_ok x"
  shows "rg_base x \<le> rg_base n \<and> rg_base n + rg_size n - 1 \<le> rg_base x + rg_size x - 1 \<longleftrightarrow> rg_within n x"
  using unat_base_size_m1 [OF assms(1)] unat_base_size_m1 [OF assms(2)] assms
  by (auto simp: rg_within_def word_le_nat_alt rg_lo_def rg_ok_def)

lemma lmb_free_find_skip:
  assumes wf: "alist_wf lst" and n: "rg_ok n"
  shows "alist_list lst = xs @ us @ vs \<Longrightarrow> \<forall>x \<in> set us. rg_ok x \<and> \<not> rg_within n x \<Longrightarrow>
    lmb_free_find lst (length xs) (rg_base n) (rg_base n + rg_size n - 1) =
    lmb_free_find lst (length xs + length us) (rg_base n) (rg_base n + rg_size n - 1)"
proof (induction us arbitrary: xs)
  case Nil
  then show ?case by simp
next
  case (Cons x us)
  have x: "rg_ok x" "\<not> rg_within n x" using Cons.prems(2) by simp_all
  have c: "length xs < rgn_count lst" using Cons.prems(1) by (simp add: rgn_count_length wf)
  have r: "rgn lst (length xs) = x" using rgn_at [OF wf] Cons.prems(1) by simp
  have "lmb_free_find lst (length xs) (rg_base n) (rg_base n + rg_size n - 1) =
      lmb_free_find lst (length (xs @ [x])) (rg_base n) (rg_base n + rg_size n - 1)"
    using c r lmb_free_here [OF n x(1)] x(2) by (subst lmb_free_find.simps) (auto simp: Let_def)
  then show ?case using Cons.IH [of "xs @ [x]"] Cons.prems by simp
qed

lemma lmb_free_find_hit:
  assumes wf: "lmb_list_wf lst" and n: "rg_ok n" and lst: "alist_list lst = xs @ r # ys" and r: "rg_within n r"
  shows "lmb_free_find lst 0 (rg_base n) (rg_base n + rg_size n - 1) = length xs"
proof -
  have w: "alist_wf lst" and ok: "rgs_ok (xs @ r # ys)" using wf lst by (simp_all add: lmb_list_wf_def)
  have "\<not> rg_within n x" if "x \<in> set xs" for x
    using that ok r n by (fastforce simp: rgs_ok_simps rg_within_def rg_ok_def)
  then have "lmb_free_find lst 0 (rg_base n) (rg_base n + rg_size n - 1) =
      lmb_free_find lst (length xs) (rg_base n) (rg_base n + rg_size n - 1)"
    using lmb_free_find_skip [OF w n, of "[]" xs "r # ys"] lst ok by (auto simp: rgs_ok_simps dest: rgs_ok_in)
  also have "\<dots> = length xs"
    using lmb_free_here [OF n, of r] r ok rgn_at [OF w lst] rgn_count_at [OF w lst]
    by (subst lmb_free_find.simps) (simp add: rgs_ok_simps Let_def)
  finally show ?thesis .
qed

lemma lmb_free_find_miss:
  assumes wf: "lmb_list_wf lst" and n: "rg_ok n" and no: "\<forall>r \<in> set (alist_list lst). \<not> rg_within n r"
  shows "lmb_free_find lst 0 (rg_base n) (rg_base n + rg_size n - 1) = rgn_count lst"
proof -
  have w: "alist_wf lst" and ok: "rgs_ok (alist_list lst)" using wf by (simp_all add: lmb_list_wf_def)
  have "lmb_free_find lst 0 (rg_base n) (rg_base n + rg_size n - 1) =
      lmb_free_find lst (rgn_count lst) (rg_base n) (rg_base n + rg_size n - 1)"
    using lmb_free_find_skip [OF w n, of "[]" "alist_list lst" "[]"] no ok rgn_count_length [OF w]
    by (auto dest: rgs_ok_in)
  then show ?thesis by (subst (asm) (2) lmb_free_find.simps) simp
qed

lemma unat_u64_sub: "b \<le> (a :: u64) \<Longrightarrow> unat (a - b) = unat a - unat b"
  by (simp add: unat_sub)

lemma rg_within_word:
  assumes "rg_ok n" and "rg_ok r" and "rg_within n r"
  shows "rg_base r = rg_base n \<longleftrightarrow> rg_lo r = rg_lo n"
    and "rg_base r + rg_size r - 1 = rg_base n + rg_size n - 1 \<longleftrightarrow> rg_hi r = rg_hi n"
    and "rg_size n \<le> rg_size r" and "rg_base r \<le> rg_base n"
  using assms unat_base_size_m1 [OF assms(1)] unat_base_size_m1 [OF assms(2)]
  by (auto simp: word_unat_eq_iff rg_lo_def rg_ok_def rg_within_def rg_hi_def word_le_nat_alt)

lemma rg_cut_front:
  assumes "rg_ok n" and "rg_ok r" and "rg_within n r" and "rg_lo r = rg_lo n"
  shows "rg_lo (r\<lparr>rg_base := rg_base n + rg_size n, rg_size := rg_size r - rg_size n\<rparr>) = rg_hi n"
    and "rg_hi (r\<lparr>rg_base := rg_base n + rg_size n, rg_size := rg_size r - rg_size n\<rparr>) = rg_hi r"
  using assms rg_within_word(3) [OF assms(1-3)] unat_base_size [OF assms(1)]
  by (auto simp: rg_lo_def rg_hi_def unat_u64_sub rg_within_def)

lemma rg_cut_end:
  assumes "rg_ok n" and "rg_ok r" and "rg_within n r" and "rg_hi r = rg_hi n"
  shows "rg_hi (r\<lparr>rg_size := rg_size r - rg_size n\<rparr>) = rg_lo n"
  using assms rg_within_word(3) [OF assms(1-3)]
  by (auto simp: rg_lo_def rg_hi_def unat_u64_sub rg_within_def)

lemma rg_cut_mid:
  assumes "rg_ok n" and "rg_ok r" and "rg_within n r"
  shows "rg_hi (r\<lparr>rg_size := rg_base n - rg_base r\<rparr>) = rg_lo n"
    and "rg_lo (mkrg (rg_base n + rg_size n) (rg_base r + rg_size r - 1 - (rg_base n + rg_size n - 1)) f) = rg_hi n"
    and "rg_hi (mkrg (rg_base n + rg_size n) (rg_base r + rg_size r - 1 - (rg_base n + rg_size n - 1)) f) = rg_hi r"
proof -
  show "rg_hi (r\<lparr>rg_size := rg_base n - rg_base r\<rparr>) = rg_lo n"
    using assms rg_within_word(4) [OF assms] by (auto simp: rg_lo_def rg_hi_def unat_u64_sub rg_within_def)
  show "rg_lo (mkrg (rg_base n + rg_size n) (rg_base r + rg_size r - 1 - (rg_base n + rg_size n - 1)) f) = rg_hi n"
    using unat_base_size [OF assms(1)] by (simp add: rg_lo_def)
  have "rg_base n + rg_size n - 1 \<le> rg_base r + rg_size r - 1"
    using lmb_free_here [OF assms(1,2)] assms(3) by simp
  from unat_u64_sub [OF this]
  show "rg_hi (mkrg (rg_base n + rg_size n) (rg_base r + rg_size r - 1 - (rg_base n + rg_size n - 1)) f) = rg_hi r"
    using unat_base_size_m1 [OF assms(1)] unat_base_size_m1 [OF assms(2)] unat_base_size [OF assms(1)] assms
    by (simp only: rg_hi_def [of "mkrg _ _ _"] lmb_region.simps) (auto simp: rg_ok_def rg_within_def)
qed

lemma lmb_free_region_at:
  assumes wf: "lmb_list_wf lst" and n: "rg_ok n" and lst: "alist_list lst = xs @ r # ys" and r: "rg_within n r"
  shows "lmb_free_region h lst (rg_base n) (rg_size n) =
    (if rg_lo r = rg_lo n \<and> rg_hi r = rg_hi n then Some (0, lmb_remove_region lst (length xs))
     else if rg_lo r = rg_lo n then
       Some (0, rgn_set lst (length xs) (r\<lparr>rg_base := rg_base n + rg_size n, rg_size := rg_size r - rg_size n\<rparr>))
     else if rg_hi r = rg_hi n then Some (0, rgn_set lst (length xs) (r\<lparr>rg_size := rg_size r - rg_size n\<rparr>))
     else lmb_add_region_flags h (rgn_set lst (length xs) (r\<lparr>rg_size := rg_base n - rg_base r\<rparr>))
       (rg_base n + rg_size n) (rg_base r + rg_size r - 1 - (rg_base n + rg_size n - 1)) (rg_flags r))"
proof -
  have w: "alist_wf lst" and rok: "rg_ok r" using wf lst by (auto simp: lmb_list_wf_def rgs_ok_simps)
  have c: "length xs \<noteq> rgn_count lst" using rgn_count_at [OF w lst] by simp
  have "alist_list (rgn_set lst (length xs) z) = xs @ z # ys" for z using lst by (simp add: rgn_set_list)
  then have "rgn (rgn_set lst (length xs) z) (length xs) = z" for z using rgn_at w by simp
  then show ?thesis
    using c rgn_at [OF w lst] rg_within_word(1,2) [OF n rok r]
    by (simp add: lmb_free_region_def Let_def lmb_free_find_hit [OF wf n lst r])
qed

lemma lmb_free_shrunk:
  assumes wf: "lmb_list_wf lst" and sep: "rgs_sep (alist_list lst)" and lst: "alist_list lst = xs @ r # ys"
    and r': "rg_within r' r" "rg_lo r' < rg_hi r'" "rg_flags r' = rg_flags r"
  shows "lmb_list_wf (rgn_set lst (length xs) r')" and "rgs_sep (alist_list (rgn_set lst (length xs) r'))"
    and "lmb_map (alist_list (rgn_set lst (length xs) r')) =
      map_range (rg_lo r) (rg_lo r') None (map_range (rg_hi r') (rg_hi r) None (lmb_map (alist_list lst)))"
  using rgs_shrink [OF _ _ r', of xs ys] wf sep lst by (simp_all add: lmb_list_wf_def rgn_set_list)

lemma lmb_map_in:
  assumes "rgs_ok (xs @ r # ys)" and "rg_lo r \<le> a" and "a < rg_hi r"
  shows "lmb_map (xs @ r # ys) a = Some (rg_flags r)"
proof -
  have "lmb_map xs a = None" using assms by (intro lmb_map_below) (auto simp: rgs_ok_simps)
  then show ?thesis using assms by (simp add: lmb_map_append)
qed

lemma map_range_empty [simp]: "map_range lo lo v m = m"
  by (auto simp: map_range_def fun_eq_iff)

lemma lmb_free_split:
  assumes wf: "lmb_list_wf lst" and sep: "rgs_sep (alist_list lst)" and room: "alist_full lst \<longrightarrow> alist_growable lst"
    and n: "rg_ok n" and lst: "alist_list lst = xs @ r # ys" and r: "rg_within n r"
    and mid: "rg_lo r \<noteq> rg_lo n" "rg_hi r \<noteq> rg_hi n"
  shows "\<exists>ret lst'. lmb_add_region_flags h (rgn_set lst (length xs) (r\<lparr>rg_size := rg_base n - rg_base r\<rparr>))
       (rg_base n + rg_size n) (rg_base r + rg_size r - 1 - (rg_base n + rg_size n - 1)) (rg_flags r) = Some (ret, lst') \<and>
    lmb_list_wf lst' \<and> rgs_sep (alist_list lst') \<and>
    (ret = 0 \<and> lmb_map (alist_list lst') = map_range (rg_lo n) (rg_hi n) None (lmb_map (alist_list lst)) \<or>
     ret = - 1 \<and> (alist_err lst \<or> alist_full lst) \<and>
       lmb_map (alist_list lst') = map_range (rg_lo n) (rg_hi r) None (lmb_map (alist_list lst)))"
proof -
  define r' where "r' = r\<lparr>rg_size := rg_base n - rg_base r\<rparr>"
  define m where "m = mkrg (rg_base n + rg_size n) (rg_base r + rg_size r - 1 - (rg_base n + rg_size n - 1)) (rg_flags r)"
  define l where "l = rgn_set lst (length xs) r'"
  have ok: "rgs_ok (xs @ r # ys)" "rg_ok r" using wf lst by (auto simp: lmb_list_wf_def rgs_ok_simps)
  have r': "rg_lo r' = rg_lo r" "rg_hi r' = rg_lo n" "rg_flags r' = rg_flags r"
    using rg_cut_mid(1) [OF n ok(2) r] by (simp_all add: r'_def rg_lo_def)
  have m: "rg_lo m = rg_hi n" "rg_hi m = rg_hi r" "rg_flags m = rg_flags r"
    using rg_cut_mid(2,3) [OF n ok(2) r] by (simp_all add: m_def)
  have w: "rg_within r' r" "rg_lo r' < rg_hi r'" using r r' n mid(1) by (auto simp: rg_within_def rg_ok_def)
  note sh = lmb_free_shrunk [OF wf sep lst w r'(3)]
  have ll: "alist_list l = xs @ r' # ys" using lst by (simp add: l_def rgn_set_list)
  have flags [simp]: "alist_full l = alist_full lst" "alist_err l = alist_err lst" "alist_growable l = alist_growable lst"
    by (simp_all add: l_def rgn_set_def alist_full_def alist_err_def alist_growable_def alist_slots_def)
  have "lmb_addable l m"
    unfolding lmb_addable_def ll
    using sh(1,2) room m ok n r mid r' ll
    by (auto simp: rg_apart_def rg_ok_def rg_within_def rgs_ok_simps l_def [symmetric] intro: order_trans)
  moreover have "lmb_joinable l m"
    unfolding lmb_joinable_def ll using m ok n r mid r'
    by (fastforce simp: rgs_ok_simps rg_ok_def rg_within_def dest: rgs_ok_in)
  ultimately obtain ret l' where l': "lmb_add_region_flags h l (rg_base m) (rg_size m) (rg_flags m) = Some (ret, l')"
    "lmb_list_wf l'" "rgs_sep (alist_list l')"
    "ret = 0 \<and> lmb_added (alist_list l) m (alist_list l') \<or>
      ret = - 1 \<and> (alist_err lst \<or> alist_full lst) \<and> alist_list l' = alist_list l"
    using lmb_add_region_flags_ok [of l m h] by auto
  have mp: "lmb_map (alist_list l) = map_range (rg_lo n) (rg_hi r) None (lmb_map (alist_list lst))"
    using sh(3) r' by (simp add: l_def)
  have "map_range (rg_hi n) (rg_hi r) (Some (rg_flags r)) (map_range (rg_lo n) (rg_hi r) None (lmb_map (alist_list lst))) =
      map_range (rg_lo n) (rg_hi n) None (lmb_map (alist_list lst))"
    using lmb_map_in [OF ok(1)] lst r n by (auto simp: map_range_def fun_eq_iff rg_within_def rg_ok_def)
  with l' mp m show ?thesis unfolding lmb_added_def l_def r'_def by (auto simp: m_def)
qed

lemma lmb_free_region_miss:
  assumes wf: "lmb_list_wf lst" and n: "rg_ok n" and no: "\<forall>r \<in> set (alist_list lst). \<not> rg_within n r"
  shows "lmb_free_region h lst (rg_base n) (rg_size n) = Some (- 1, lst)"
  by (simp add: lmb_free_region_def Let_def lmb_free_find_miss [OF assms])

lemma lmb_free_region_ok:
  assumes wf: "lmb_list_wf lst" and sep: "rgs_sep (alist_list lst)" and room: "alist_full lst \<longrightarrow> alist_growable lst"
    and n: "rg_ok n" and lst: "alist_list lst = xs @ r # ys" and r: "rg_within n r"
  shows "\<exists>ret lst'. lmb_free_region h lst (rg_base n) (rg_size n) = Some (ret, lst') \<and>
    lmb_list_wf lst' \<and> rgs_sep (alist_list lst') \<and>
    (ret = 0 \<and> lmb_map (alist_list lst') = map_range (rg_lo n) (rg_hi n) None (lmb_map (alist_list lst)) \<or>
     ret = - 1 \<and> (alist_err lst \<or> alist_full lst) \<and>
       lmb_map (alist_list lst') = map_range (rg_lo n) (rg_hi r) None (lmb_map (alist_list lst)))"
proof -
  have ok: "rgs_ok (xs @ r # ys)" "rg_ok r" "alist_wf lst" using wf lst by (auto simp: lmb_list_wf_def rgs_ok_simps)
  note at = lmb_free_region_at [OF wf n lst r, of h]
  consider "rg_lo r = rg_lo n" "rg_hi r = rg_hi n" | "rg_lo r = rg_lo n" "rg_hi r \<noteq> rg_hi n"
    | "rg_lo r \<noteq> rg_lo n" "rg_hi r = rg_hi n" | "rg_lo r \<noteq> rg_lo n" "rg_hi r \<noteq> rg_hi n" by blast
  then show ?thesis
  proof cases
    case 1
    have "length xs < rgn_count lst" using rgn_count_at [OF ok(3) lst] by simp
    from lmb_remove_region_list [OF ok(3) this] lst rgs_delete [OF ok(1)] sep 1 at
    show ?thesis by (simp add: lmb_list_wf_def list_remove_def)
  next
    case 2
    let ?r = "r\<lparr>rg_base := rg_base n + rg_size n, rg_size := rg_size r - rg_size n\<rparr>"
    note e = rg_cut_front [OF n ok(2) r 2(1)]
    have "rg_within ?r r" "rg_lo ?r < rg_hi ?r" "rg_flags ?r = rg_flags r"
      using e 2 r n by (simp_all add: rg_within_def rg_ok_def)
    from lmb_free_shrunk [OF wf sep lst this] e 2 at show ?thesis by simp
  next
    case 3
    let ?r = "r\<lparr>rg_size := rg_size r - rg_size n\<rparr>"
    note e = rg_cut_end [OF n ok(2) r 3(2)]
    have b: "rg_lo ?r = rg_lo r" by (simp add: rg_lo_def)
    have "rg_within ?r r" "rg_lo ?r < rg_hi ?r" "rg_flags ?r = rg_flags r"
      using e b 3 r n by (simp_all add: rg_within_def rg_ok_def)
    from lmb_free_shrunk [OF wf sep lst this] e b 3 at show ?thesis by simp
  next
    case 4
    from lmb_free_split [OF wf sep room n lst r 4, of h] at 4 show ?thesis by simp
  qed
qed

lemma lmb_overlaps_from_spec:
  assumes wf: "lmb_list_wf lst" and n: "rg_ok n"
  shows "alist_list lst = xs @ us \<Longrightarrow>
    (case lmb_overlaps_from lst (length xs) (rg_base n) (rg_size n) of
       None \<Rightarrow> \<forall>x \<in> set us. rg_apart n x
     | Some j \<Rightarrow> \<exists>as r bs. us = as @ r # bs \<and> j = length xs + length as \<and> \<not> rg_apart n r \<and>
         (\<forall>x \<in> set as. rg_apart n x))"
proof (induction us arbitrary: xs)
  case Nil
  have "length xs = rgn_count lst" using wf Nil by (simp add: rgn_count_length lmb_list_wf_def)
  then show ?case by (subst lmb_overlaps_from.simps) simp
next
  case (Cons x us)
  have w: "alist_wf lst" and x: "rg_ok x" using wf Cons.prems by (auto simp: lmb_list_wf_def rgs_ok_simps)
  have c: "length xs < rgn_count lst" using Cons.prems by (simp add: rgn_count_length w)
  have r: "rgn lst (length xs) = x" using rgn_at [OF w] Cons.prems by simp
  have ov: "lmb_addrs_overlap (rg_base n) (rg_size n) (rg_base x) (rg_size x) \<longleftrightarrow> \<not> rg_apart n x"
    using lmb_addrs_overlap_iff [OF n x] by (auto simp: rg_apart_def)
  show ?case
  proof (cases "rg_apart n x")
    case False
    then have "lmb_overlaps_from lst (length xs) (rg_base n) (rg_size n) = Some (length xs)"
      using c r ov by (subst lmb_overlaps_from.simps) simp
    moreover have "\<exists>as q bs. x # us = as @ q # bs \<and> length xs = length xs + length as \<and> \<not> rg_apart n q \<and>
         (\<forall>x \<in> set as. rg_apart n x)"
      using False by (intro exI [of _ "[]"]) auto
    ultimately show ?thesis by simp
  next
    case True
    then have "lmb_overlaps_from lst (length xs) (rg_base n) (rg_size n) =
        lmb_overlaps_from lst (length (xs @ [x])) (rg_base n) (rg_size n)"
      using c r ov by (subst lmb_overlaps_from.simps) simp
    moreover have "\<exists>as q bs. x # us = as @ q # bs \<and> j = length xs + length as \<and> \<not> rg_apart n q \<and>
         (\<forall>x \<in> set as. rg_apart n x)"
      if "\<exists>as q bs. us = as @ q # bs \<and> j = length (xs @ [x]) + length as \<and> \<not> rg_apart n q \<and>
         (\<forall>x \<in> set as. rg_apart n x)" for j
    proof -
      from that obtain as q bs where "us = as @ q # bs" "j = length (xs @ [x]) + length as" "\<not> rg_apart n q"
        "\<forall>x \<in> set as. rg_apart n x" by blast
      then show ?thesis using True by (intro exI [of _ "x # as"] exI [of _ q] exI [of _ bs]) simp
    qed
    ultimately show ?thesis using Cons.IH [of "xs @ [x]"] Cons.prems True by (simp split: option.splits)
  qed
qed

lemma lmb_overlaps_region_spec:
  assumes "lmb_list_wf lst" and "rg_ok n"
  shows "lmb_overlaps_region lst (rg_base n) (rg_size n) = None \<longleftrightarrow> (\<forall>x \<in> set (alist_list lst). rg_apart n x)"
    and "lmb_overlaps_region lst (rg_base n) (rg_size n) = Some j \<Longrightarrow>
      \<exists>as r bs. alist_list lst = as @ r # bs \<and> j = length as \<and> \<not> rg_apart n r \<and> (\<forall>x \<in> set as. rg_apart n x)"
  using lmb_overlaps_from_spec [OF assms, of "[]" "alist_list lst"]
  by (auto simp: lmb_overlaps_region_def split: option.splits)

text \<open>C6: adding a region that overlaps none of a list's regions succeeds unless the list could not grow,
  leaves the list sorted and free of overlaps, and changes what the list says of an address exactly on
  the added range. When no region with other flags ends where the new one begins, touching regions
  with the same flags stay joined.\<close>

theorem lmb_add_region_extends:
  assumes "lmb_addable lst \<lparr>rg_base = base, rg_size = sz, rg_flags = flags\<rparr>"
  shows "\<exists>ret lst'. lmb_add_region_flags h lst base sz flags = Some (ret, lst') \<and> lmb_list_wf lst' \<and>
    (ret = 0 \<and> lmb_map (alist_list lst') =
       map_range (unat base) (unat base + unat sz) (Some flags) (lmb_map (alist_list lst)) \<or>
     ret = - 1 \<and> (alist_err lst \<or> alist_full lst) \<and> alist_list lst' = alist_list lst) \<and>
    (lmb_joinable lst \<lparr>rg_base = base, rg_size = sz, rg_flags = flags\<rparr> \<longrightarrow> rgs_sep (alist_list lst'))"
  using lmb_add_region_flags_ok [OF assms, of h] by (auto simp: lmb_added_def rg_lo_def rg_hi_def)

text \<open>C7: freeing a range that lies in one region of a list removes exactly that range from the list,
  whether it is the whole region, its front, its end or its middle; only when the middle is freed and
  the list cannot take one more region does the call fail, and then the rest of the region is lost.\<close>

theorem lmb_free_region_removes:
  assumes "lmb_list_wf lst" and "rgs_sep (alist_list lst)" and "alist_full lst \<longrightarrow> alist_growable lst"
    and "rg_ok \<lparr>rg_base = base, rg_size = sz, rg_flags = f\<rparr>"
    and "r \<in> set (alist_list lst)" and "rg_within \<lparr>rg_base = base, rg_size = sz, rg_flags = f\<rparr> r"
  shows "\<exists>ret lst'. lmb_free_region h lst base sz = Some (ret, lst') \<and>
    lmb_list_wf lst' \<and> rgs_sep (alist_list lst') \<and>
    (ret = 0 \<and> lmb_map (alist_list lst') =
       map_range (unat base) (unat base + unat sz) None (lmb_map (alist_list lst)) \<or>
     ret = - 1 \<and> (alist_err lst \<or> alist_full lst) \<and>
       lmb_map (alist_list lst') = map_range (unat base) (rg_hi r) None (lmb_map (alist_list lst)))"
proof -
  obtain xs ys where "alist_list lst = xs @ r # ys" using split_list [OF assms(5)] by blast
  from lmb_free_region_ok [OF assms(1-4) this assms(6), of h] show ?thesis by (auto simp: rg_lo_def rg_hi_def)
qed

text \<open>C12: a region that touches the first region of a list, with other flags, is not recorded when that region
  touches the second one with its own flags: the call joins these two and reports success.\<close>

theorem lmb_add_region_lost:
  assumes wf: "lmb_list_wf lst" and lst: "alist_list lst = r # y # ys"
    and n: "rg_ok n" "rg_touch n r" "rg_flags n \<noteq> rg_flags r"
    and y: "rg_hi r = rg_lo y" "rg_flags r = rg_flags y" and e: "\<not> alist_err lst"
  shows "\<exists>lst'. lmb_add_region_flags h lst (rg_base n) (rg_size n) (rg_flags n) = Some (0, lst') \<and>
    lmb_map (alist_list lst') = lmb_map (alist_list lst)"
proof -
  have w: "alist_wf lst" and ok: "rgs_ok ([] @ r # y # ys)" using wf lst by (simp_all add: lmb_list_wf_def)
  have rr: "rg_ok r" "rg_ok y" using ok by (auto simp: rgs_ok_simps)
  have scan: "lmb_add_scan lst 0 (rg_base n) (rg_size n) (rg_flags n) = (None, 0, 0, lst)"
    using lmb_add_scan_touch [OF w, of "[]" r "y # ys" n] lst n rr by simp
  obtain l where l: "lmb_add_join lst 0 0 = (1, l)" "alist_list l = r\<lparr>rg_size := rg_size r + rg_size y\<rparr> # ys"
    using lmb_add_join_two [OF w, of "[]" r y ys 0] lst rr y by auto
  have "lmb_map ([] @ r\<lparr>rg_size := rg_size r + rg_size y\<rparr> # ys) = lmb_map ([] @ r # y # ys)"
    using unat_rg_grow [of y r] rr y by (intro rgs_join [OF ok y]) (simp_all add: rg_lo_def)
  with scan l lst e show ?thesis by (simp add: lmb_add_region_flags_def)
qed

text \<open>C13: a range that begins where the first region of a list ends, with its flags, and reaches beyond the whole
  of the second region is added by growing the first region over the second, which stays in the list: the
  call reports success and the list has overlapping regions.\<close>

theorem lmb_add_region_overlaps:
  assumes wf: "lmb_list_wf lst" and lst: "alist_list lst = r # y # ys"
    and n: "rg_ok n" "rg_lo n = rg_hi r" "rg_flags n = rg_flags r"
    and y: "rg_hi r < rg_lo y" "rg_hi y < rg_hi n" "rg_flags r = rg_flags y" and e: "\<not> alist_err lst"
  shows "\<exists>lst'. lmb_add_region_flags h lst (rg_base n) (rg_size n) (rg_flags n) = Some (0, lst') \<and>
    \<not> rgs_ok (alist_list lst')"
proof -
  define r' where "r' = r\<lparr>rg_size := rg_size r + rg_size n\<rparr>"
  define l where "l = rgn_set lst 0 r'"
  have w: "alist_wf lst" and rr: "rg_ok r" "rg_ok y" using wf lst by (auto simp: lmb_list_wf_def rgs_ok_simps)
  have r': "rg_hi r' = rg_hi n" "rg_lo r' = rg_lo r" "rg_flags r' = rg_flags r"
    using unat_rg_grow [OF n(1) rr(1) n(2)] by (simp_all add: r'_def rg_lo_def)
  have ok': "rg_ok r'" using r' n rr by (simp add: rg_ok_def)
  have l: "alist_wf l" "alist_list l = [] @ r' # y # ys" using w lst by (simp_all add: l_def rgn_set_list)
  have "rg_lo r \<noteq> rg_hi n" using rr n by (simp add: rg_ok_def)
  then have scan: "lmb_add_scan lst 0 (rg_base n) (rg_size n) (rg_flags n) = (None, 0, 1, l)"
    using lmb_add_scan_touch [OF w, of "[]" r "y # ys" n] lst n rr by (simp add: rg_touch_def l_def r'_def)
  have g: "rgn l 0 = r'" "rgn l (Suc 0) = y" "rgn_count l = Suc (Suc (length ys))"
    using rgn_at [OF l] rgn_at_Suc [OF l] rgn_count_at [OF l] by simp_all
  have "lmb_addrs_adjacent (rg_base r') (rg_size r') (rg_base y) (rg_size y) = 0"
    "lmb_addrs_overlap (rg_base r') (rg_size r') (rg_base y) (rg_size y)"
    using lmb_addrs_adjacent_iff [OF ok' rr(2)] lmb_addrs_overlap_iff [OF ok' rr(2)] r' y rr n by (auto simp: rg_ok_def)
  moreover have "rg_base r' + rg_size r' > rg_base y + rg_size y"
    using unat_base_size [OF ok'] unat_base_size [OF rr(2)] r' y by (simp add: word_less_nat_alt)
  ultimately have "lmb_add_join l 0 1 = (2, l)"
    using g r' y by (simp add: lmb_add_join_def lmb_regions_adjacent_def lmb_regions_overlap_def
        lmb_fix_over_lap_regions_def Let_def)
  moreover have "\<not> rgs_ok (alist_list l)" using l r' y rr by (auto simp: rgs_ok_simps rg_ok_def)
  ultimately show ?thesis using scan e by (simp add: lmb_add_region_flags_def)
qed

lemmas lmb_ex_simps = lmb_list_ex_def alist_list_def alist_wf_def lmb_list_wf_def alist_err_def alist_full_def
  alist_growable_def alist_slots_def rgs_ok_simps rg_ok_def rg_lo_def rg_hi_def rgs_sep_def rg_apart_def
  rg_touch_def rg_within_def lmb_addable_def ALISTF_FAIL_def

theorem lmb_add_region_extends_witness:
  "\<exists>lst'. lmb_add_region_flags heap_ok (lmb_list_ex [mkrg 4096 4096 0, mkrg 16384 4096 2]) 8192 8192 0 = Some (0, lst') \<and>
     lmb_map (alist_list lst') 16383 = Some 0 \<and> lmb_map (alist_list lst') 16384 = Some 2"
proof -
  let ?l = "lmb_list_ex [mkrg 4096 4096 0, mkrg 16384 4096 2]"
  have "lmb_addable ?l (mkrg 8192 8192 0)" by (simp add: lmb_ex_simps)
  moreover have "\<not> alist_full ?l" "\<not> alist_err ?l" by (simp_all add: lmb_ex_simps)
  moreover have "alist_list ?l = [mkrg 4096 4096 0, mkrg 16384 4096 2]" by (simp add: lmb_ex_simps)
  ultimately show ?thesis using lmb_add_region_extends [of ?l 8192 8192 0 heap_ok]
    by (auto simp: map_range_def rg_lo_def rg_hi_def)
qed

theorem lmb_free_region_removes_witness:
  "\<exists>lst'. lmb_free_region heap_ok (lmb_list_ex [mkrg 4096 12288 0]) 8192 4096 = Some (0, lst') \<and>
     lmb_map (alist_list lst') 8191 = Some 0 \<and> lmb_map (alist_list lst') 8192 = None \<and>
     lmb_map (alist_list lst') 12288 = Some 0"
proof -
  let ?l = "lmb_list_ex [mkrg 4096 12288 0]"
  have "lmb_list_wf ?l" "rgs_sep (alist_list ?l)" "alist_full ?l \<longrightarrow> alist_growable ?l" "rg_ok (mkrg 8192 4096 0)"
    "mkrg 4096 12288 0 \<in> set (alist_list ?l)" "rg_within (mkrg 8192 4096 0) (mkrg 4096 12288 0)"
    by (simp_all add: lmb_ex_simps)
  moreover have "\<not> alist_full ?l" "\<not> alist_err ?l" by (simp_all add: lmb_ex_simps)
  moreover have "alist_list ?l = [mkrg 4096 12288 0]" by (simp add: lmb_ex_simps)
  ultimately show ?thesis using lmb_free_region_removes [of ?l 8192 4096 0 "mkrg 4096 12288 0" heap_ok]
    by (auto simp: map_range_def rg_lo_def rg_hi_def)
qed

theorem lmb_add_region_lost_witness:
  "\<exists>lst'. lmb_add_region_flags heap_ok (lmb_list_ex [mkrg 4096 4096 0, mkrg 8192 4096 0]) 2048 2048 1 = Some (0, lst') \<and>
     lmb_map (alist_list lst') 2048 = None"
proof -
  let ?l = "lmb_list_ex [mkrg 4096 4096 0, mkrg 8192 4096 0]"
  have "lmb_list_wf ?l" "rg_ok (mkrg 2048 2048 1)" "rg_touch (mkrg 2048 2048 1) (mkrg 4096 4096 0)" "\<not> alist_err ?l"
    "rg_hi (mkrg 4096 4096 0) = rg_lo (mkrg 8192 4096 0)"
    by (simp_all add: lmb_ex_simps)
  moreover have "alist_list ?l = [mkrg 4096 4096 0, mkrg 8192 4096 0]" by (simp add: lmb_ex_simps)
  ultimately show ?thesis
    using lmb_add_region_lost [of ?l "mkrg 4096 4096 0" "mkrg 8192 4096 0" "[]" "mkrg 2048 2048 1" heap_ok]
    by (auto simp: rg_lo_def rg_hi_def)
qed

theorem lmb_add_region_overlaps_witness:
  "\<exists>lst'. lmb_add_region_flags heap_ok (lmb_list_ex [mkrg 4096 4096 0, mkrg 12288 4096 0]) 8192 12288 0 = Some (0, lst') \<and>
     \<not> rgs_ok (alist_list lst')"
proof -
  let ?l = "lmb_list_ex [mkrg 4096 4096 0, mkrg 12288 4096 0]"
  have "lmb_list_wf ?l" "rg_ok (mkrg 8192 12288 0)" "\<not> alist_err ?l"
    by (simp_all add: lmb_ex_simps)
  moreover have "alist_list ?l = [mkrg 4096 4096 0, mkrg 12288 4096 0]" by (simp add: lmb_ex_simps)
  ultimately show ?thesis
    using lmb_add_region_overlaps [of ?l "mkrg 4096 4096 0" "mkrg 12288 4096 0" "[]" "mkrg 8192 12288 0" heap_ok]
    by (simp add: rg_lo_def rg_hi_def)
qed

subsubsection \<open>Aligned addresses\<close>

lemma lmb_overlaps_from_hit:
  "lmb_overlaps_from lst i base sz = Some j \<Longrightarrow>
    lmb_addrs_overlap base sz (rg_base (rgn lst j)) (rg_size (rgn lst j))"
  by (induction lst i base sz rule: lmb_overlaps_from.induct)
    (subst (asm) (2) lmb_overlaps_from.simps, auto split: if_splits)

text \<open>The next address tried is below the one that overlapped, also when the 64-bit sums wrap.\<close>

lemma lmb_probe_less:
  assumes "lmb_overlaps_region used base sz = Some i" and "\<not> rg_base (rgn used i) < sz" and "base \<noteq> 0"
  shows "unat (align_down (rg_base (rgn used i) - sz) align) < unat base"
proof -
  let ?r = "rg_base (rgn used i)"
  have le: "?r \<le> base + sz - 1"
    using lmb_overlaps_from_hit assms(1) by (auto simp: lmb_overlaps_region_def lmb_addrs_overlap_def Let_def)
  have s: "unat (?r - sz) = unat ?r - unat sz" "unat sz \<le> unat ?r"
    using assms(2) by (simp_all add: unat_sub not_less word_le_nat_alt)
  have b: "0 < unat base" using assms(3) by (simp add: unat_gt_0)
  have e: "base + sz - 1 = (base - 1) + sz" by simp
  have "unat (base - 1) = unat base - 1" using b assms(3) by (simp add: unat_minus_one)
  then have "unat (base + sz - 1) \<le> unat base - 1 + unat sz"
    unfolding e by (simp add: unat_plus_if')
  then have "unat (?r - sz) < unat base" using le s b by (simp add: word_le_nat_alt)
  then show ?thesis using align_down_le [of "?r - sz" align] by (simp add: word_le_nat_alt)
qed

end
