(* ===== verification/Lmb_Alloc.thy ===== *)
theory Lmb_Alloc
  imports Lmb
begin

text \<open>
  The allocator and the interface of lib/lmb.c on top of the region lists of theory \<open>Lmb\<close>. The static
  \<open>lmb\<close> is passed and returned. \<open>ntf\<close> is \<open>efi_map_update_notify\<close> of the EFI loader, which keeps its
  own map; only its return value is used here. The fields of \<open>gd\<close> and the configuration that the
  start-up code reads are the record \<open>lmb_gd\<close>. The lemmas show that the search of \<open>_lmb_alloc_base\<close>
  ends, that it finds the highest aligned free address of a memory region whenever there is one, and
  that an allocation lies in available memory, apart from everything reserved before, and is recorded.
\<close>

subsection \<open>IOVA maps\<close>

definition lmb_setup_lists :: "c_heap \<Rightarrow> lmb \<Rightarrow> int \<times> lmb" where
  "lmb_setup_lists h l =
     (case alist_init h lmb_region_zero sizeof_lmb_region LMB_ALIST_INITIAL_SIZE of (ok1, a) \<Rightarrow>
        if \<not> ok1 then (- ENOMEM, l\<lparr>available_mem := a\<rparr>)
        else case alist_init h lmb_region_zero sizeof_lmb_region LMB_ALIST_INITIAL_SIZE of (ok2, u) \<Rightarrow>
          if \<not> ok2 then (- ENOMEM, l\<lparr>available_mem := a, used_mem := u\<rparr>)
          else (0, l\<lparr>available_mem := a, used_mem := u\<rparr>))"

definition io_lmb_setup :: "c_heap \<Rightarrow> lmb \<Rightarrow> int \<times> lmb" where
  "io_lmb_setup h l =
     (case lmb_setup_lists h l of (ret, l') \<Rightarrow> if ret \<noteq> 0 then (ret, l') else (0, l'\<lparr>lmb_test := False\<rparr>))"

definition io_lmb_teardown :: "lmb \<Rightarrow> lmb" where
  "io_lmb_teardown l = l\<lparr>available_mem := alist_uninit (available_mem l), used_mem := alist_uninit (used_mem l)\<rparr>"

definition io_lmb_add :: "c_heap \<Rightarrow> lmb \<Rightarrow> u64 \<Rightarrow> u64 \<Rightarrow> (int \<times> lmb) option" where
  "io_lmb_add h l base sz =
     map_option (\<lambda>(ret, a). (ret, l\<lparr>available_mem := a\<rparr>))
       (lmb_add_region_flags h (available_mem l) base sz LMB_NONE)"

text \<open>
  The inner loop of \<open>io_lmb_alloc\<close> and of \<open>_lmb_alloc_base\<close>: the address at which a free range is
  found, \<^term>\<open>None\<close> when the loop ends without one.
\<close>

function lmb_probe :: "lmb_region alist \<Rightarrow> u64 \<Rightarrow> u64 \<Rightarrow> u64 \<Rightarrow> u64 \<Rightarrow> u64 option" where
  "lmb_probe used lmbbase base sz align =
     (if base \<noteq> 0 \<and> lmbbase \<le> base then
        (case lmb_overlaps_region used base sz of
           None \<Rightarrow> Some base
         | Some i \<Rightarrow>
             if rg_base (rgn used i) < sz then None
             else lmb_probe used lmbbase (align_down (rg_base (rgn used i) - sz) align) sz align)
      else None)"
  by pat_completeness auto
termination
  by (relation "measure (\<lambda>(used, lmbbase, base, sz, align). unat base)") (auto simp: lmb_probe_less)

declare lmb_probe.simps [simp del]

text \<open>The outer loop of \<open>io_lmb_alloc\<close>, from the last region down.\<close>

fun io_lmb_scan :: "lmb \<Rightarrow> nat \<Rightarrow> u64 \<Rightarrow> u64 \<Rightarrow> u64 option" where
  "io_lmb_scan l 0 sz align = None"
| "io_lmb_scan l (Suc i) sz align =
     (let lmbbase = rg_base (rgn (available_mem l) i); lmbsize = rg_size (rgn (available_mem l) i) in
      if lmbsize < sz then io_lmb_scan l i sz align
      else (case lmb_probe (used_mem l) lmbbase (align_down (lmbbase + lmbsize - sz) align) sz align of
              None \<Rightarrow> io_lmb_scan l i sz align
            | Some base \<Rightarrow> Some base))"

definition io_lmb_alloc :: "c_heap \<Rightarrow> lmb \<Rightarrow> u64 \<Rightarrow> u64 \<Rightarrow> (u64 \<times> lmb) option" where
  "io_lmb_alloc h l sz align =
     (case io_lmb_scan l (rgn_count (available_mem l)) sz align of
        None \<Rightarrow> Some (0, l)
      | Some base \<Rightarrow>
          (case lmb_add_region_flags h (used_mem l) base sz LMB_NONE of
             None \<Rightarrow> None
           | Some (ret, u) \<Rightarrow> Some (if ret < 0 then 0 else base, l\<lparr>used_mem := u\<rparr>)))"

definition io_lmb_free :: "c_heap \<Rightarrow> lmb \<Rightarrow> u64 \<Rightarrow> u64 \<Rightarrow> (int \<times> lmb) option" where
  "io_lmb_free h l base sz =
     map_option (\<lambda>(ret, u). (ret, l\<lparr>used_mem := u\<rparr>)) (lmb_free_region h (used_mem l) base sz)"

subsection \<open>The global map\<close>

definition lmb_map_update_notify :: "map_notify \<Rightarrow> lmb \<Rightarrow> u64 \<Rightarrow> u64 \<Rightarrow> lmb_map_op \<Rightarrow> u32 \<Rightarrow> int" where
  "lmb_map_update_notify ntf l addr sz op flags =
     (if \<not> lmb_test l \<and> flags AND LMB_NONOTIFY = 0 then ntf addr sz op flags else 0)"

definition lmb_add :: "c_heap \<Rightarrow> map_notify \<Rightarrow> lmb \<Rightarrow> u64 \<Rightarrow> u64 \<Rightarrow> (int \<times> lmb) option" where
  "lmb_add h ntf l base sz =
     (case lmb_add_region_flags h (available_mem l) base sz LMB_NONE of
        None \<Rightarrow> None
      | Some (ret, a) \<Rightarrow>
          (let l' = l\<lparr>available_mem := a\<rparr> in
           Some (if ret \<noteq> 0 then ret else lmb_map_update_notify ntf l' base sz LMB_MAP_OP_ADD LMB_NONE, l')))"

definition lmb_free_flags :: "c_heap \<Rightarrow> map_notify \<Rightarrow> lmb \<Rightarrow> u64 \<Rightarrow> u64 \<Rightarrow> u32 \<Rightarrow> (int \<times> lmb) option" where
  "lmb_free_flags h ntf l base sz flags =
     (case lmb_free_region h (used_mem l) base sz of
        None \<Rightarrow> None
      | Some (ret, u) \<Rightarrow>
          (let l' = l\<lparr>used_mem := u\<rparr> in
           Some (if ret < 0 then ret else lmb_map_update_notify ntf l' base sz LMB_MAP_OP_FREE flags, l')))"

definition lmb_free :: "c_heap \<Rightarrow> map_notify \<Rightarrow> lmb \<Rightarrow> u64 \<Rightarrow> u64 \<Rightarrow> (int \<times> lmb) option" where
  "lmb_free h ntf l base sz = lmb_free_flags h ntf l base sz LMB_NONE"

definition lmb_reserve :: "c_heap \<Rightarrow> map_notify \<Rightarrow> lmb \<Rightarrow> u64 \<Rightarrow> u64 \<Rightarrow> u32 \<Rightarrow> (int \<times> lmb) option" where
  "lmb_reserve h ntf l base sz flags =
     (case lmb_add_region_flags h (used_mem l) base sz flags of
        None \<Rightarrow> None
      | Some (ret, u) \<Rightarrow>
          (let l' = l\<lparr>used_mem := u\<rparr> in
           Some (if ret \<noteq> 0 then ret else lmb_map_update_notify ntf l' base sz LMB_MAP_OP_RESERVE flags, l')))"

text \<open>
  The first address \<open>_lmb_alloc_base\<close> tries in a region: \<^term>\<open>None\<close> where the source continues with
  the next region.
\<close>

definition lmb_alloc_start :: "lmb_region \<Rightarrow> u64 \<Rightarrow> u64 \<Rightarrow> u64 \<Rightarrow> u64 option" where
  "lmb_alloc_start r sz align max_addr =
     (if rg_size r < sz then None
      else if max_addr = LMB_ALLOC_ANYWHERE then Some (align_down (rg_base r + rg_size r - sz) align)
      else if rg_base r < max_addr then
        (let base = rg_base r + rg_size r;
             base1 = (if base < rg_base r then - 1 else base)
         in Some (align_down (min base1 max_addr - sz) align))
      else None)"

fun lmb_alloc_scan :: "lmb \<Rightarrow> nat \<Rightarrow> u64 \<Rightarrow> u64 \<Rightarrow> u64 \<Rightarrow> u64 option" where
  "lmb_alloc_scan l 0 sz align max_addr = None"
| "lmb_alloc_scan l (Suc i) sz align max_addr =
     (case lmb_alloc_start (rgn (available_mem l) i) sz align max_addr of
        None \<Rightarrow> lmb_alloc_scan l i sz align max_addr
      | Some start \<Rightarrow>
          (case lmb_probe (used_mem l) (rg_base (rgn (available_mem l) i)) start sz align of
             None \<Rightarrow> lmb_alloc_scan l i sz align max_addr
           | Some base \<Rightarrow> Some base))"

text \<open>\<open>_lmb_alloc_base\<close>; a non-zero result of the notification is returned as the address.\<close>

definition lmb_alloc_base_raw ::
    "c_heap \<Rightarrow> map_notify \<Rightarrow> lmb \<Rightarrow> u64 \<Rightarrow> u64 \<Rightarrow> u64 \<Rightarrow> u32 \<Rightarrow> (u64 \<times> lmb) option" where
  "lmb_alloc_base_raw h ntf l sz align max_addr flags =
     (case lmb_alloc_scan l (rgn_count (available_mem l)) sz align max_addr of
        None \<Rightarrow> Some (0, l)
      | Some base \<Rightarrow>
          (case lmb_add_region_flags h (used_mem l) base sz flags of
             None \<Rightarrow> None
           | Some (ret, u) \<Rightarrow>
               (let l' = l\<lparr>used_mem := u\<rparr> in
                if ret \<noteq> 0 then Some (0, l')
                else
                  (let ret' = lmb_map_update_notify ntf l' base sz LMB_MAP_OP_RESERVE flags
                   in Some (if ret' \<noteq> 0 then word_of_int ret' else base, l')))))"

definition lmb_alloc_base ::
    "c_heap \<Rightarrow> map_notify \<Rightarrow> lmb \<Rightarrow> u64 \<Rightarrow> u64 \<Rightarrow> u64 \<Rightarrow> u32 \<Rightarrow> (u64 \<times> lmb) option" where
  "lmb_alloc_base h ntf l sz align max_addr flags = lmb_alloc_base_raw h ntf l sz align max_addr flags"

definition lmb_alloc :: "c_heap \<Rightarrow> map_notify \<Rightarrow> lmb \<Rightarrow> u64 \<Rightarrow> u64 \<Rightarrow> (u64 \<times> lmb) option" where
  "lmb_alloc h ntf l sz align = lmb_alloc_base h ntf l sz align LMB_ALLOC_ANYWHERE LMB_NONE"

definition lmb_alloc_addr :: "c_heap \<Rightarrow> map_notify \<Rightarrow> lmb \<Rightarrow> u64 \<Rightarrow> u64 \<Rightarrow> u32 \<Rightarrow> (int \<times> lmb) option" where
  "lmb_alloc_addr h ntf l base sz flags =
     (case lmb_overlaps_region (available_mem l) base sz of
        None \<Rightarrow> Some (- 1, l)
      | Some i \<Rightarrow>
          (let r = rgn (available_mem l) i in
           if lmb_addrs_overlap (rg_base r) (rg_size r) (base + sz - 1) 1
           then map_option (\<lambda>(ret, l'). (if ret = 0 then 0 else - 1, l')) (lmb_reserve h ntf l base sz flags)
           else Some (- 1, l)))"

text \<open>The loop of \<open>lmb_get_free_size\<close>: \<^term>\<open>None\<close> when it ends without a result.\<close>

function lmb_free_size_from :: "lmb_region alist \<Rightarrow> nat \<Rightarrow> u64 \<Rightarrow> u64 option" where
  "lmb_free_size_from used i addr =
     (if i < rgn_count used then
        (let r = rgn used i in
         if addr < rg_base r then Some (rg_base r - addr)
         else if rg_base r + rg_size r > addr then Some 0
         else lmb_free_size_from used (i + 1) addr)
      else None)"
  by pat_completeness auto
termination
  by (relation "measure (\<lambda>(used, i, addr). rgn_count used - i)") auto

declare lmb_free_size_from.simps [simp del]

definition lmb_get_free_size :: "lmb \<Rightarrow> u64 \<Rightarrow> u64" where
  "lmb_get_free_size l addr =
     (case lmb_overlaps_region (available_mem l) addr 1 of
        None \<Rightarrow> 0
      | Some i \<Rightarrow>
          (case lmb_free_size_from (used_mem l) 0 addr of
             Some n \<Rightarrow> n
           | None \<Rightarrow>
               (let r = rgn (available_mem l) (rgn_count (available_mem l) - 1)
                in rg_base r + rg_size r - addr)))"

function lmb_reserved_from :: "lmb_region alist \<Rightarrow> nat \<Rightarrow> u64 \<Rightarrow> u32 \<Rightarrow> bool" where
  "lmb_reserved_from used i addr flags =
     (if i < rgn_count used then
        (let r = rgn used i; upper = rg_base r + rg_size r - 1 in
         if rg_base r \<le> addr \<and> addr \<le> upper then (rg_flags r AND flags) = flags
         else lmb_reserved_from used (i + 1) addr flags)
      else False)"
  by pat_completeness auto
termination
  by (relation "measure (\<lambda>(used, i, addr, flags). rgn_count used - i)") auto

declare lmb_reserved_from.simps [simp del]

definition lmb_is_reserved_flags :: "lmb \<Rightarrow> u64 \<Rightarrow> u32 \<Rightarrow> bool" where
  "lmb_is_reserved_flags l addr flags = lmb_reserved_from (used_mem l) 0 addr flags"

subsection \<open>Start-up\<close>

text \<open>
  What the start-up code reads: \<open>start_addr_sp\<close>, \<open>ram_top\<close>, \<open>mon_len\<close> and the flag
  \<open>GD_FLG_SKIP_RELOC\<close> of \<open>gd\<close>, the DRAM banks of \<open>gd->bd\<close>, the linker symbols \<open>_start\<close>,
  \<open>__bss_start\<close> and \<open>__bss_end\<close>, and the configuration. The phase is that of \<open>xpl_phase\<close>. The regions
  that \<open>boot_fdt_add_mem_rsv_regions\<close> finds in the device tree are a list of address, size and flags,
  empty when there is no tree.
\<close>

datatype xpl_phase = PHASE_SPL | PHASE_BOARD_R | PHASE_OTHER

record dram_bank =
  bk_start :: u64
  bk_size :: u64

record lmb_gd =
  start_addr_sp :: u64
  ram_top :: u64
  mon_start :: u64
  mon_len :: u64
  skip_reloc :: bool
  bi_dram :: "dram_bank list"
  bss_start :: u64
  bss_end :: u64
  stack_size :: u64
  spl_stack_r :: bool
  spl_separate_bss :: bool
  phase :: xpl_phase
  fdt_rsv :: "(u64 \<times> u64 \<times> u32) list"

text \<open>A call whose result is ignored.\<close>

definition lmb_then :: "(int \<times> lmb) option \<Rightarrow> (lmb \<Rightarrow> lmb option) \<Rightarrow> lmb option" where
  "lmb_then c k = (case c of None \<Rightarrow> None | Some (ret, l) \<Rightarrow> k l)"

fun lmb_reserve_bank :: "c_heap \<Rightarrow> map_notify \<Rightarrow> lmb_gd \<Rightarrow> u64 \<Rightarrow> u64 \<Rightarrow> dram_bank list \<Rightarrow> lmb \<Rightarrow> lmb option" where
  "lmb_reserve_bank h ntf gd rsv_start en [] l = Some l"
| "lmb_reserve_bank h ntf gd rsv_start en (b # bs) l =
     (let bank_end = bk_start b + bk_size b - 1;
          bank_end1 = (if bank_end > en then en - 1 else bank_end)
      in if bk_size b = 0 \<or> rsv_start < bk_start b \<or> rsv_start > bank_end
         then lmb_reserve_bank h ntf gd rsv_start en bs l
         else lmb_then (lmb_reserve h ntf l rsv_start (bank_end1 - rsv_start + 1) LMB_NOOVERWRITE)
           (\<lambda>l1. if skip_reloc gd
                 then lmb_then (lmb_reserve h ntf l1 (mon_start gd) (mon_len gd) LMB_NOOVERWRITE) Some
                 else Some l1))"

definition lmb_reserve_uboot_region :: "c_heap \<Rightarrow> map_notify \<Rightarrow> lmb_gd \<Rightarrow> lmb \<Rightarrow> lmb option" where
  "lmb_reserve_uboot_region h ntf gd l =
     lmb_reserve_bank h ntf gd (start_addr_sp gd - stack_size gd) (ram_top gd) (bi_dram gd) l"

fun boot_fdt_reserve :: "c_heap \<Rightarrow> map_notify \<Rightarrow> (u64 \<times> u64 \<times> u32) list \<Rightarrow> lmb \<Rightarrow> lmb option" where
  "boot_fdt_reserve h ntf [] l = Some l"
| "boot_fdt_reserve h ntf ((addr, sz, flags) # rs) l =
     lmb_then (lmb_reserve h ntf l addr sz flags) (boot_fdt_reserve h ntf rs)"

definition lmb_reserve_common :: "c_heap \<Rightarrow> map_notify \<Rightarrow> lmb_gd \<Rightarrow> lmb \<Rightarrow> lmb option" where
  "lmb_reserve_common h ntf gd l =
     (case lmb_reserve_uboot_region h ntf gd l of
        None \<Rightarrow> None
      | Some l1 \<Rightarrow> boot_fdt_reserve h ntf (fdt_rsv gd) l1)"

definition lmb_reserve_common_spl :: "c_heap \<Rightarrow> map_notify \<Rightarrow> lmb_gd \<Rightarrow> lmb \<Rightarrow> lmb option" where
  "lmb_reserve_common_spl h ntf gd l =
     (let bss = (\<lambda>l1. if spl_separate_bss gd
                      then lmb_then (lmb_reserve h ntf l1 (bss_start gd) (bss_end gd - bss_start gd) LMB_NOOVERWRITE) Some
                      else Some l1)
      in if spl_stack_r gd
         then lmb_then (lmb_reserve h ntf l (start_addr_sp gd - 16384) 16384 LMB_NOOVERWRITE) bss
         else bss l)"

fun lmb_add_banks :: "c_heap \<Rightarrow> map_notify \<Rightarrow> u64 \<Rightarrow> dram_bank list \<Rightarrow> lmb \<Rightarrow> lmb option" where
  "lmb_add_banks h ntf rtop [] l = Some l"
| "lmb_add_banks h ntf rtop (b # bs) l =
     (let bank_end = bk_start b + bk_size b in
      if bk_size b = 0 then lmb_add_banks h ntf rtop bs l
      else lmb_then (lmb_add h ntf l (bk_start b) (bk_size b))
        (\<lambda>l1. if bk_start b \<ge> rtop
              then lmb_then (lmb_reserve h ntf l1 (bk_start b) (bk_size b) LMB_NOOVERWRITE) (lmb_add_banks h ntf rtop bs)
              else if bank_end > rtop
              then lmb_then (lmb_reserve h ntf l1 rtop (bank_end - rtop) LMB_NOOVERWRITE) (lmb_add_banks h ntf rtop bs)
              else lmb_add_banks h ntf rtop bs l1))"

definition lmb_add_memory :: "c_heap \<Rightarrow> map_notify \<Rightarrow> lmb_gd \<Rightarrow> lmb \<Rightarrow> lmb option" where
  "lmb_add_memory h ntf gd l =
     lmb_add_banks h ntf (if ram_top gd = 0 then 0x100000000 else ram_top gd) (bi_dram gd) l"

definition lmb_setup :: "c_heap \<Rightarrow> lmb \<Rightarrow> bool \<Rightarrow> int \<times> lmb" where
  "lmb_setup h l test =
     (case lmb_setup_lists h l of (ret, l') \<Rightarrow> if ret \<noteq> 0 then (ret, l') else (0, l'\<lparr>lmb_test := test\<rparr>))"

definition lmb_init :: "c_heap \<Rightarrow> map_notify \<Rightarrow> lmb_gd \<Rightarrow> lmb \<Rightarrow> (int \<times> lmb) option" where
  "lmb_init h ntf gd l =
     (case lmb_setup h l False of (ret, l1) \<Rightarrow>
        if ret \<noteq> 0 then Some (ret, l1)
        else
          (case lmb_add_memory h ntf gd l1 of
             None \<Rightarrow> None
           | Some l2 \<Rightarrow>
               map_option (\<lambda>l3. (0, l3))
                 (case phase gd of
                    PHASE_SPL \<Rightarrow> lmb_reserve_common_spl h ntf gd l2
                  | PHASE_BOARD_R \<Rightarrow> lmb_reserve_common h ntf gd l2
                  | PHASE_OTHER \<Rightarrow> Some l2)))"

text \<open>The saved map and the fresh one that the unit tests work on.\<close>

definition lmb_push :: "c_heap \<Rightarrow> lmb \<Rightarrow> int \<times> lmb \<times> lmb" where
  "lmb_push h l = (case lmb_setup h l True of (ret, l') \<Rightarrow> (ret, l, l'))"

definition lmb_pop :: "lmb \<Rightarrow> lmb \<Rightarrow> lmb" where
  "lmb_pop l store =
     (let l1 = l\<lparr>available_mem := alist_uninit (available_mem l), used_mem := alist_uninit (used_mem l)\<rparr>
      in l1\<lparr>available_mem := available_mem store, used_mem := used_mem store, lmb_test := lmb_test store\<rparr>)"

text \<open>The addresses at which a range fits: aligned, inside one memory region, below the limit, apart from the used regions.\<close>

definition lmb_slot :: "lmb_region list \<Rightarrow> nat \<Rightarrow> nat \<Rightarrow> nat \<Rightarrow> bool" where
  "lmb_slot used sz al b \<longleftrightarrow> al dvd b \<and> (\<forall>x \<in> set used. b + sz \<le> rg_lo x \<or> rg_hi x \<le> b)"

definition lmb_fits :: "lmb_region \<Rightarrow> nat \<Rightarrow> nat \<Rightarrow> nat \<Rightarrow> bool" where
  "lmb_fits r sz max_addr b \<longleftrightarrow> rg_lo r \<le> b \<and> b + sz \<le> rg_hi r \<and> (max_addr \<noteq> 0 \<longrightarrow> b + sz \<le> max_addr)"

definition lmb_candidate :: "lmb \<Rightarrow> u64 \<Rightarrow> u64 \<Rightarrow> u64 \<Rightarrow> nat \<Rightarrow> bool" where
  "lmb_candidate l sz align max_addr b \<longleftrightarrow>
     0 < b \<and> lmb_slot (alist_list (used_mem l)) (unat sz) (unat align) b \<and>
     (\<exists>r \<in> set (alist_list (available_mem l)). lmb_fits r (unat sz) (unat max_addr) b)"

definition lmb_candidate_in :: "lmb_region list \<Rightarrow> lmb \<Rightarrow> u64 \<Rightarrow> u64 \<Rightarrow> u64 \<Rightarrow> nat \<Rightarrow> bool" where
  "lmb_candidate_in rs l sz align max_addr b \<longleftrightarrow>
     0 < b \<and> lmb_slot (alist_list (used_mem l)) (unat sz) (unat align) b \<and>
     (\<exists>r \<in> set rs. lmb_fits r (unat sz) (unat max_addr) b)"

text \<open>A map whose lists are sorted and joined, with room for one more used region.\<close>

definition lmb_ready :: "lmb \<Rightarrow> bool" where
  "lmb_ready l \<longleftrightarrow> lmb_list_wf (available_mem l) \<and> lmb_list_wf (used_mem l) \<and> rgs_sep (alist_list (used_mem l)) \<and>
     (alist_full (used_mem l) \<longrightarrow> alist_growable (used_mem l))"

definition lmb_ex :: lmb where
  "lmb_ex = \<lparr>available_mem = lmb_list_ex [mkrg 0x80000000 0x10000000 0, mkrg 0xa0000000 0x10000000 0],
     used_mem = lmb_list_ex [mkrg 0xaff00000 0x100000 2], lmb_test = False\<rparr>"


subsection \<open>Lemmas\<close>

lemma lmb_slot_apart:
  "lmb_slot rs (unat sz) al (unat base) \<longleftrightarrow> al dvd unat base \<and> (\<forall>x \<in> set rs. rg_apart (mkrg base sz f) x)"
  by (simp add: lmb_slot_def rg_apart_def rg_lo_def rg_hi_def)

text \<open>The search below an address finds the highest free aligned address there is.\<close>

lemma lmb_probe_spec:
  assumes wf: "lmb_list_wf used" and sz: "0 < sz" and al: "align = 2 ^ k" "k < 64"
  shows "unat base + unat sz < 2 ^ 64 \<Longrightarrow> 2 ^ k dvd unat base \<Longrightarrow>
    (case lmb_probe used lmbbase base sz align of
       None \<Rightarrow> \<forall>b. 0 < b \<and> unat lmbbase \<le> b \<and> b \<le> unat base \<longrightarrow> \<not> lmb_slot (alist_list used) (unat sz) (2 ^ k) b
     | Some a \<Rightarrow> a \<noteq> 0 \<and> lmbbase \<le> a \<and> a \<le> base \<and> lmb_slot (alist_list used) (unat sz) (2 ^ k) (unat a) \<and>
         (\<forall>b. unat a < b \<and> b \<le> unat base \<longrightarrow> \<not> lmb_slot (alist_list used) (unat sz) (2 ^ k) b))"
  using wf sz al(1)
proof (induction used lmbbase base sz align rule: lmb_probe.induct)
  case (1 used lmbbase base sz align)
  let ?slot = "lmb_slot (alist_list used) (unat sz) (2 ^ k)"
  let ?n = "mkrg base sz 0"
  have n: "rg_ok ?n" using "1.prems" by (simp add: rg_ok_def rg_lo_def rg_hi_def word_less_nat_alt)
  note ov = lmb_overlaps_region_spec [OF "1.prems"(3) n, simplified]
  show ?case
  proof (cases "base \<noteq> 0 \<and> lmbbase \<le> base")
    case False
    then show ?thesis by (subst lmb_probe.simps) (auto simp: word_le_nat_alt)
  next
    case True
    show ?thesis
    proof (cases "lmb_overlaps_region used base sz")
      case None
      then have "?slot (unat base)" using ov(1) "1.prems" by (simp add: lmb_slot_apart [of _ _ _ _ 0])
      then show ?thesis using True None by (subst lmb_probe.simps) auto
    next
      case (Some i)
      from ov(2) [OF this] obtain as r bs where r: "alist_list used = as @ r # bs" "i = length as" "\<not> rg_apart ?n r"
        by blast
      have rr: "rgn used i = r" using rgn_at [OF _ r(1)] r(2) "1.prems"(3) by (simp add: lmb_list_wf_def)
      have o: "unat base < rg_hi r" "rg_lo r < unat base + unat sz"
        using r(3) by (auto simp: rg_apart_def rg_lo_def rg_hi_def)
      have below: "b + unat sz \<le> rg_lo r" if "?slot b" "b \<le> unat base" for b
        using that o r(1) by (auto simp: lmb_slot_def)
      show ?thesis
      proof (cases "rg_base r < sz")
        case True': True
        then have "\<not> ?slot b" if "0 < b" "b \<le> unat base" for b
          using below that by (auto simp: word_less_nat_alt rg_lo_def)
        then show ?thesis using True True' Some rr by (subst lmb_probe.simps) simp
      next
        case False
        let ?b = "align_down (rg_base r - sz) align"
        have s: "unat (rg_base r - sz) = rg_lo r - unat sz" "unat sz \<le> rg_lo r"
          using False by (simp_all add: unat_sub not_less word_le_nat_alt rg_lo_def)
        have le: "b \<le> unat ?b" if "?slot b" "b \<le> unat base" for b
          using below [OF that] that(1) s "1.prems"(5) align_down_greatest(2) [OF al(2)]
          by (simp add: lmb_slot_def)
        have lt: "unat ?b < unat base" using lmb_probe_less [OF Some, of align] False True rr by simp
        have b1: "unat ?b + unat sz < 2 ^ 64" using lt "1.prems"(1) by simp
        have b2: "2 ^ k dvd unat ?b" using align_down_greatest(1) [OF al(2)] "1.prems"(5) by simp
        have ih: "case lmb_probe used lmbbase ?b sz align of
            None \<Rightarrow> \<forall>b. 0 < b \<and> unat lmbbase \<le> b \<and> b \<le> unat ?b \<longrightarrow> \<not> ?slot b
          | Some a \<Rightarrow> a \<noteq> 0 \<and> lmbbase \<le> a \<and> a \<le> ?b \<and> ?slot (unat a) \<and> (\<forall>b. unat a < b \<and> b \<le> unat ?b \<longrightarrow> \<not> ?slot b)"
          using "1.IH" [OF True Some, unfolded rr, OF False b1 b2 "1.prems"(3-5)] .
        have step: "lmb_probe used lmbbase base sz align = lmb_probe used lmbbase ?b sz align"
          using True Some False rr by (subst lmb_probe.simps) simp
        show ?thesis
        proof (cases "lmb_probe used lmbbase ?b sz align")
          case None
          then show ?thesis using ih le step by auto
        next
          case (Some a)
          then have "a \<le> base" using ih lt by (auto simp: word_le_nat_alt)
          then show ?thesis using ih le step Some by auto
        qed
      qed
    qed
  qed
qed

lemma lmb_start_from:
  assumes "sz \<le> t" and "k < 64"
  shows "2 ^ k dvd unat (align_down (t - sz) (2 ^ k))"
    and "unat (align_down (t - sz) (2 ^ k)) + unat sz \<le> unat t"
    and "2 ^ k dvd b \<Longrightarrow> b + unat sz \<le> unat t \<Longrightarrow> b \<le> unat (align_down (t - sz) (2 ^ k))"
proof -
  have e: "unat (t - sz) = unat t - unat sz" "unat sz \<le> unat t"
    using assms(1) by (simp_all add: unat_sub word_le_nat_alt)
  show "2 ^ k dvd unat (align_down (t - sz) (2 ^ k))" using align_down_greatest(1) [OF assms(2)] .
  have "unat (align_down (t - sz) (2 ^ k)) \<le> unat (t - sz)"
    using align_down_le [of "t - sz" "2 ^ k"] by (simp only: word_le_nat_alt)
  then show "unat (align_down (t - sz) (2 ^ k)) + unat sz \<le> unat t" using e by linarith
  assume b: "2 ^ k dvd b" "b + unat sz \<le> unat t"
  then have "b \<le> unat (t - sz)" using e by linarith
  then show "b \<le> unat (align_down (t - sz) (2 ^ k))" using align_down_greatest(2) [OF assms(2) b(1)] by blast
qed

lemma lmb_alloc_start_spec:
  assumes r: "rg_ok r" and sz: "0 < sz" and al: "align = 2 ^ k" "k < 64" and mx: "max_addr = 0 \<or> sz \<le> max_addr"
  shows "case lmb_alloc_start r sz align max_addr of
      None \<Rightarrow> \<forall>b. \<not> lmb_fits r (unat sz) (unat max_addr) b
    | Some s \<Rightarrow> 2 ^ k dvd unat s \<and> unat s + unat sz \<le> rg_hi r \<and> (max_addr \<noteq> 0 \<longrightarrow> unat s + unat sz \<le> unat max_addr) \<and>
        (\<forall>b. 2 ^ k dvd b \<and> lmb_fits r (unat sz) (unat max_addr) b \<longrightarrow> b \<le> unat s)"
proof -
  have e: "unat (rg_base r + rg_size r) = rg_hi r" using unat_base_size [OF r] .
  note start = lmb_start_from [OF _ al(2), of sz, folded al(1)]
  consider "rg_size r < sz" | "sz \<le> rg_size r" "max_addr = 0" | "sz \<le> rg_size r" "max_addr \<noteq> 0" "rg_base r < max_addr"
    | "max_addr \<noteq> 0" "max_addr \<le> rg_base r" "sz \<le> rg_size r" by fastforce
  then show ?thesis
  proof cases
    case 1
    then show ?thesis by (auto simp: lmb_alloc_start_def lmb_fits_def rg_lo_def rg_hi_def word_less_nat_alt)
  next
    case 2
    then have t: "sz \<le> rg_base r + rg_size r" using e by (simp add: word_le_nat_alt rg_hi_def)
    have "lmb_alloc_start r sz align max_addr = Some (align_down (rg_base r + rg_size r - sz) align)"
      using 2 by (simp add: lmb_alloc_start_def)
    then show ?thesis using start [OF t] e 2 by (simp add: lmb_fits_def)
  next
    case 3
    let ?t = "min (rg_base r + rg_size r) max_addr"
    have nw: "\<not> rg_base r + rg_size r < rg_base r" using e by (simp add: word_less_nat_alt rg_hi_def)
    have t: "sz \<le> ?t" using e 3 mx by (auto simp: word_le_nat_alt rg_hi_def)
    have mn: "unat ?t = min (rg_hi r) (unat max_addr)" using e by (auto simp: min_def word_le_nat_alt)
    have "lmb_alloc_start r sz align max_addr = Some (align_down (?t - sz) align)"
      using 3 nw by (simp add: lmb_alloc_start_def Let_def)
    then show ?thesis using start [OF t] mn 3 by (simp add: lmb_fits_def unat_eq_0)
  next
    case 4
    have "0 < unat sz" "0 < unat max_addr" using 4 sz by (simp_all add: unat_gt_0 word_less_nat_alt)
    then show ?thesis using 4
      by (auto simp: lmb_alloc_start_def lmb_fits_def rg_lo_def word_le_nat_alt word_less_nat_alt)
  qed
qed

lemma lmb_region_search:
  assumes wf: "lmb_list_wf (used_mem l)" and r: "rg_ok r" and sz: "0 < sz" and al: "align = 2 ^ k" "k < 64"
    and mx: "max_addr = 0 \<or> sz \<le> max_addr"
  shows "case (case lmb_alloc_start r sz align max_addr of None \<Rightarrow> None
               | Some s \<Rightarrow> lmb_probe (used_mem l) (rg_base r) s sz align) of
      None \<Rightarrow> \<forall>b. \<not> lmb_candidate_in [r] l sz align max_addr b
    | Some a \<Rightarrow> lmb_candidate_in [r] l sz align max_addr (unat a) \<and>
        (\<forall>b. lmb_candidate_in [r] l sz align max_addr b \<longrightarrow> b \<le> unat a)"
proof (cases "lmb_alloc_start r sz align max_addr")
  case None
  then show ?thesis using lmb_alloc_start_spec [OF r sz al mx] by (simp add: lmb_candidate_in_def)
next
  case (Some s)
  have al': "unat align = 2 ^ k" using al by (simp add: unat_u64_pow)
  have s: "2 ^ k dvd unat s" "unat s + unat sz \<le> rg_hi r" "max_addr \<noteq> 0 \<longrightarrow> unat s + unat sz \<le> unat max_addr"
    "\<And>b. 2 ^ k dvd b \<Longrightarrow> lmb_fits r (unat sz) (unat max_addr) b \<Longrightarrow> b \<le> unat s"
    using lmb_alloc_start_spec [OF r sz al mx] Some by auto
  then have "unat s + unat sz < 2 ^ 64" using r by (simp add: rg_ok_def)
  note p = lmb_probe_spec [OF wf sz al this s(1), of "rg_base r"]
  have c: "lmb_candidate_in [r] l sz align max_addr b \<longleftrightarrow>
      0 < b \<and> rg_lo r \<le> b \<and> b \<le> unat s \<and> lmb_slot (alist_list (used_mem l)) (unat sz) (2 ^ k) b" for b
    using s al' by (auto simp: lmb_candidate_in_def lmb_fits_def lmb_slot_def unat_eq_0)
  show ?thesis
  proof (cases "lmb_probe (used_mem l) (rg_base r) s sz align")
    case None
    then show ?thesis using p c Some by (auto simp: rg_lo_def)
  next
    case (Some a)
    then have "unat a > 0" using p by (simp add: unat_gt_0)
    moreover have "b \<le> unat a" if "b \<le> unat s" "lmb_slot (alist_list (used_mem l)) (unat sz) (2 ^ k) b" for b
      using p Some that by (simp) (meson leI)
    ultimately show ?thesis using p c Some \<open>lmb_alloc_start r sz align max_addr = Some s\<close>
      by (auto simp: rg_lo_def word_le_nat_alt)
  qed
qed

text \<open>Regions searched from the last one down: the first hit is the highest candidate.\<close>

lemma lmb_alloc_scan_spec:
  assumes wf: "lmb_list_wf (used_mem l)" "lmb_list_wf (available_mem l)" and sz: "0 < sz"
    and al: "align = 2 ^ k" "k < 64" and mx: "max_addr = 0 \<or> sz \<le> max_addr"
  shows "i \<le> rgn_count (available_mem l) \<Longrightarrow>
    (case lmb_alloc_scan l i sz align max_addr of
       None \<Rightarrow> \<forall>b. \<not> lmb_candidate_in (take i (alist_list (available_mem l))) l sz align max_addr b
     | Some a \<Rightarrow> lmb_candidate_in (take i (alist_list (available_mem l))) l sz align max_addr (unat a) \<and>
         (\<forall>b. lmb_candidate_in (take i (alist_list (available_mem l))) l sz align max_addr b \<longrightarrow> b \<le> unat a))"
proof (induction i)
  case 0
  then show ?case by (simp add: lmb_candidate_in_def)
next
  case (Suc i)
  let ?rs = "alist_list (available_mem l)"
  define r where "r = rgn (available_mem l) i"
  have w: "alist_wf (available_mem l)" "rgs_ok ?rs" using wf(2) by (simp_all add: lmb_list_wf_def)
  have i: "i < length ?rs" using Suc.prems rgn_count_length [OF w(1)] by simp
  have r: "r = ?rs ! i" using rgn_nth [OF w(1), of i] Suc.prems by (simp add: r_def)
  have tk: "take (Suc i) ?rs = take i ?rs @ [r]" using i r by (simp add: take_Suc_conv_app_nth)
  have rok: "rg_ok r" using rgs_ok_in [OF w(2), of r] i r by simp
  have "rgs_ok (take (Suc i) ?rs)" using w(2) append_take_drop_id [of "Suc i" ?rs] by (metis rgs_ok_append)
  then have lo: "\<forall>x \<in> set (take i ?rs). rg_hi x \<le> rg_lo r" unfolding tk by (simp add: rgs_ok_simps)
  have c: "lmb_candidate_in (take (Suc i) ?rs) l sz align max_addr b \<longleftrightarrow>
      lmb_candidate_in (take i ?rs) l sz align max_addr b \<or> lmb_candidate_in [r] l sz align max_addr b" for b
    unfolding tk lmb_candidate_in_def by auto
  have below: "b \<le> b'" if "lmb_candidate_in (take i ?rs) l sz align max_addr b"
      "lmb_candidate_in [r] l sz align max_addr b'" for b b'
    using that lo by (fastforce simp: lmb_candidate_in_def lmb_fits_def)
  define res where "res = (case lmb_alloc_start r sz align max_addr of None \<Rightarrow> None
               | Some s \<Rightarrow> lmb_probe (used_mem l) (rg_base r) s sz align)"
  have step: "lmb_alloc_scan l (Suc i) sz align max_addr =
      (case res of None \<Rightarrow> lmb_alloc_scan l i sz align max_addr | Some a \<Rightarrow> Some a)"
    by (simp add: res_def r_def split: option.splits)
  show ?case
  proof (cases res)
    case None
    then have "\<not> lmb_candidate_in [r] l sz align max_addr b" for b
      using lmb_region_search [OF wf(1) rok sz al mx] by (simp add: res_def [symmetric])
    then show ?thesis using Suc.IH Suc.prems step None c by (auto simp del: lmb_alloc_scan.simps split: option.splits)
  next
    case (Some a)
    then have "lmb_candidate_in [r] l sz align max_addr (unat a)"
        "\<forall>b. lmb_candidate_in [r] l sz align max_addr b \<longrightarrow> b \<le> unat a"
      using lmb_region_search [OF wf(1) rok sz al mx] by (simp_all add: res_def [symmetric])
    then show ?thesis using step Some c below by (auto simp del: lmb_alloc_scan.simps)
  qed
qed

lemma lmb_candidate_all:
  "lmb_candidate_in (alist_list (available_mem l)) l sz align max_addr b = lmb_candidate l sz align max_addr b"
  by (simp add: lmb_candidate_in_def lmb_candidate_def)

lemma lmb_alloc_scan_all:
  assumes "lmb_ready l" and "0 < sz" and "align = 2 ^ k" "k < 64" and "max_addr = 0 \<or> sz \<le> max_addr"
  shows "case lmb_alloc_scan l (rgn_count (available_mem l)) sz align max_addr of
       None \<Rightarrow> \<forall>b. \<not> lmb_candidate l sz align max_addr b
     | Some a \<Rightarrow> lmb_candidate l sz align max_addr (unat a) \<and> (\<forall>b. lmb_candidate l sz align max_addr b \<longrightarrow> b \<le> unat a)"
proof -
  have wf: "lmb_list_wf (used_mem l)" "lmb_list_wf (available_mem l)" using assms(1) by (simp_all add: lmb_ready_def)
  then have "take (rgn_count (available_mem l)) (alist_list (available_mem l)) = alist_list (available_mem l)"
    by (simp add: rgn_count_length lmb_list_wf_def)
  from lmb_alloc_scan_spec [OF wf assms(2-5) order_refl, unfolded this lmb_candidate_all] show ?thesis .
qed

lemma lmb_candidate_addable:
  assumes r: "lmb_ready l" and c: "lmb_candidate l sz align max_addr (unat a)" and sz: "0 < sz"
  shows "lmb_addable (used_mem l) (mkrg a sz f)"
proof -
  obtain r where "r \<in> set (alist_list (available_mem l))" "lmb_fits r (unat sz) (unat max_addr) (unat a)"
    using c by (auto simp: lmb_candidate_def)
  moreover then have "rg_ok r" using assms(1) rgs_ok_in by (auto simp: lmb_ready_def lmb_list_wf_def)
  ultimately have "unat a + unat sz < 2 ^ 64" by (simp add: lmb_fits_def rg_ok_def)
  then have "rg_ok (mkrg a sz f)" using sz by (simp add: rg_ok_def rg_lo_def rg_hi_def word_less_nat_alt)
  moreover have "\<forall>x \<in> set (alist_list (used_mem l)). rg_apart (mkrg a sz f) x"
    using c by (auto simp: lmb_candidate_def lmb_slot_apart [of _ _ _ _ f])
  ultimately show ?thesis using r by (simp add: lmb_addable_def lmb_ready_def)
qed

text \<open>C5: _lmb_alloc_base returns the highest address at which an aligned range of the size fits in one
  memory region, below the limit and apart from everything reserved, and records the range as used
  with its flags; it returns 0 and changes nothing when there is no such address. Only a full list that
  cannot grow makes it fail while there is one.\<close>

theorem lmb_alloc_base_highest:
  assumes "lmb_ready l" and "0 < sz" and "align = 2 ^ k" "k < 64" and "max_addr = 0 \<or> sz \<le> max_addr"
    and "\<forall>a s. ntf a s LMB_MAP_OP_RESERVE flags = 0"
  shows "\<exists>a l'. lmb_alloc_base h ntf l sz align max_addr flags = Some (a, l') \<and>
    available_mem l' = available_mem l \<and> lmb_list_wf (used_mem l') \<and>
    (if \<exists>b. lmb_candidate l sz align max_addr b then
       lmb_candidate l sz align max_addr (unat a) \<and> (\<forall>b. lmb_candidate l sz align max_addr b \<longrightarrow> b \<le> unat a) \<and>
       lmb_map (alist_list (used_mem l')) =
         map_range (unat a) (unat a + unat sz) (Some flags) (lmb_map (alist_list (used_mem l))) \<or>
       a = 0 \<and> (alist_err (used_mem l) \<or> alist_full (used_mem l)) \<and>
         alist_list (used_mem l') = alist_list (used_mem l)
     else a = 0 \<and> l' = l)"
proof (cases "lmb_alloc_scan l (rgn_count (available_mem l)) sz align max_addr")
  case None
  then show ?thesis using lmb_alloc_scan_all [OF assms(1-5)] assms(1)
    by (simp add: lmb_alloc_base_def lmb_alloc_base_raw_def lmb_ready_def)
next
  case (Some a)
  then have c: "lmb_candidate l sz align max_addr (unat a)"
    and mx: "\<forall>b. lmb_candidate l sz align max_addr b \<longrightarrow> b \<le> unat a"
    using lmb_alloc_scan_all [OF assms(1-5)] by simp_all
  obtain ret u where u: "lmb_add_region_flags h (used_mem l) a sz flags = Some (ret, u)" "lmb_list_wf u"
    "ret = 0 \<and> lmb_added (alist_list (used_mem l)) (mkrg a sz flags) (alist_list u) \<or>
     ret = - 1 \<and> (alist_err (used_mem l) \<or> alist_full (used_mem l)) \<and> alist_list u = alist_list (used_mem l)"
    using lmb_add_region_flags_ok [OF lmb_candidate_addable [OF assms(1) c assms(2), of flags], of h] by auto
  have n: "lmb_map_update_notify ntf l' a sz LMB_MAP_OP_RESERVE flags = 0" for l'
    using assms(6) by (simp add: lmb_map_update_notify_def)
  have "lmb_alloc_base h ntf l sz align max_addr flags = Some (if ret \<noteq> 0 then 0 else a, l\<lparr>used_mem := u\<rparr>)"
    using Some u(1) n by (simp add: lmb_alloc_base_def lmb_alloc_base_raw_def Let_def)
  moreover have "\<exists>b. lmb_candidate l sz align max_addr b" using c by blast
  ultimately show ?thesis using u(2,3) c mx by (auto simp: lmb_added_def rg_lo_def rg_hi_def)
qed

theorem lmb_alloc_base_highest_witness:
  "\<exists>a l'. lmb_alloc_base heap_ok (\<lambda>_ _ _ _. 0) lmb_ex 0x1000 0x1000 0 0 = Some (a, l') \<and>
     lmb_candidate lmb_ex 0x1000 0x1000 0 (unat a) \<and> 0xafeff000 \<le> unat a \<and>
     lmb_map (alist_list (used_mem l')) (unat a) = Some 0"
proof -
  have al: "alist_list (available_mem lmb_ex) = [mkrg 0x80000000 0x10000000 0, mkrg 0xa0000000 0x10000000 0]"
    "alist_list (used_mem lmb_ex) = [mkrg 0xaff00000 0x100000 2]"
    by (simp_all add: lmb_ex_def lmb_ex_simps)
  have r: "lmb_ready lmb_ex" by (simp add: lmb_ready_def lmb_ex_def lmb_ex_simps)
  have c: "lmb_candidate lmb_ex 0x1000 0x1000 0 0xafeff000"
    by (simp add: lmb_candidate_def lmb_slot_def lmb_fits_def al rg_lo_def rg_hi_def)
  have f: "\<not> (alist_err (used_mem lmb_ex) \<or> alist_full (used_mem lmb_ex))"
    by (simp add: lmb_ex_def lmb_ex_simps)
  have p: "(0 :: u64) < 0x1000" "(0x1000 :: u64) = 2 ^ 12" "(12 :: nat) < 64" "(0 :: u64) = 0 \<or> 0x1000 \<le> (0 :: u64)"
    "\<forall>a s. (\<lambda>_ _ _ _. 0 :: int) a s LMB_MAP_OP_RESERVE (0 :: u32) = 0"
    by simp_all
  obtain a l' where t: "lmb_alloc_base heap_ok (\<lambda>_ _ _ _. 0) lmb_ex 0x1000 0x1000 0 0 = Some (a, l')"
    "lmb_candidate lmb_ex 0x1000 0x1000 0 (unat a)" "\<forall>b. lmb_candidate lmb_ex 0x1000 0x1000 0 b \<longrightarrow> b \<le> unat a"
    "lmb_map (alist_list (used_mem l')) =
       map_range (unat a) (unat a + unat (0x1000 :: u64)) (Some 0) (lmb_map (alist_list (used_mem lmb_ex)))"
    using lmb_alloc_base_highest [OF r p, of heap_ok] c f by (metis (no_types, lifting))
  have "lmb_map (alist_list (used_mem l')) (unat a) = Some 0" unfolding t(4) by (simp add: map_range_def)
  with t(1,2) t(3) [rule_format, OF c] show ?thesis by blast
qed

subsubsection \<open>Queries\<close>

lemma lmb_reserved_from_spec:
  assumes wf: "lmb_list_wf used"
  shows "alist_list used = xs @ us \<Longrightarrow> lmb_reserved_from used (length xs) addr flags \<longleftrightarrow>
    (\<exists>f. lmb_map us (unat addr) = Some f \<and> f AND flags = flags)"
proof (induction us arbitrary: xs)
  case Nil
  have "length xs = rgn_count used" using wf Nil by (simp add: rgn_count_length lmb_list_wf_def)
  then show ?case by (subst lmb_reserved_from.simps) simp
next
  case (Cons x us)
  have w: "alist_wf used" and x: "rg_ok x" using wf Cons.prems by (auto simp: lmb_list_wf_def rgs_ok_simps)
  have c: "length xs < rgn_count used" using Cons.prems by (simp add: rgn_count_length w)
  have r: "rgn used (length xs) = x" using rgn_at [OF w] Cons.prems by simp
  have h: "rg_base x \<le> addr \<and> addr \<le> rg_base x + rg_size x - 1 \<longleftrightarrow> rg_lo x \<le> unat addr \<and> unat addr < rg_hi x"
    using unat_base_size_m1 [OF x] x by (auto simp: word_le_nat_alt rg_lo_def rg_ok_def)
  show ?case
    using c r h Cons.IH [of "xs @ [x]"] Cons.prems by (subst lmb_reserved_from.simps) (simp add: Let_def)
qed

lemma lmb_free_size_from_spec:
  assumes wf: "lmb_list_wf used"
  shows "alist_list used = xs @ us \<Longrightarrow>
    (case lmb_free_size_from used (length xs) addr of
       None \<Rightarrow> \<forall>b. unat addr \<le> b \<longrightarrow> lmb_map us b = None
     | Some n \<Rightarrow> (\<forall>b. unat addr \<le> b \<and> b < unat addr + unat n \<longrightarrow> lmb_map us b = None) \<and>
         lmb_map us (unat addr + unat n) \<noteq> None)"
proof (induction us arbitrary: xs)
  case Nil
  have "length xs = rgn_count used" using wf Nil by (simp add: rgn_count_length lmb_list_wf_def)
  then show ?case by (subst lmb_free_size_from.simps) simp
next
  case (Cons x us)
  have w: "alist_wf used" and x: "rg_ok x" and us: "\<forall>y \<in> set us. rg_hi x \<le> rg_lo y"
    using wf Cons.prems by (auto simp: lmb_list_wf_def rgs_ok_simps)
  have c: "length xs < rgn_count used" using Cons.prems by (simp add: rgn_count_length w)
  have r: "rgn used (length xs) = x" using rgn_at [OF w] Cons.prems by simp
  have e: "unat (rg_base x + rg_size x) = rg_hi x" using unat_base_size [OF x] .
  consider "unat addr < rg_lo x" | "rg_lo x \<le> unat addr" "unat addr < rg_hi x" | "rg_lo x \<le> unat addr" "rg_hi x \<le> unat addr"
    by linarith
  then show ?case
  proof cases
    case 1
    then have "lmb_free_size_from used (length xs) addr = Some (rg_base x - addr)"
      using c r by (subst lmb_free_size_from.simps) (simp add: word_less_nat_alt rg_lo_def)
    moreover have "unat addr + unat (rg_base x - addr) = rg_lo x"
      using 1 by (simp add: unat_sub word_le_nat_alt rg_lo_def)
    moreover have "lmb_map us b = None" if "b < rg_lo x" for b
      using us x that by (intro lmb_map_above) (auto simp: rg_ok_def)
    ultimately show ?thesis using x by (simp add: rg_ok_def)
  next
    case 2
    then have "lmb_free_size_from used (length xs) addr = Some 0"
      using c r e by (subst lmb_free_size_from.simps) (simp add: word_less_nat_alt rg_lo_def Let_def)
    then show ?thesis using 2 by simp
  next
    case 3
    then have "lmb_free_size_from used (length xs) addr = lmb_free_size_from used (length (xs @ [x])) addr"
      using c r e by (subst lmb_free_size_from.simps) (simp add: word_less_nat_alt rg_lo_def Let_def)
    moreover have "lmb_map (x # us) b = lmb_map us b" if "unat addr \<le> b" for b using 3 that by simp
    ultimately show ?thesis using Cons.IH [of "xs @ [x]"] Cons.prems by (simp split: option.splits)
  qed
qed

text \<open>C9: an address is reported as reserved with given flags when it lies in a used region that has all of them.\<close>

theorem lmb_is_reserved_flags_spec:
  assumes "lmb_ready l"
  shows "lmb_is_reserved_flags l addr flags \<longleftrightarrow>
    (\<exists>f. lmb_map (alist_list (used_mem l)) (unat addr) = Some f \<and> f AND flags = flags)"
  using lmb_reserved_from_spec [of "used_mem l" "[]" "alist_list (used_mem l)"] assms
  by (simp add: lmb_is_reserved_flags_def lmb_ready_def)

text \<open>C10: for an address of available memory lmb_get_free_size counts the bytes up to the next used region, and up
  to the end of the last memory region when no used region follows: no byte counted is reserved.\<close>

theorem lmb_get_free_size_run:
  assumes ready: "lmb_ready l" and av: "alist_list (available_mem l) = rs @ [r]"
    and a: "lmb_map (alist_list (available_mem l)) (unat addr) \<noteq> None"
  shows "(\<forall>b. unat addr \<le> b \<and> b < unat addr + unat (lmb_get_free_size l addr) \<longrightarrow>
       lmb_map (alist_list (used_mem l)) b = None) \<and>
    (lmb_map (alist_list (used_mem l)) (unat addr + unat (lmb_get_free_size l addr)) \<noteq> None \<or>
     unat addr + unat (lmb_get_free_size l addr) = rg_hi r)"
proof -
  have wf: "lmb_list_wf (available_mem l)" "lmb_list_wf (used_mem l)" "alist_wf (available_mem l)" "rgs_ok (rs @ [r])"
    using ready av by (simp_all add: lmb_ready_def lmb_list_wf_def)
  obtain x where x: "x \<in> set (rs @ [r])" "rg_lo x \<le> unat addr" "unat addr < rg_hi x"
    using a av by (auto simp: lmb_map_None_iff)
  have lt: "unat addr < rg_hi r" "rg_ok r" using x wf(4) by (auto simp: rgs_ok_simps rg_ok_def)
  have n: "rg_ok (mkrg addr 1 0)" using lt by (simp add: rg_ok_def rg_lo_def rg_hi_def)
  have "lmb_overlaps_region (available_mem l) addr 1 \<noteq> None"
    using lmb_overlaps_region_spec(1) [OF wf(1) n] x av by (auto simp: rg_apart_def rg_lo_def rg_hi_def)
  then obtain i where i: "lmb_overlaps_region (available_mem l) addr 1 = Some i" by blast
  have "rgn (available_mem l) (rgn_count (available_mem l) - 1) = r"
    using rgn_at [OF wf(3) av] rgn_count_at [OF wf(3) av] by simp
  moreover have "unat (rg_base r + rg_size r - addr) = rg_hi r - unat addr"
    using unat_base_size [OF lt(2)] lt(1) by (simp add: unat_sub word_le_nat_alt)
  ultimately have g: "case lmb_free_size_from (used_mem l) 0 addr of
      None \<Rightarrow> unat (lmb_get_free_size l addr) = rg_hi r - unat addr
    | Some m \<Rightarrow> lmb_get_free_size l addr = m"
    using i by (simp add: lmb_get_free_size_def Let_def split: option.splits)
  show ?thesis
    using g lmb_free_size_from_spec [OF wf(2), of "[]" "alist_list (used_mem l)" addr] lt(1)
    by (cases "lmb_free_size_from (used_mem l) 0 addr") auto
qed

theorem lmb_is_reserved_flags_spec_witness:
  "lmb_is_reserved_flags lmb_ex 0xaff00010 2 \<and> \<not> lmb_is_reserved_flags lmb_ex 0xafe00000 0"
proof -
  have u: "alist_list (used_mem lmb_ex) = [mkrg 0xaff00000 0x100000 2]" by (simp add: lmb_ex_def lmb_ex_simps)
  have r: "lmb_ready lmb_ex" by (simp add: lmb_ready_def lmb_ex_def lmb_ex_simps)
  show ?thesis
    using lmb_is_reserved_flags_spec [OF r, of "0xaff00010" 2] lmb_is_reserved_flags_spec [OF r, of "0xafe00000" 0]
    by (simp add: u rg_lo_def rg_hi_def)
qed

theorem lmb_get_free_size_run_witness:
  "unat (lmb_get_free_size lmb_ex 0xaf000000) = 0xf00000"
proof -
  have u: "alist_list (used_mem lmb_ex) = [mkrg 0xaff00000 0x100000 2]" by (simp add: lmb_ex_def lmb_ex_simps)
  have al: "alist_list (available_mem lmb_ex) = [mkrg 0x80000000 0x10000000 0] @ [mkrg 0xa0000000 0x10000000 0]"
    by (simp add: lmb_ex_def lmb_ex_simps)
  have r: "lmb_ready lmb_ex" by (simp add: lmb_ready_def lmb_ex_def lmb_ex_simps)
  have "lmb_map (alist_list (available_mem lmb_ex)) (unat (0xaf000000 :: u64)) \<noteq> None"
    unfolding al by (simp add: rg_lo_def rg_hi_def)
  from lmb_get_free_size_run [OF r al this]
  have n: "\<forall>b. 0xaf000000 \<le> b \<and> b < 0xaf000000 + unat (lmb_get_free_size lmb_ex 0xaf000000) \<longrightarrow>
      b < 0xaff00000 \<or> 0xb0000000 \<le> b"
    "0xaff00000 \<le> 0xaf000000 + unat (lmb_get_free_size lmb_ex 0xaf000000)"
    unfolding u by (auto simp: rg_lo_def rg_hi_def split: if_splits)
  have "\<not> 0xf00000 < unat (lmb_get_free_size lmb_ex 0xaf000000)" using spec [OF n(1), of "0xaff00000"] by simp
  with n(2) show ?thesis by linarith
qed

subsubsection \<open>Fixed addresses and limits\<close>

lemma lmb_reserve_ok:
  assumes r: "lmb_ready l" and n: "rg_ok n" "\<forall>x \<in> set (alist_list (used_mem l)). rg_apart n x"
    and ntf: "\<forall>a s. ntf a s LMB_MAP_OP_RESERVE (rg_flags n) = 0"
    and f: "\<not> alist_err (used_mem l)" "\<not> alist_full (used_mem l)"
  shows "\<exists>l'. lmb_reserve h ntf l (rg_base n) (rg_size n) (rg_flags n) = Some (0, l') \<and>
    available_mem l' = available_mem l \<and> lmb_added (alist_list (used_mem l)) n (alist_list (used_mem l'))"
proof -
  have "lmb_addable (used_mem l) n" using r n by (simp add: lmb_addable_def lmb_ready_def)
  from lmb_add_region_flags_ok [OF this, of h] f obtain u
    where "lmb_add_region_flags h (used_mem l) (rg_base n) (rg_size n) (rg_flags n) = Some (0, u)"
      "lmb_added (alist_list (used_mem l)) n (alist_list u)" by auto
  then show ?thesis using ntf by (simp add: lmb_reserve_def Let_def lmb_map_update_notify_def)
qed

lemma lmb_alloc_addr_first:
  assumes r: "lmb_ready l" and n: "rg_ok n" and av: "alist_list (available_mem l) = xs @ r # ys"
    and xs: "\<forall>x \<in> set xs. rg_apart n x" and o: "rg_lo r < rg_hi n" "rg_lo n < rg_hi r"
  shows "lmb_alloc_addr h ntf l (rg_base n) (rg_size n) flags =
    (if rg_hi n \<le> rg_hi r
     then map_option (\<lambda>(ret, l'). (if ret = 0 then 0 else - 1, l')) (lmb_reserve h ntf l (rg_base n) (rg_size n) flags)
     else Some (- 1, l))"
proof -
  have wf: "lmb_list_wf (available_mem l)" "alist_wf (available_mem l)" "rg_ok r"
    using r av by (auto simp: lmb_ready_def lmb_list_wf_def rgs_ok_simps)
  have no: "\<not> rg_apart n r" using o by (simp add: rg_apart_def)
  then have "lmb_overlaps_region (available_mem l) (rg_base n) (rg_size n) \<noteq> None"
    using lmb_overlaps_region_spec(1) [OF wf(1) n] av by auto
  then obtain i where i: "lmb_overlaps_region (available_mem l) (rg_base n) (rg_size n) = Some i" by blast
  from lmb_overlaps_region_spec(2) [OF wf(1) n this] obtain as q bs
    where q: "xs @ r # ys = as @ q # bs" "i = length as" "\<not> rg_apart n q" "\<forall>x \<in> set as. rg_apart n x"
    using av by auto
  have "as = xs \<and> q = r"
    using q(1,3,4) xs no by (auto simp: append_eq_append_conv2 append_eq_Cons_conv Cons_eq_append_conv)
  then have ri: "rgn (available_mem l) i = r" using rgn_at [OF wf(2) av] q(2) by simp
  let ?e = "mkrg (rg_base n + rg_size n - 1) 1 0"
  have e: "rg_lo ?e = rg_hi n - 1" "rg_hi ?e = rg_hi n"
    using unat_base_size_m1 [OF n] n by (simp_all add: rg_lo_def rg_hi_def [of ?e] rg_ok_def)
  have "rg_ok ?e" using e n by (auto simp: rg_ok_def)
  from lmb_addrs_overlap_iff [OF wf(3) this] e o n
  have "lmb_addrs_overlap (rg_base r) (rg_size r) (rg_base n + rg_size n - 1) 1 \<longleftrightarrow> rg_hi n \<le> rg_hi r"
    by (auto simp: rg_ok_def)
  with i ri show ?thesis by (simp add: lmb_alloc_addr_def Let_def)
qed

text \<open>C8: lmb_alloc_addr reserves a free range that lies in one memory region.\<close>

theorem lmb_alloc_addr_ok:
  assumes r: "lmb_ready l" and n: "rg_ok n" "\<forall>x \<in> set (alist_list (used_mem l)). rg_apart n x"
    and ntf: "\<forall>a s. ntf a s LMB_MAP_OP_RESERVE (rg_flags n) = 0"
    and f: "\<not> alist_err (used_mem l)" "\<not> alist_full (used_mem l)"
    and av: "r \<in> set (alist_list (available_mem l))" "rg_within n r"
  shows "\<exists>l'. lmb_alloc_addr h ntf l (rg_base n) (rg_size n) (rg_flags n) = Some (0, l') \<and>
    available_mem l' = available_mem l \<and> rgs_ok (alist_list (used_mem l')) \<and>
    lmb_map (alist_list (used_mem l')) =
      map_range (rg_lo n) (rg_hi n) (Some (rg_flags n)) (lmb_map (alist_list (used_mem l)))"
proof -
  obtain xs ys where s: "alist_list (available_mem l) = xs @ r # ys" using split_list [OF av(1)] by blast
  have "rgs_ok (xs @ r # ys)" using r s by (simp add: lmb_ready_def lmb_list_wf_def)
  then have "\<forall>x \<in> set xs. rg_apart n x" using av(2) by (fastforce simp: rgs_ok_simps rg_apart_def rg_within_def)
  moreover have "rg_lo r < rg_hi n" "rg_lo n < rg_hi r" "rg_hi n \<le> rg_hi r"
    using av(2) n(1) by (simp_all add: rg_within_def rg_ok_def)
  ultimately show ?thesis
    using lmb_alloc_addr_first [OF r n(1) s] lmb_reserve_ok [where ntf = ntf and h = h, OF r n ntf f] by (auto simp: lmb_added_def)
qed

text \<open>C14: lmb_alloc_addr also reserves a free range that begins below the first memory region and ends in it,
  outside of memory: only the end of the range is tested against the region that was found.\<close>

theorem lmb_alloc_addr_outside:
  assumes r: "lmb_ready l" and n: "rg_ok n" "\<forall>x \<in> set (alist_list (used_mem l)). rg_apart n x"
    and ntf: "\<forall>a s. ntf a s LMB_MAP_OP_RESERVE (rg_flags n) = 0"
    and f: "\<not> alist_err (used_mem l)" "\<not> alist_full (used_mem l)"
    and av: "alist_list (available_mem l) = r # rs" "rg_lo n < rg_lo r" "rg_lo r < rg_hi n" "rg_hi n \<le> rg_hi r"
  shows "\<exists>l'. lmb_alloc_addr h ntf l (rg_base n) (rg_size n) (rg_flags n) = Some (0, l') \<and>
    lmb_map (alist_list (available_mem l)) (rg_lo n) = None \<and>
    lmb_map (alist_list (used_mem l')) (rg_lo n) = Some (rg_flags n)"
proof -
  have ok: "rgs_ok (r # rs)" using r av(1) by (simp add: lmb_ready_def lmb_list_wf_def)
  then have "lmb_map (r # rs) (rg_lo n) = None"
    using av(2) by (intro lmb_map_above) (auto simp: rgs_ok_simps rg_ok_def)
  moreover have "rg_lo n < rg_hi r" using av(2) ok by (simp add: rgs_ok_simps rg_ok_def)
  ultimately show ?thesis
    using lmb_alloc_addr_first [OF r n(1), of "[]" r rs h ntf "rg_flags n"] av lmb_reserve_ok [where ntf = ntf and h = h, OF r n ntf f] n(1)
    by (auto simp: lmb_added_def map_range_def rg_ok_def)
qed

theorem lmb_alloc_addr_ok_witness:
  "\<exists>l'. lmb_alloc_addr heap_ok (\<lambda>_ _ _ _. 0) lmb_ex 0x80000000 0x2000 2 = Some (0, l') \<and>
     lmb_map (alist_list (used_mem l')) 0x80001fff = Some 2"
proof -
  let ?n = "mkrg 0x80000000 0x2000 2"
  have "lmb_ready lmb_ex" "\<not> alist_err (used_mem lmb_ex)" "\<not> alist_full (used_mem lmb_ex)" "rg_ok ?n"
    "\<forall>x \<in> set (alist_list (used_mem lmb_ex)). rg_apart ?n x"
    "mkrg 0x80000000 0x10000000 0 \<in> set (alist_list (available_mem lmb_ex))"
    "rg_within ?n (mkrg 0x80000000 0x10000000 0)"
    by (simp_all add: lmb_ready_def lmb_ex_def lmb_ex_simps)
  then show ?thesis
    using lmb_alloc_addr_ok [of lmb_ex ?n "\<lambda>_ _ _ _. 0" "mkrg 0x80000000 0x10000000 0" heap_ok]
    by (auto simp: map_range_def rg_lo_def rg_hi_def)
qed

theorem lmb_alloc_addr_outside_witness:
  "\<exists>l'. lmb_alloc_addr heap_ok (\<lambda>_ _ _ _. 0) lmb_ex 0x7ffff000 0x2000 2 = Some (0, l') \<and>
     lmb_map (alist_list (available_mem lmb_ex)) 0x7ffff000 = None \<and>
     lmb_map (alist_list (used_mem l')) 0x7ffff000 = Some 2"
proof -
  let ?n = "mkrg 0x7ffff000 0x2000 2"
  have "lmb_ready lmb_ex" "\<not> alist_err (used_mem lmb_ex)" "\<not> alist_full (used_mem lmb_ex)" "rg_ok ?n"
    "\<forall>x \<in> set (alist_list (used_mem lmb_ex)). rg_apart ?n x"
    "alist_list (available_mem lmb_ex) = [mkrg 0x80000000 0x10000000 0, mkrg 0xa0000000 0x10000000 0]"
    by (simp_all add: lmb_ready_def lmb_ex_def lmb_ex_simps)
  then show ?thesis
    using lmb_alloc_addr_outside [of lmb_ex ?n "\<lambda>_ _ _ _. 0" "mkrg 0x80000000 0x10000000 0"
        "[mkrg 0xa0000000 0x10000000 0]" heap_ok]
    by (auto simp: rg_lo_def rg_hi_def)
qed




end
