(* ===== verification/Blk.thy ===== *)
theory Blk
  imports Prelude "HOL-Library.Monad_Syntax"
begin

text \<open>
  The block layer between the file systems and a storage driver: the cache of recently read blocks
  (\<open>drivers/block/blkcache.c\<close>), the bounce buffers (\<open>common/bouncebuf.c\<close>) and the block
  operations on a device (\<open>drivers/block/blk-uclass.c\<close>). A device is the list of its bytes; the
  operations of its driver are parameters, with the laws of the locale \<open>blk_driver\<close>. A result
  \<^const>\<open>None\<close> stands for an access outside of a buffer.
\<close>

subsection \<open>The block cache\<close>

record block_cache_node =
  bn_iftype :: int
  bn_devnum :: int
  bn_start :: u64
  bn_blkcnt :: u64
  bn_blksz :: u64
  bn_cache :: buf

record block_cache_stats =
  st_hits :: u32
  st_misses :: u32
  st_entries :: u32
  st_max_blocks_per_entry :: u32
  st_max_entries :: u32

text \<open>The list of nodes, the most recently used one first, and \<open>_stats\<close>.\<close>

record block_cache =
  bc_list :: "block_cache_node list"
  bc_stats :: block_cache_stats

definition block_cache_initial :: block_cache where
  "block_cache_initial = \<lparr>bc_list = [],
     bc_stats = \<lparr>st_hits = 0, st_misses = 0, st_entries = 0, st_max_blocks_per_entry = 8, st_max_entries = 32\<rparr>\<rparr>"

definition cache_match :: "int \<Rightarrow> int \<Rightarrow> u64 \<Rightarrow> u64 \<Rightarrow> u64 \<Rightarrow> block_cache_node \<Rightarrow> bool" where
  "cache_match iftype devnum start blkcnt blksz node \<longleftrightarrow>
     bn_iftype node = iftype \<and> bn_devnum node = devnum \<and> bn_blksz node = blksz \<and>
     bn_start node \<le> start \<and> bn_start node + bn_blkcnt node \<ge> start + blkcnt"

definition cache_find ::
  "block_cache \<Rightarrow> int \<Rightarrow> int \<Rightarrow> u64 \<Rightarrow> u64 \<Rightarrow> u64 \<Rightarrow> block_cache_node option \<times> block_cache" where
  "cache_find c iftype devnum start blkcnt blksz =
     (case List.extract (cache_match iftype devnum start blkcnt blksz) (bc_list c) of
        None \<Rightarrow> (None, c)
      | Some (before, node, after) \<Rightarrow> (Some node, c\<lparr>bc_list := node # before @ after\<rparr>))"

text \<open>The data copied to the buffer when the call returns 1, \<^const>\<open>None\<close> when it returns 0.\<close>

definition blkcache_read ::
  "block_cache \<Rightarrow> int \<Rightarrow> int \<Rightarrow> u64 \<Rightarrow> u64 \<Rightarrow> u64 \<Rightarrow> (buf option \<times> block_cache) option" where
  "blkcache_read c iftype devnum start blkcnt blksz =
     (case cache_find c iftype devnum start blkcnt blksz of
        (Some node, c') \<Rightarrow>
          (let src = unat ((start - bn_start node) * blksz); n = unat (blksz * blkcnt) in
           if src + n \<le> length (bn_cache node)
           then Some (Some (chunk src n (bn_cache node)),
                      c'\<lparr>bc_stats := (bc_stats c')\<lparr>st_hits := st_hits (bc_stats c') + 1\<rparr>\<rparr>)
           else None)
      | (None, c') \<Rightarrow> Some (None, c'\<lparr>bc_stats := (bc_stats c')\<lparr>st_misses := st_misses (bc_stats c') + 1\<rparr>\<rparr>))"

definition sizeof_block_cache_node :: nat where
  "sizeof_block_cache_node = 56"

text \<open>The node to fill: its block, if it already has one, and the cache without the node.\<close>

definition blkcache_take_node :: "c_heap \<Rightarrow> block_cache \<Rightarrow> u64 \<Rightarrow> (buf option \<times> block_cache) option option" where
  "blkcache_take_node h c bytes =
     (if st_max_entries (bc_stats c) \<le> st_entries (bc_stats c) then
        (if bc_list c = [] then None
         else
           (let node = last (bc_list c);
                c' = c\<lparr>bc_list := butlast (bc_list c),
                       bc_stats := (bc_stats c)\<lparr>st_entries := st_entries (bc_stats c) - 1\<rparr>\<rparr>
            in Some (Some (if bn_blkcnt node * bn_blksz node < bytes then None else Some (bn_cache node), c'))))
      else if \<not> malloc_ok h sizeof_block_cache_node then Some None
      else Some (Some (None, c)))"

definition blkcache_store :: "block_cache \<Rightarrow> block_cache_node \<Rightarrow> block_cache" where
  "blkcache_store c node =
     c\<lparr>bc_list := node # bc_list c, bc_stats := (bc_stats c)\<lparr>st_entries := st_entries (bc_stats c) + 1\<rparr>\<rparr>"

definition blkcache_fill ::
  "c_heap \<Rightarrow> block_cache \<Rightarrow> int \<Rightarrow> int \<Rightarrow> u64 \<Rightarrow> u64 \<Rightarrow> u64 \<Rightarrow> buf \<Rightarrow> block_cache option" where
  "blkcache_fill h c iftype devnum start blkcnt blksz buffer =
     (if blkcnt > ucast (st_max_blocks_per_entry (bc_stats c)) then Some c
      else if st_max_entries (bc_stats c) = 0 then Some c
      else
        (let bytes = blksz * blkcnt in
         case blkcache_take_node h c bytes of
           None \<Rightarrow> None
         | Some None \<Rightarrow> Some c
         | Some (Some (block, c')) \<Rightarrow>
             (case (case block of Some b \<Rightarrow> Some b | None \<Rightarrow> c_malloc h (unat bytes)) of
                None \<Rightarrow> Some c'
              | Some b \<Rightarrow>
                  if unat bytes \<le> length buffer \<and> unat bytes \<le> length b
                  then Some (blkcache_store c'
                         \<lparr>bn_iftype = iftype, bn_devnum = devnum, bn_start = start, bn_blkcnt = blkcnt,
                          bn_blksz = blksz, bn_cache = blit 0 (take (unat bytes) buffer) b\<rparr>)
                  else None)))"

definition blkcache_invalidate :: "block_cache \<Rightarrow> int \<Rightarrow> int \<Rightarrow> block_cache" where
  "blkcache_invalidate c iftype devnum =
     (let keep = filter (\<lambda>node. \<not> (iftype = - 1 \<or> bn_iftype node = iftype \<and> bn_devnum node = devnum)) (bc_list c) in
      c\<lparr>bc_list := keep,
        bc_stats := (bc_stats c)\<lparr>st_entries := st_entries (bc_stats c) - of_nat (length (bc_list c) - length keep)\<rparr>\<rparr>)"

definition blkcache_configure :: "block_cache \<Rightarrow> u32 \<Rightarrow> u32 \<Rightarrow> block_cache" where
  "blkcache_configure c blocks entries =
     (let c' = (if blocks \<noteq> st_max_blocks_per_entry (bc_stats c) \<or> entries \<noteq> st_max_entries (bc_stats c)
                then blkcache_invalidate c (- 1) 0 else c)
      in c'\<lparr>bc_stats := (bc_stats c')\<lparr>st_max_blocks_per_entry := blocks, st_max_entries := entries,
               st_hits := 0, st_misses := 0\<rparr>\<rparr>)"

definition blkcache_stats :: "block_cache \<Rightarrow> block_cache_stats \<times> block_cache" where
  "blkcache_stats c = (bc_stats c, c\<lparr>bc_stats := (bc_stats c)\<lparr>st_hits := 0, st_misses := 0\<rparr>\<rparr>)"

definition blkcache_free :: "block_cache \<Rightarrow> block_cache" where
  "blkcache_free c = blkcache_invalidate c (- 1) 0"

subsection \<open>Bounce buffers\<close>

definition GEN_BB_READ :: u32 where [simp]: "GEN_BB_READ = 1"
definition GEN_BB_WRITE :: u32 where [simp]: "GEN_BB_WRITE = 2"

text \<open>\<open>bb_bounce\<close> is \<^const>\<open>None\<close> when the bounce buffer is the user's buffer.\<close>

record bounce_buffer =
  bb_user :: buf
  bb_bounce :: "buf option"
  bb_len :: u64
  bb_len_aligned :: u64
  bb_flags :: u32

definition roundup :: "u64 \<Rightarrow> u64 \<Rightarrow> u64" where
  "roundup x y = ((x + (y - 1)) div y) * y"

definition bounce_buffer_start_extalign ::
  "c_heap \<Rightarrow> buf \<Rightarrow> u64 \<Rightarrow> u32 \<Rightarrow> u64 \<Rightarrow> (bounce_buffer \<Rightarrow> bool) \<Rightarrow> int \<times> bounce_buffer" where
  "bounce_buffer_start_extalign h data len flags alignment addr_is_aligned =
     (let st = \<lparr>bb_user = data, bb_bounce = None, bb_len = len, bb_len_aligned = roundup len alignment, bb_flags = flags\<rparr>
      in if addr_is_aligned st then (0, st)
         else
           (case c_malloc h (unat (bb_len_aligned st)) of
              None \<Rightarrow> (- ENOMEM, st)
            | Some b \<Rightarrow>
                (0, st\<lparr>bb_bounce := Some (if flags AND GEN_BB_READ \<noteq> 0 then blit 0 (take (unat len) data) b else b)\<rparr>)))"

text \<open>The buffer the device works on, and the user's buffer when the transfer is over.\<close>

definition bounce_buffer_data :: "bounce_buffer \<Rightarrow> buf" where
  "bounce_buffer_data st = (case bb_bounce st of None \<Rightarrow> bb_user st | Some b \<Rightarrow> b)"

definition bounce_buffer_received :: "bounce_buffer \<Rightarrow> buf \<Rightarrow> bounce_buffer" where
  "bounce_buffer_received st b =
     (case bb_bounce st of None \<Rightarrow> st\<lparr>bb_user := b\<rparr> | Some _ \<Rightarrow> st\<lparr>bb_bounce := Some b\<rparr>)"

definition bounce_buffer_stop :: "bounce_buffer \<Rightarrow> buf" where
  "bounce_buffer_stop st =
     (case bb_bounce st of
        None \<Rightarrow> bb_user st
      | Some b \<Rightarrow> if bb_flags st AND GEN_BB_WRITE \<noteq> 0 then blit 0 (take (unat (bb_len st)) b) (bb_user st) else bb_user st)"

subsection \<open>Block operations\<close>

record blk_desc =
  d_uclass_id :: int
  d_devnum :: int
  d_blksz :: u64
  d_bb :: bool
  d_target :: u8
  d_lun :: u8
  d_part_type :: u8

text \<open>
  The operations of a driver on the bytes of a device. A read returns the number of blocks read and
  the bytes stored in the buffer; a write and an erase return a number of blocks and the new bytes of
  the device; \<^const>\<open>None\<close> is an operation that does not return. \<open>op_aligned\<close> is the optional test of a buffer.
\<close>

record blk_ops =
  op_read :: "(blk_desc \<Rightarrow> buf \<Rightarrow> u64 \<Rightarrow> u64 \<Rightarrow> (u64 \<times> buf) option) option"
  op_write :: "(blk_desc \<Rightarrow> buf \<Rightarrow> u64 \<Rightarrow> u64 \<Rightarrow> buf \<Rightarrow> (u64 \<times> buf) option) option"
  op_erase :: "(blk_desc \<Rightarrow> buf \<Rightarrow> u64 \<Rightarrow> u64 \<Rightarrow> (u64 \<times> buf) option) option"
  op_aligned :: "(blk_desc \<Rightarrow> bounce_buffer \<Rightarrow> bool) option"

definition ENOSYS :: int where [simp]: "ENOSYS = 38"

definition blk_buffer_aligned :: "blk_ops \<Rightarrow> blk_desc \<Rightarrow> bounce_buffer \<Rightarrow> bool" where
  "blk_buffer_aligned ops desc st = (case op_aligned ops of None \<Rightarrow> True | Some f \<Rightarrow> f desc st)"

text \<open>
  The driver's part of a read, through a bounce buffer when the device asks for one; then the whole
  read of the device with the bytes \<open>dev\<close>: the result, the buffer and the cache afterwards.
\<close>

definition blk_read_device ::
  "c_heap \<Rightarrow> blk_ops \<Rightarrow> blk_desc \<Rightarrow> (u64 \<times> buf) option \<Rightarrow> u64 \<Rightarrow> buf \<Rightarrow> (int \<times> u64 \<times> buf) option" where
  "blk_read_device h ops desc io blkcnt buffer =
     (if d_bb desc then
        (case bounce_buffer_start_extalign h buffer (blkcnt * d_blksz desc) GEN_BB_WRITE (d_blksz desc)
                (blk_buffer_aligned ops desc) of (ret, st) \<Rightarrow>
           if ret \<noteq> 0 then Some (ret, 0, buffer)
           else do {
             (n, bs) \<leftarrow> io;
             Some (0, n, bounce_buffer_stop (bounce_buffer_received st (blit 0 bs (bounce_buffer_data st))))
           })
      else do { (n, bs) \<leftarrow> io; Some (0, n, blit 0 bs buffer) })"

definition blk_read ::
  "c_heap \<Rightarrow> blk_ops \<Rightarrow> blk_desc \<Rightarrow> buf \<Rightarrow> block_cache \<Rightarrow> u64 \<Rightarrow> u64 \<Rightarrow> buf \<Rightarrow> (int \<times> buf \<times> block_cache) option" where
  "blk_read h ops desc dev c start blkcnt buffer =
     (case op_read ops of
        None \<Rightarrow> Some (- ENOSYS, buffer, c)
      | Some rd \<Rightarrow>
          (case blkcache_read c (d_uclass_id desc) (d_devnum desc) start blkcnt (d_blksz desc) of
             None \<Rightarrow> None
           | Some (Some data, c') \<Rightarrow> Some (to_long (uint blkcnt), blit 0 data buffer, c')
           | Some (None, c') \<Rightarrow> do {
               (ret, blks_read, buffer') \<leftarrow> blk_read_device h ops desc (rd desc dev start blkcnt) blkcnt buffer;
               if ret \<noteq> 0 then Some (ret, buffer', c')
               else if blks_read = blkcnt then do {
                 c'' \<leftarrow> blkcache_fill h c' (d_uclass_id desc) (d_devnum desc) start blkcnt (d_blksz desc) buffer';
                 Some (to_long (uint blks_read), buffer', c'')
               }
               else Some (to_long (uint blks_read), buffer', c')
             }))"

definition blk_write ::
  "c_heap \<Rightarrow> blk_ops \<Rightarrow> blk_desc \<Rightarrow> buf \<Rightarrow> block_cache \<Rightarrow> u64 \<Rightarrow> u64 \<Rightarrow> buf \<Rightarrow> (int \<times> buf \<times> block_cache) option" where
  "blk_write h ops desc dev c start blkcnt buffer =
     (case op_write ops of
        None \<Rightarrow> Some (- ENOSYS, dev, c)
      | Some wr \<Rightarrow>
          (let c' = blkcache_invalidate c (d_uclass_id desc) (d_devnum desc) in
           if d_bb desc then
             (case bounce_buffer_start_extalign h buffer (blkcnt * d_blksz desc) GEN_BB_READ (d_blksz desc)
                     (blk_buffer_aligned ops desc) of (ret, st) \<Rightarrow>
                if ret \<noteq> 0 then Some (ret, dev, c')
                else do { (n, dev') \<leftarrow> wr desc dev start blkcnt (bounce_buffer_data st); Some (to_long (uint n), dev', c') })
           else do { (n, dev') \<leftarrow> wr desc dev start blkcnt buffer; Some (to_long (uint n), dev', c') }))"

definition blk_erase ::
  "blk_ops \<Rightarrow> blk_desc \<Rightarrow> buf \<Rightarrow> block_cache \<Rightarrow> u64 \<Rightarrow> u64 \<Rightarrow> (int \<times> buf \<times> block_cache) option" where
  "blk_erase ops desc dev c start blkcnt =
     (case op_erase ops of
        None \<Rightarrow> Some (- ENOSYS, dev, c)
      | Some er \<Rightarrow>
          (let c' = blkcache_invalidate c (d_uclass_id desc) (d_devnum desc) in
           do { (n, dev') \<leftarrow> er desc dev start blkcnt; Some (to_long (uint n), dev', c') }))"

definition blk_dread ::
  "c_heap \<Rightarrow> blk_ops \<Rightarrow> blk_desc \<Rightarrow> buf \<Rightarrow> block_cache \<Rightarrow> u64 \<Rightarrow> u64 \<Rightarrow> buf \<Rightarrow> (int \<times> buf \<times> block_cache) option" where
  "blk_dread h ops desc dev c start blkcnt buffer =
     map_option (\<lambda>(r, rest). (to_ulong r, rest)) (blk_read h ops desc dev c start blkcnt buffer)"

definition blk_dwrite ::
  "c_heap \<Rightarrow> blk_ops \<Rightarrow> blk_desc \<Rightarrow> buf \<Rightarrow> block_cache \<Rightarrow> u64 \<Rightarrow> u64 \<Rightarrow> buf \<Rightarrow> (int \<times> buf \<times> block_cache) option" where
  "blk_dwrite h ops desc dev c start blkcnt buffer =
     map_option (\<lambda>(r, rest). (to_ulong r, rest)) (blk_write h ops desc dev c start blkcnt buffer)"

definition blk_derase ::
  "blk_ops \<Rightarrow> blk_desc \<Rightarrow> buf \<Rightarrow> block_cache \<Rightarrow> u64 \<Rightarrow> u64 \<Rightarrow> (int \<times> buf \<times> block_cache) option" where
  "blk_derase ops desc dev c start blkcnt =
     map_option (\<lambda>(r, rest). (to_ulong r, rest)) (blk_erase ops desc dev c start blkcnt)"

subsection \<open>Specification\<close>

type_synonym media = "int \<times> int \<Rightarrow> buf"

definition desc_id :: "blk_desc \<Rightarrow> int \<times> int" where
  "desc_id desc = (d_uclass_id desc, d_devnum desc)"

text \<open>A node holds the blocks of its device.\<close>

definition node_coherent :: "media \<Rightarrow> block_cache_node \<Rightarrow> bool" where
  "node_coherent m node \<longleftrightarrow>
     (let n = unat (bn_blkcnt node) * unat (bn_blksz node); p = unat (bn_start node) * unat (bn_blksz node);
          d = m (bn_iftype node, bn_devnum node)
      in n < 2 ^ 64 \<and> unat (bn_start node) + unat (bn_blkcnt node) < 2 ^ 64 \<and> n \<le> length (bn_cache node) \<and>
         p + n \<le> length d \<and> take n (bn_cache node) = chunk p n d)"

definition cache_coherent :: "media \<Rightarrow> block_cache \<Rightarrow> bool" where
  "cache_coherent m c \<longleftrightarrow> (\<forall>node \<in> set (bc_list c). node_coherent m node) \<and>
     unat (st_entries (bc_stats c)) = length (bc_list c)"

text \<open>A request that lies on the device, does not wrap around, and has a buffer with room for the blocks.\<close>

definition blk_req_ok :: "c_heap \<Rightarrow> blk_desc \<Rightarrow> buf \<Rightarrow> u64 \<Rightarrow> u64 \<Rightarrow> buf \<Rightarrow> bool" where
  "blk_req_ok h desc dev start blkcnt buffer \<longleftrightarrow>
     0 < blkcnt \<and> 0 < d_blksz desc \<and> unat start + unat blkcnt < 2 ^ 64 \<and>
     (unat blkcnt + 1) * unat (d_blksz desc) < 2 ^ 64 \<and> unat blkcnt * unat (d_blksz desc) \<le> length buffer \<and>
     unat start * unat (d_blksz desc) + unat blkcnt * unat (d_blksz desc) \<le> length dev \<and>
     (d_bb desc \<longrightarrow> malloc_ok h (unat blkcnt * unat (d_blksz desc)))"

text \<open>Requests to several devices, and what they return and leave on the devices.\<close>

datatype blk_req = Blk_Read blk_desc u64 u64 buf | Blk_Write blk_desc u64 u64 buf

fun blk_serve :: "c_heap \<Rightarrow> blk_ops \<Rightarrow> block_cache \<times> media \<Rightarrow> blk_req \<Rightarrow> ((int \<times> buf) \<times> block_cache \<times> media) option" where
  "blk_serve h ops (c, m) (Blk_Read desc s n buffer) =
     (case blk_read h ops desc (m (desc_id desc)) c s n buffer of
        None \<Rightarrow> None | Some (r, b, c') \<Rightarrow> Some ((r, b), c', m))"
| "blk_serve h ops (c, m) (Blk_Write desc s n buffer) =
     (case blk_write h ops desc (m (desc_id desc)) c s n buffer of
        None \<Rightarrow> None | Some (r, dev, c') \<Rightarrow> Some ((r, buffer), c', m(desc_id desc := dev)))"

fun blk_run :: "c_heap \<Rightarrow> blk_ops \<Rightarrow> block_cache \<times> media \<Rightarrow> blk_req list \<Rightarrow> ((int \<times> buf) list \<times> media) option" where
  "blk_run h ops (c, m) [] = Some ([], m)"
| "blk_run h ops (c, m) (q # qs) =
     (case blk_serve h ops (c, m) q of
        None \<Rightarrow> None
      | Some (r, s) \<Rightarrow> map_option (\<lambda>(rs, m'). (r # rs, m')) (blk_run h ops s qs))"

text \<open>The devices as plain byte sequences.\<close>

fun disk_serve :: "media \<Rightarrow> blk_req \<Rightarrow> (int \<times> buf) \<times> media" where
  "disk_serve m (Blk_Read desc s n buffer) =
     ((to_long (uint n), blit 0 (chunk (unat s * unat (d_blksz desc)) (unat n * unat (d_blksz desc)) (m (desc_id desc))) buffer), m)"
| "disk_serve m (Blk_Write desc s n buffer) =
     ((to_long (uint n), buffer), m(desc_id desc :=
        blit (unat s * unat (d_blksz desc)) (take (unat n * unat (d_blksz desc)) buffer) (m (desc_id desc))))"

fun disk_run :: "media \<Rightarrow> blk_req list \<Rightarrow> (int \<times> buf) list \<times> media" where
  "disk_run m [] = ([], m)"
| "disk_run m (q # qs) =
     (case disk_serve m q of (r, m') \<Rightarrow> (case disk_run m' qs of (rs, m'') \<Rightarrow> (r # rs, m'')))"

fun blk_request_ok :: "c_heap \<Rightarrow> (blk_desc \<Rightarrow> buf \<Rightarrow> bool) \<Rightarrow> media \<Rightarrow> blk_req \<Rightarrow> bool" where
  "blk_request_ok h good m (Blk_Read desc s n buffer) =
     (blk_req_ok h desc (m (desc_id desc)) s n buffer \<and> good desc (m (desc_id desc)))"
| "blk_request_ok h good m (Blk_Write desc s n buffer) =
     (blk_req_ok h desc (m (desc_id desc)) s n buffer \<and> good desc (m (desc_id desc)))"

subsection \<open>Lemmas\<close>

text \<open>
  What the block layer relies on in a driver: on the devices it is made for (\<open>good\<close>), a read and a
  write of blocks of the device transfer all of them.
\<close>

locale blk_driver =
  fixes ops :: blk_ops
    and rd :: "blk_desc \<Rightarrow> buf \<Rightarrow> u64 \<Rightarrow> u64 \<Rightarrow> (u64 \<times> buf) option"
    and wr :: "blk_desc \<Rightarrow> buf \<Rightarrow> u64 \<Rightarrow> u64 \<Rightarrow> buf \<Rightarrow> (u64 \<times> buf) option"
    and good :: "blk_desc \<Rightarrow> buf \<Rightarrow> bool"
  assumes op_rd: "op_read ops = Some rd" and op_wr: "op_write ops = Some wr"
    and rd_serves: "good desc dev \<Longrightarrow> 0 < n \<Longrightarrow>
      unat s * unat (d_blksz desc) + unat n * unat (d_blksz desc) \<le> length dev \<Longrightarrow>
      rd desc dev s n = Some (n, chunk (unat s * unat (d_blksz desc)) (unat n * unat (d_blksz desc)) dev)"
    and wr_serves: "good desc dev \<Longrightarrow> 0 < n \<Longrightarrow> unat n * unat (d_blksz desc) \<le> length b \<Longrightarrow>
      unat s * unat (d_blksz desc) + unat n * unat (d_blksz desc) \<le> length dev \<Longrightarrow>
      wr desc dev s n b = Some (n, blit (unat s * unat (d_blksz desc)) (take (unat n * unat (d_blksz desc)) b) dev)"
    and good_length: "good desc dev \<Longrightarrow> length dev' = length dev \<Longrightarrow> good desc dev'"

lemma extract_split:
  "List.extract P xs = Some (ys, z, zs) \<Longrightarrow> xs = ys @ z # zs \<and> P z"
  by (auto simp: extract_Some_iff)

lemma cache_find_coherent:
  assumes "cache_coherent m c" "cache_find c i d s n b = (r, c')"
  shows "cache_coherent m c'" "r = Some node \<Longrightarrow> node_coherent m node \<and> cache_match i d s n b node"
  using assms
  by (auto simp: cache_find_def cache_coherent_def split: option.splits dest!: extract_split)

lemma stats_coherent [simp]:
  "cache_coherent m (c\<lparr>bc_stats := (bc_stats c)\<lparr>st_hits := x\<rparr>\<rparr>) = cache_coherent m c"
  "cache_coherent m (c\<lparr>bc_stats := (bc_stats c)\<lparr>st_misses := x\<rparr>\<rparr>) = cache_coherent m c"
  by (simp_all add: cache_coherent_def)

text \<open>A hit delivers the bytes of the device, and the range lies on the device.\<close>

lemma match_serves:
  assumes co: "node_coherent m node" and ma: "cache_match i d s n b node"
    and ok: "unat s + unat n < 2 ^ 64" "unat n * unat b < 2 ^ 64"
  shows "unat ((s - bn_start node) * b) + unat (b * n) \<le> length (bn_cache node)"
    and "chunk (unat ((s - bn_start node) * b)) (unat (b * n)) (bn_cache node) =
      chunk (unat s * unat b) (unat n * unat b) (m (i, d))"
    and "unat s * unat b + unat n * unat b \<le> length (m (i, d))"
proof -
  let ?s = "unat (bn_start node)" and ?k = "unat (bn_blkcnt node)" and ?b = "unat b"
  have e: "bn_iftype node = i" "bn_devnum node = d" "bn_blksz node = b" using ma by (auto simp: cache_match_def)
  have c: "?k * ?b < 2 ^ 64" "?s + ?k < 2 ^ 64" "?k * ?b \<le> length (bn_cache node)"
    "?s * ?b + ?k * ?b \<le> length (m (i, d))" "take (?k * ?b) (bn_cache node) = chunk (?s * ?b) (?k * ?b) (m (i, d))"
    using co unfolding node_coherent_def Let_def e by auto
  have le: "?s \<le> unat s" using ma by (simp add: cache_match_def word_le_nat_alt)
  have "unat (s + n) \<le> unat (bn_start node + bn_blkcnt node)" using ma by (simp add: cache_match_def word_le_nat_alt)
  moreover have "unat (s + n) = unat s + unat n" using ok by (simp add: unat_plus_if')
  moreover have "unat (bn_start node + bn_blkcnt node) = ?s + ?k" using c(2) by (simp add: unat_plus_if')
  ultimately have sum: "unat s + unat n \<le> ?s + ?k" by simp
  define o' where "o' = unat s - ?s"
  have os: "unat s = ?s + o'" using le by (simp add: o'_def)
  have ok1: "o' + unat n \<le> ?k" using sum os by simp
  have kb: "o' * ?b + unat n * ?b \<le> ?k * ?b"
    using mult_le_mono1 [OF ok1, of ?b] by (simp add: add_mult_distrib)
  have "unat (s - bn_start node) = o'" using ma by (simp add: cache_match_def unat_sub o'_def)
  moreover have "o' * ?b < 2 ^ 64" using kb c(1) by simp
  ultimately have off: "unat ((s - bn_start node) * b) = o' * ?b" using unat_mult_small [of "s - bn_start node" b] by simp
  have len: "unat (b * n) = unat n * ?b" using unat_mult_small [of n b] ok(2) by (simp add: mult.commute)
  show "unat ((s - bn_start node) * b) + unat (b * n) \<le> length (bn_cache node)" unfolding off len using kb c(3) by simp
  have "chunk (o' * ?b) (unat n * ?b) (bn_cache node) = chunk (o' * ?b) (unat n * ?b) (take (?k * ?b) (bn_cache node))"
    using chunk_chunk [OF kb, of 0 "bn_cache node"] by (simp add: take_eq_chunk)
  also have "\<dots> = chunk (?s * ?b + o' * ?b) (unat n * ?b) (m (i, d))"
    unfolding c(5) by (rule chunk_chunk [OF kb])
  also have "?s * ?b + o' * ?b = unat s * ?b" using os by (simp add: add_mult_distrib)
  finally show "chunk (unat ((s - bn_start node) * b)) (unat (b * n)) (bn_cache node) =
      chunk (unat s * unat b) (unat n * unat b) (m (i, d))" unfolding off len .
  show "unat s * ?b + unat n * ?b \<le> length (m (i, d))"
    using kb c(4) os by (simp add: add_mult_distrib)
qed

lemma blkcache_read_coherent:
  assumes co: "cache_coherent m c" and ok: "unat s + unat n < 2 ^ 64" "unat n * unat b < 2 ^ 64"
  shows "\<exists>r c'. blkcache_read c i d s n b = Some (r, c') \<and> cache_coherent m c' \<and>
    (\<forall>data. r = Some data \<longrightarrow> unat s * unat b + unat n * unat b \<le> length (m (i, d)) \<and>
       data = chunk (unat s * unat b) (unat n * unat b) (m (i, d)))"
proof -
  obtain r c1 where f: "cache_find c i d s n b = (r, c1)" by fastforce
  note cf = cache_find_coherent [OF co f]
  show ?thesis
  proof (cases r)
    case None
    then show ?thesis using cf(1) f by (simp add: blkcache_read_def)
  next
    case (Some node)
    note ms = match_serves [OF cf(2) [OF Some, THEN conjunct1] cf(2) [OF Some, THEN conjunct2] ok]
    show ?thesis using cf(1) f Some ms by (simp add: blkcache_read_def Let_def)
  qed
qed

lemma roundup_multiple:
  assumes "0 < b" and "(unat n + 1) * unat b < 2 ^ 64"
  shows "unat (roundup (n * b) b) = unat n * unat b"
proof -
  let ?n = "unat n" and ?b = "unat b"
  have b0: "0 < ?b" using assms(1) by (simp add: unat_gt_0)
  have lt: "?n * ?b + ?b < 2 ^ 64" using assms(2) by (simp add: add_mult_distrib)
  have nb: "unat (n * b) = ?n * ?b" using unat_mult_small [of n b] lt by simp
  have "unat (b - 1) = ?b - 1" using assms(1) by (simp add: unat_minus_one)
  then have "unat (n * b + (b - 1)) = ?n * ?b + (?b - 1)" 
    using nb lt by (subst unat_plus_if') (simp, linarith)
  moreover have "(?n * ?b + (?b - 1)) div ?b = ?n" using b0 by (subst div_mult_self3) simp_all
  ultimately have q: "unat ((n * b + (b - 1)) div b) = ?n" by (simp add: unat_div)
  show ?thesis unfolding roundup_def using unat_mult_small [of "(n * b + (b - 1)) div b" b] q lt by simp
qed

lemma coherent_drop:
  "cache_coherent m c \<Longrightarrow> bc_list c \<noteq> [] \<Longrightarrow>
    cache_coherent m (c\<lparr>bc_list := butlast (bc_list c), bc_stats := (bc_stats c)\<lparr>st_entries := st_entries (bc_stats c) - 1\<rparr>\<rparr>)"
  by (auto simp: cache_coherent_def dest: in_set_butlastD intro!: unat_minus_one [THEN trans])

lemma blkcache_take_node_coherent:
  assumes "cache_coherent m c" and "0 < st_max_entries (bc_stats c)"
  shows "\<exists>t. blkcache_take_node h c bytes = Some t \<and>
    (\<forall>block c'. t = Some (block, c') \<longrightarrow> cache_coherent m c' \<and> st_entries (bc_stats c') + 1 \<noteq> 0 \<and>
       (\<forall>b. block = Some b \<longrightarrow> unat bytes \<le> length b))"
proof (cases "st_max_entries (bc_stats c) \<le> st_entries (bc_stats c)")
  case True
  have u: "unat (st_entries (bc_stats c)) = length (bc_list c)" using assms(1) by (simp add: cache_coherent_def)
  have "0 < st_entries (bc_stats c)" using True assms(2) by (rule less_le_trans [rotated])
  then have ne: "bc_list c \<noteq> []" using u unat_gt_0 [of "st_entries (bc_stats c)"] by auto
  let ?node = "last (bc_list c)"
  have "node_coherent m ?node" using assms(1) ne by (simp add: cache_coherent_def)
  then have k: "unat (bn_blkcnt ?node) * unat (bn_blksz ?node) < 2 ^ 64"
    "unat (bn_blkcnt ?node) * unat (bn_blksz ?node) \<le> length (bn_cache ?node)"
    by (simp_all add: node_coherent_def Let_def)
  have "unat (bn_blkcnt ?node * bn_blksz ?node) = unat (bn_blkcnt ?node) * unat (bn_blksz ?node)"
    using k(1) by (simp add: unat_mult_small)
  then have "\<not> bn_blkcnt ?node * bn_blksz ?node < bytes \<Longrightarrow> unat bytes \<le> length (bn_cache ?node)"
    using k(2) by (simp add: word_less_nat_alt)
  moreover have "st_entries (bc_stats c) - 1 + 1 \<noteq> 0" using \<open>0 < st_entries (bc_stats c)\<close> by auto
  ultimately show ?thesis
    using True ne coherent_drop [OF assms(1) ne] by (auto simp: blkcache_take_node_def Let_def)
next
  case False
  then have "st_entries (bc_stats c) + 1 \<noteq> 0"
    by (metis add.commute add_eq_0_iff2 linorder_not_le word_order.extremum_strict less_le_trans max_word_max)
  with False show ?thesis using assms(1) by (auto simp: blkcache_take_node_def)
qed

lemma blkcache_store_coherent:
  "cache_coherent m c \<Longrightarrow> st_entries (bc_stats c) + 1 \<noteq> 0 \<Longrightarrow> node_coherent m node \<Longrightarrow>
    cache_coherent m (blkcache_store c node)"
  by (auto simp: cache_coherent_def blkcache_store_def add.commute [of _ 1] unatSuc)

lemma blkcache_fill_coherent:
  assumes co: "cache_coherent m c" and ok: "unat s + unat n < 2 ^ 64" "unat n * unat b < 2 ^ 64" "unat n * unat b \<le> length buffer"
    and data: "unat s * unat b + unat n * unat b \<le> length (m (i, d))"
      "take (unat n * unat b) buffer = chunk (unat s * unat b) (unat n * unat b) (m (i, d))"
  shows "\<exists>c'. blkcache_fill h c i d s n b buffer = Some c' \<and> cache_coherent m c'"
proof (cases "n > ucast (st_max_blocks_per_entry (bc_stats c)) \<or> st_max_entries (bc_stats c) = 0")
  case True
  then show ?thesis using co by (auto simp: blkcache_fill_def)
next
  case False
  have len: "unat (b * n) = unat n * unat b" using unat_mult_small [of n b] ok(2) by (simp add: mult.commute)
  obtain t where t: "blkcache_take_node h c (b * n) = Some t"
    "\<And>block c'. t = Some (block, c') \<Longrightarrow> cache_coherent m c' \<and> st_entries (bc_stats c') + 1 \<noteq> 0 \<and>
       (\<forall>b'. block = Some b' \<longrightarrow> unat (b * n) \<le> length b')"
    using blkcache_take_node_coherent [OF co] False by (metis word_coorder.not_eq_extremum)
  show ?thesis
  proof (cases t)
    case None
    then show ?thesis using False t(1) co by (simp add: blkcache_fill_def Let_def)
  next
    case (Some p)
    obtain block c' where p: "p = (block, c')" by fastforce
    note c' = t(2) [OF Some [unfolded p]]
    let ?blk = "case block of Some b' \<Rightarrow> Some b' | None \<Rightarrow> c_malloc h (unat (b * n))"
    show ?thesis
    proof (cases ?blk)
      case None
      then show ?thesis using False t(1) Some p c' by (simp add: blkcache_fill_def Let_def)
    next
      case (Some b')
      have l: "unat (b * n) \<le> length b'" using Some c' c_malloc_length by (fastforce split: option.splits)
      have "take (unat n * unat b) (blit 0 (take (unat n * unat b) buffer) b') = take (unat n * unat b) buffer"
        using ok(3) by (simp add: blit_def)
      then have "node_coherent m \<lparr>bn_iftype = i, bn_devnum = d, bn_start = s, bn_blkcnt = n,
                          bn_blksz = b, bn_cache = blit 0 (take (unat (b * n)) buffer) b'\<rparr>"
        using ok data l len by (simp add: node_coherent_def Let_def)
      from blkcache_store_coherent [OF _ _ this] show ?thesis
        using False t(1) \<open>t = Some p\<close> p c' Some l len ok(3) by (simp add: blkcache_fill_def Let_def)
    qed
  qed
qed

lemma blkcache_invalidate_coherent:
  assumes "cache_coherent m c"
  shows "cache_coherent (m((i, d) := x)) (blkcache_invalidate c i d)"
proof -
  let ?keep = "filter (\<lambda>node. \<not> (i = - 1 \<or> bn_iftype node = i \<and> bn_devnum node = d)) (bc_list c)"
  let ?k = "length (bc_list c) - length ?keep"
  have u: "unat (st_entries (bc_stats c)) = length (bc_list c)" using assms by (simp add: cache_coherent_def)
  have le: "length ?keep \<le> length (bc_list c)" by (rule length_filter_le)
  have "length (bc_list c) < 2 ^ 32" using unsigned_less [where 'a = nat, of "st_entries (bc_stats c)"] u by simp
  then have "?k < 2 ^ 32" by simp
  then have k: "unat (of_nat ?k :: u32) = ?k" unfolding unat_of_nat by simp
  have "unat (st_entries (bc_stats c) - of_nat ?k) = length (bc_list c) - ?k"
    using k u by (subst unat_sub) (simp_all add: word_le_nat_alt)
  then have "unat (st_entries (bc_stats c) - of_nat ?k) = length ?keep" using le by simp
  moreover have "node_coherent (m((i, d) := x)) node" if "node \<in> set ?keep" for node
  proof -
    have "node_coherent m node" "(bn_iftype node, bn_devnum node) \<noteq> (i, d)"
      using that assms by (auto simp: cache_coherent_def)
    from this(2) have eq: "(m((i, d) := x)) (bn_iftype node, bn_devnum node) = m (bn_iftype node, bn_devnum node)"
      by (rule fun_upd_other)
    show ?thesis using \<open>node_coherent m node\<close> unfolding node_coherent_def eq .
  qed
  ultimately show ?thesis by (simp add: cache_coherent_def blkcache_invalidate_def Let_def)
qed

lemma uint_mod_u64: "uint (x :: u64) mod 2 ^ 64 = uint x"
  using unsigned_less [where 'a = int, of x] by simp

lemma to_ulong_to_long [simp]: "to_ulong (to_long (uint (x :: u64))) = uint x"
  using uint_mod_u64 [of x] unfolding to_long_def to_ulong_def Let_def by simp

lemma to_long_uint_eq: "to_long (uint x) = to_long (uint y) \<longleftrightarrow> x = (y :: u64)"
  by (metis to_ulong_to_long word_uint_eq_iff)

context blk_driver
begin

text \<open>Through a bounce buffer or not, the driver's bytes arrive in the buffer.\<close>

lemma bounce_read:
  assumes ok: "blk_req_ok h desc dev s n buffer" and bb: "d_bb desc" and bs: "length bs = unat n * unat (d_blksz desc)"
  shows "\<exists>st. bounce_buffer_start_extalign h buffer (n * d_blksz desc) GEN_BB_WRITE (d_blksz desc) al = (0, st) \<and>
    bounce_buffer_stop (bounce_buffer_received st (blit 0 bs (bounce_buffer_data st))) = blit 0 bs buffer"
proof -
  let ?n = "unat n * unat (d_blksz desc)"
  have q: "0 < d_blksz desc" "(unat n + 1) * unat (d_blksz desc) < 2 ^ 64" "?n \<le> length buffer" "malloc_ok h ?n"
    using ok bb by (auto simp: blk_req_ok_def)
  have r: "unat (roundup (n * d_blksz desc) (d_blksz desc)) = ?n" using q(1,2) by (rule roundup_multiple)
  have l: "unat (n * d_blksz desc) = ?n" using q(2) by (intro unat_mult_small) simp
  show ?thesis
    using q bs by (auto simp: bounce_buffer_start_extalign_def Let_def c_malloc_def r l bounce_buffer_stop_def
        bounce_buffer_received_def bounce_buffer_data_def blit_def)
qed

lemma blk_read_serves:
  assumes ok: "blk_req_ok h desc (m (desc_id desc)) s n buffer" and co: "cache_coherent m c"
    and good: "good desc (m (desc_id desc))"
  shows "\<exists>c'. blk_read h ops desc (m (desc_id desc)) c s n buffer = Some (to_long (uint n),
      blit 0 (chunk (unat s * unat (d_blksz desc)) (unat n * unat (d_blksz desc)) (m (desc_id desc))) buffer, c') \<and>
    cache_coherent m c'"
proof -
  let ?B = "unat (d_blksz desc)" and ?dev = "m (desc_id desc)"
  let ?n = "unat n * ?B" and ?p = "unat s * ?B"
  let ?bs = "chunk ?p ?n ?dev"
  have q: "0 < n" "unat s + unat n < 2 ^ 64" "?n < 2 ^ 64" "?n \<le> length buffer" "?p + ?n \<le> length ?dev"
    using ok by (auto simp: blk_req_ok_def)
  have lb: "length ?bs = ?n" using q(5) by simp
  have rd: "rd desc ?dev s n = Some (n, ?bs)" using rd_serves [OF good q(1,5)] .
  have id: "m (d_uclass_id desc, d_devnum desc) = ?dev" by (simp add: desc_id_def)
  obtain r0 c0 where br: "blkcache_read c (d_uclass_id desc) (d_devnum desc) s n (d_blksz desc) = Some (r0, c0)"
    "cache_coherent m c0" "\<And>data. r0 = Some data \<Longrightarrow> data = ?bs"
    using blkcache_read_coherent [OF co q(2,3), of "d_uclass_id desc" "d_devnum desc"] id by auto
  show ?thesis
  proof (cases r0)
    case (Some data)
    then show ?thesis using br op_rd by (simp add: blk_read_def)
  next
    case None
    let ?b = "blit 0 ?bs buffer"
    have io: "blk_read_device h ops desc (rd desc ?dev s n) n buffer = Some (0, n, ?b)"
      using bounce_read [OF ok _ lb, of "blk_buffer_aligned ops desc"] rd by (auto simp: blk_read_device_def)
    have "take ?n ?b = ?bs" using lb q(4) by (simp add: blit_def)
    moreover have "?n \<le> length ?b" using lb q(4) by (simp add: blit_def)
    ultimately obtain c' where "blkcache_fill h c0 (d_uclass_id desc) (d_devnum desc) s n (d_blksz desc) ?b = Some c'"
      "cache_coherent m c'"
      using blkcache_fill_coherent [OF br(2) q(2,3), of ?b "d_uclass_id desc" "d_devnum desc"] id q(5) by auto
    then show ?thesis using None br(1) io op_rd unfolding blk_read_def by simp
  qed
qed

lemma blk_write_serves:
  assumes ok: "blk_req_ok h desc dev s n buffer" and good: "good desc dev"
  shows "blk_write h ops desc dev c s n buffer = Some (to_long (uint n),
      blit (unat s * unat (d_blksz desc)) (take (unat n * unat (d_blksz desc)) buffer) dev,
      blkcache_invalidate c (d_uclass_id desc) (d_devnum desc))"
proof -
  let ?n = "unat n * unat (d_blksz desc)" and ?p = "unat s * unat (d_blksz desc)"
  have q: "0 < n" "0 < d_blksz desc" "(unat n + 1) * unat (d_blksz desc) < 2 ^ 64" "?n \<le> length buffer" "?p + ?n \<le> length dev"
    using ok by (auto simp: blk_req_ok_def)
  have r: "unat (roundup (n * d_blksz desc) (d_blksz desc)) = ?n" using q(2,3) by (rule roundup_multiple)
  have l: "unat (n * d_blksz desc) = ?n" using q(3) by (intro unat_mult_small) simp
  have w: "wr desc dev s n b = Some (n, blit ?p (take ?n b) dev)" if "?n \<le> length b" for b
    using wr_serves [OF good q(1) that q(5)] .
  show ?thesis
  proof (cases "d_bb desc")
    case True
    then have m: "malloc_ok h ?n" using ok by (simp add: blk_req_ok_def)
    have b: "blit 0 (take ?n buffer) (map (junk h) [0..<?n]) = take ?n buffer" using q(4) by (simp add: blit_def)
    show ?thesis using True m op_wr w q(4)
      by (auto simp: blk_write_def Let_def bounce_buffer_start_extalign_def c_malloc_def r l bounce_buffer_data_def b)
  next
    case False
    then show ?thesis using op_wr w q(4) by (simp add: blk_write_def Let_def)
  qed
qed

end

context blk_driver
begin

lemma blk_serve_disk:
  assumes "cache_coherent m c" "blk_request_ok h good m q"
  shows "\<exists>c'. blk_serve h ops (c, m) q = Some (fst (disk_serve m q), c', snd (disk_serve m q)) \<and>
    cache_coherent (snd (disk_serve m q)) c'"
proof (cases q)
  case (Blk_Read desc s n buffer)
  then show ?thesis using blk_read_serves [of h desc m s n buffer c] assms by auto
next
  case (Blk_Write desc s n buffer)
  note inv = blkcache_invalidate_coherent [OF assms(1), of "d_uclass_id desc" "d_devnum desc"]
  show ?thesis using Blk_Write blk_write_serves [of h desc "m (desc_id desc)" s n buffer c] assms(2) inv
    by (simp add: desc_id_def)
qed

lemma disk_serve_length:
  "blk_request_ok h good m q \<Longrightarrow> length (snd (disk_serve m q) i) = length (m i)"
  by (cases q) (auto simp: blk_req_ok_def)

lemma blk_request_ok_length:
  assumes "\<And>i. length (m' i) = length (m i)" "blk_request_ok h good m q"
  shows "blk_request_ok h good m' q"
  using assms good_length [OF _ assms(1)] by (cases q) (auto simp: blk_req_ok_def)

lemma blk_run_disk:
  "cache_coherent m c \<Longrightarrow> \<forall>q \<in> set qs. blk_request_ok h good m q \<Longrightarrow> blk_run h ops (c, m) qs = Some (disk_run m qs)"
proof (induction qs arbitrary: m c)
  case (Cons q qs)
  have ok: "blk_request_ok h good m q" using Cons.prems(2) by simp
  obtain c' where c': "blk_serve h ops (c, m) q = Some (fst (disk_serve m q), c', snd (disk_serve m q))"
    "cache_coherent (snd (disk_serve m q)) c'"
    using blk_serve_disk [OF Cons.prems(1) ok] by auto
  have "\<forall>q' \<in> set qs. blk_request_ok h good (snd (disk_serve m q)) q'"
    using Cons.prems(2) blk_request_ok_length [of "snd (disk_serve m q)" m] disk_serve_length [OF ok] by simp
  from Cons.IH [OF c'(2) this] show ?case using c' by (simp split: prod.splits)
qed simp

end

lemma block_cache_initial_coherent: "cache_coherent m block_cache_initial"
  by (simp add: cache_coherent_def block_cache_initial_def)

end
