(* ===== verification/Scsi.thy ===== *)
theory Scsi
  imports Blk
begin

text \<open>
  The SCSI disk driver (\<open>drivers/scsi/scsi.c\<close>), the driver below the block layer on the board,
  whose UFS storage is a SCSI host: the command blocks, reading and writing by READ(10) and WRITE(10)
  commands of limited size, and the detection of a device. The build has no
  \<open>CONFIG_SYS_64BIT_LBA\<close>. The host controller, which executes a command, is a parameter.
\<close>

subsection \<open>Commands\<close>

definition SCSI_TST_U_RDY :: byte where [simp]: "SCSI_TST_U_RDY = 0x00"
definition SCSI_INQUIRY :: byte where [simp]: "SCSI_INQUIRY = 0x12"
definition SCSI_RD_CAPAC10 :: byte where [simp]: "SCSI_RD_CAPAC10 = 0x25"
definition SCSI_READ10 :: byte where [simp]: "SCSI_READ10 = 0x28"
definition SCSI_WRITE10 :: byte where [simp]: "SCSI_WRITE10 = 0x2A"
definition SCSI_RD_CAPAC16 :: byte where [simp]: "SCSI_RD_CAPAC16 = 0x9E"
definition SCSI_SEL_TIME_OUT :: u64 where [simp]: "SCSI_SEL_TIME_OUT = 0x101"
definition SCSI_MAX_BLK :: u64 where [simp]: "SCSI_MAX_BLK = 0xFFFF"

datatype dma_dir = DMA_NONE | DMA_FROM_DEVICE | DMA_TO_DEVICE

record scsi_cmd =
  sc_cmd :: buf
  sc_cmdlen :: u8
  sc_target :: u8
  sc_lun :: u8
  sc_datalen :: u64
  sc_dma_dir :: dma_dir
  sc_contr_stat :: u64

record scsi_plat =
  max_bytes_per_req :: u64

text \<open>
  A host controller executes a command on a device with the given size of a logical block and the
  given bytes, with the data sent to the device. It returns a status, the data received, the new
  bytes of the device and the controller status.
\<close>

type_synonym scsi_host = "u64 \<Rightarrow> scsi_cmd \<Rightarrow> buf \<Rightarrow> buf \<Rightarrow> int \<times> buf \<times> buf \<times> u64"

definition cmd_bytes :: "byte list \<Rightarrow> scsi_cmd \<Rightarrow> scsi_cmd" where
  "cmd_bytes bs pccb = pccb\<lparr>sc_cmd := blit 0 bs (sc_cmd pccb)\<rparr>"

definition scsi_setup_inquiry :: "scsi_cmd \<Rightarrow> scsi_cmd" where
  "scsi_setup_inquiry pccb =
     (cmd_bytes [SCSI_INQUIRY, 0, 0, 0, if sc_datalen pccb > 255 then 255 else ucast (sc_datalen pccb), 0] pccb)\<lparr>sc_cmdlen := 6\<rparr>"

text \<open>\<open>cmd[6]\<close> is set twice and \<open>cmd[9]\<close> not at all.\<close>

definition scsi_setup_read_ext :: "scsi_cmd \<Rightarrow> u64 \<Rightarrow> u16 \<Rightarrow> scsi_cmd" where
  "scsi_setup_read_ext pccb start blocks =
     (cmd_bytes [SCSI_READ10, 0, ucast (drop_bit 24 start), ucast (drop_bit 16 start), ucast (drop_bit 8 start), ucast start,
        0, ucast (drop_bit 8 blocks), ucast blocks] pccb)\<lparr>sc_cmdlen := 10\<rparr>"

definition scsi_setup_write_ext :: "scsi_cmd \<Rightarrow> u64 \<Rightarrow> u16 \<Rightarrow> scsi_cmd" where
  "scsi_setup_write_ext pccb start blocks =
     (cmd_bytes [SCSI_WRITE10, 0, ucast (drop_bit 24 start), ucast (drop_bit 16 start), ucast (drop_bit 8 start), ucast start,
        0, ucast (drop_bit 8 blocks), ucast blocks, 0] pccb)\<lparr>sc_cmdlen := 10\<rparr>"

definition scsi_setup_test_unit_ready :: "scsi_cmd \<Rightarrow> scsi_cmd" where
  "scsi_setup_test_unit_ready pccb = (cmd_bytes [SCSI_TST_U_RDY, 0, 0, 0, 0, 0] pccb)\<lparr>sc_cmdlen := 6\<rparr>"

subsection \<open>Reading and writing\<close>

definition scsi_max_blks :: "scsi_plat \<Rightarrow> blk_desc \<Rightarrow> u64" where
  "scsi_max_blks plat desc =
     (if max_bytes_per_req plat \<noteq> 0 then max_bytes_per_req plat div d_blksz desc else SCSI_MAX_BLK)"

text \<open>One pass of the loop: the bytes and blocks of the command and the blocks left after it.\<close>

definition scsi_split :: "u64 \<Rightarrow> u64 \<Rightarrow> u64 \<Rightarrow> u64 \<times> u16 \<times> u64 \<times> u64" where
  "scsi_split blksz max_blks blks =
     (if blks > max_blks then (blksz * max_blks, ucast max_blks, max_blks, blks - max_blks)
      else (blksz * blks, ucast blks, blks, 0))"

text \<open>The number returned and the bytes stored in the buffer. The loop does not end when \<open>max_blks\<close> is 0.\<close>

partial_function (option) scsi_read_loop ::
  "scsi_host \<Rightarrow> blk_desc \<Rightarrow> buf \<Rightarrow> u64 \<Rightarrow> scsi_cmd \<Rightarrow> u64 \<Rightarrow> u64 \<Rightarrow> u64 \<Rightarrow> buf \<Rightarrow> (u64 \<times> buf) option" where
  "scsi_read_loop exec desc dev max_blks pccb start blks blkcnt acc =
     (case scsi_split (d_blksz desc) max_blks blks of (datalen, smallblks, blocks, blks') \<Rightarrow>
      (let pccb' = scsi_setup_read_ext (pccb\<lparr>sc_dma_dir := DMA_FROM_DEVICE, sc_datalen := datalen\<rparr>) start smallblks in
       case exec (d_blksz desc) pccb' dev [] of (ret, bs, _, _) \<Rightarrow>
         if ret \<noteq> 0 then Some (blkcnt - blks', acc)
         else if blks' \<noteq> 0 then scsi_read_loop exec desc dev max_blks pccb' (start + blocks) blks' blkcnt (acc @ bs)
         else Some (blkcnt, acc @ bs)))"

definition scsi_read ::
  "scsi_host \<Rightarrow> scsi_plat \<Rightarrow> scsi_cmd \<Rightarrow> blk_desc \<Rightarrow> buf \<Rightarrow> u64 \<Rightarrow> u64 \<Rightarrow> (u64 \<times> buf) option" where
  "scsi_read exec plat tempccb desc dev blknr blkcnt =
     (if max_bytes_per_req plat \<noteq> 0 \<and> d_blksz desc = 0 then None
      else scsi_read_loop exec desc dev (scsi_max_blks plat desc)
        (tempccb\<lparr>sc_target := d_target desc, sc_lun := d_lun desc\<rparr>) blknr blkcnt blkcnt [])"

partial_function (option) scsi_write_loop ::
  "scsi_host \<Rightarrow> blk_desc \<Rightarrow> buf \<Rightarrow> u64 \<Rightarrow> scsi_cmd \<Rightarrow> u64 \<Rightarrow> u64 \<Rightarrow> u64 \<Rightarrow> buf \<Rightarrow> (u64 \<times> buf) option" where
  "scsi_write_loop exec desc dev max_blks pccb start blks blkcnt data =
     (case scsi_split (d_blksz desc) max_blks blks of (datalen, smallblks, blocks, blks') \<Rightarrow>
      (let pccb' = scsi_setup_write_ext (pccb\<lparr>sc_dma_dir := DMA_TO_DEVICE, sc_datalen := datalen\<rparr>) start smallblks in
       case exec (d_blksz desc) pccb' dev (take (unat datalen) data) of (ret, _, dev', _) \<Rightarrow>
         if ret \<noteq> 0 then Some (blkcnt - blks', dev')
         else if blks' \<noteq> 0
           then scsi_write_loop exec desc dev' max_blks pccb' (start + blocks) blks' blkcnt (drop (unat datalen) data)
         else Some (blkcnt, dev')))"

definition scsi_write ::
  "scsi_host \<Rightarrow> scsi_plat \<Rightarrow> scsi_cmd \<Rightarrow> blk_desc \<Rightarrow> buf \<Rightarrow> u64 \<Rightarrow> u64 \<Rightarrow> buf \<Rightarrow> (u64 \<times> buf) option" where
  "scsi_write exec plat tempccb desc dev blknr blkcnt data =
     (if max_bytes_per_req plat \<noteq> 0 \<and> d_blksz desc = 0 then None
      else scsi_write_loop exec desc dev (scsi_max_blks plat desc)
        (tempccb\<lparr>sc_target := d_target desc, sc_lun := d_lun desc\<rparr>) blknr blkcnt blkcnt data)"

definition scsi_blk_ops ::
  "scsi_host \<Rightarrow> scsi_plat \<Rightarrow> scsi_cmd \<Rightarrow> (blk_desc \<Rightarrow> bounce_buffer \<Rightarrow> bool) option \<Rightarrow> blk_ops" where
  "scsi_blk_ops exec plat tempccb aligned =
     \<lparr>op_read = Some (scsi_read exec plat tempccb), op_write = Some (scsi_write exec plat tempccb), op_erase = None,
      op_aligned = Some (case aligned of None \<Rightarrow> (\<lambda>_ _. True) | Some f \<Rightarrow> f)\<rparr>"

subsection \<open>Detecting a device\<close>

fun skip_left :: "buf \<Rightarrow> nat \<Rightarrow> nat \<Rightarrow> nat" where
  "skip_left src 0 start = start"
| "skip_left src (Suc k) start = (if src ! start \<noteq> 0x20 then start else skip_left src k (start + 1))"

fun skip_right :: "buf \<Rightarrow> nat \<Rightarrow> nat \<Rightarrow> nat" where
  "skip_right src start 0 = 0"
| "skip_right src start (Suc en) =
     (if Suc en > start then (if src ! Suc en \<noteq> 0x20 then Suc en else skip_right src start en) else Suc en)"

text \<open>The string stored in \<open>dest\<close>, with its NUL.\<close>

definition scsi_ident_cpy :: "buf \<Rightarrow> nat \<Rightarrow> buf" where
  "scsi_ident_cpy src len =
     (let start = skip_left src len 0; en = skip_right src start (len - 1)
      in map ((!) src) [start..<en + 1] @ [0])"

text \<open>A big-endian number of the bytes.\<close>

definition be_u64 :: "buf \<Rightarrow> u64" where
  "be_u64 bs = of_nat (le_nat (rev bs))"

text \<open>
  While a device is detected, the answers of the host controller to the commands, numbered from 0, are
  a status, data and the controller status. Data arrives in \<open>tempbuff\<close>.
\<close>

type_synonym scsi_answers = "nat \<Rightarrow> scsi_cmd \<Rightarrow> int \<times> buf \<times> u64"

definition scsi_exec :: "scsi_answers \<Rightarrow> nat \<Rightarrow> scsi_cmd \<Rightarrow> buf \<Rightarrow> int \<times> buf \<times> u64" where
  "scsi_exec answers t pccb tempbuff =
     (case answers t pccb of (ret, bs, stat) \<Rightarrow> (ret, blit 0 (take (unat (sc_datalen pccb)) bs) tempbuff, stat))"

text \<open>The capacity and the block size, or \<^const>\<open>None\<close> when the call returns 1.\<close>

definition scsi_read_capacity :: "scsi_answers \<Rightarrow> nat \<Rightarrow> scsi_cmd \<Rightarrow> buf \<Rightarrow> (u64 \<times> u64) option" where
  "scsi_read_capacity answers t pccb tempbuff =
     (let pccb' = (cmd_bytes [SCSI_RD_CAPAC10, 0] (pccb\<lparr>sc_cmd := replicate 16 0\<rparr>))
                    \<lparr>sc_cmdlen := 10, sc_dma_dir := DMA_FROM_DEVICE, sc_datalen := 8\<rparr>
      in case scsi_exec answers t pccb' tempbuff of (ret, pdata, _) \<Rightarrow>
      if ret \<noteq> 0 then None
      else if be_u64 (chunk 0 4 pdata) \<noteq> 0xffffffff
      then Some (be_u64 (chunk 0 4 pdata) + 1, be_u64 (chunk 4 4 pdata))
      else
        (let pccb'' = (cmd_bytes [SCSI_RD_CAPAC16, 0x10] (pccb'\<lparr>sc_cmd := replicate 16 0\<rparr>))
                     \<lparr>sc_cmdlen := 16, sc_datalen := 16, sc_dma_dir := DMA_FROM_DEVICE\<rparr>
         in case scsi_exec answers (t + 1) pccb'' pdata of (ret, pdata', _) \<Rightarrow>
         if ret \<noteq> 0 then None
         else Some (be_u64 (chunk 0 8 pdata') + 1, be_u64 (chunk 8 8 pdata'))))"

record scsi_dev_desc =
  sd_removable :: bool
  sd_vendor :: buf
  sd_product :: buf
  sd_revision :: buf
  sd_target :: u8
  sd_lun :: u8
  sd_lba :: u64
  sd_blksz :: u64
  sd_log2blksz :: nat
  sd_type :: u8
  sd_bb :: bool

definition LOG2 :: "u64 \<Rightarrow> nat" where
  "LOG2 x = (if x AND 0xaaaaaaaa \<noteq> 0 then 1 else 0) + (if x AND 0xcccccccc \<noteq> 0 then 2 else 0) +
     (if x AND 0xf0f0f0f0 \<noteq> 0 then 4 else 0) + (if x AND 0xff00ff00 \<noteq> 0 then 8 else 0) +
     (if x AND 0xffff0000 \<noteq> 0 then 16 else 0)"

text \<open>\<open>LOG2_INVALID\<close> of an \<open>int\<close> is 31.\<close>

definition scsi_init_dev_desc_priv :: scsi_dev_desc where
  "scsi_init_dev_desc_priv = \<lparr>sd_removable = False, sd_vendor = [0], sd_product = [0], sd_revision = [0], sd_target = 0xff,
     sd_lun = 0xff, sd_lba = 0, sd_blksz = 0, sd_log2blksz = 31, sd_type = 0xff, sd_bb = True\<rparr>"

text \<open>The status of the last TEST UNIT READY, at most \<open>k\<close> of them, and the number of the next command.\<close>

fun scsi_unit_ready :: "scsi_answers \<Rightarrow> nat \<Rightarrow> scsi_cmd \<Rightarrow> buf \<Rightarrow> nat \<Rightarrow> int \<times> nat" where
  "scsi_unit_ready answers t pccb tempbuff 0 = (0, t)"
| "scsi_unit_ready answers t pccb tempbuff (Suc k) =
     (case scsi_exec answers t (scsi_setup_test_unit_ready (pccb\<lparr>sc_datalen := 0, sc_dma_dir := DMA_NONE\<rparr>)) tempbuff of
        (err, _, _) \<Rightarrow> if err = 0 \<or> k = 0 then (err, t + 1) else scsi_unit_ready answers (t + 1) pccb tempbuff k)"

definition ETIMEDOUT :: int where [simp]: "ETIMEDOUT = 110"

definition scsi_detect_dev ::
  "scsi_answers \<Rightarrow> scsi_cmd \<Rightarrow> buf \<Rightarrow> u8 \<Rightarrow> u8 \<Rightarrow> scsi_dev_desc \<Rightarrow> int \<times> scsi_dev_desc" where
  "scsi_detect_dev answers tempccb tempbuff target lun desc =
     (let pccb = scsi_setup_inquiry (tempccb\<lparr>sc_target := target, sc_lun := lun, sc_datalen := 512,
                   sc_dma_dir := DMA_FROM_DEVICE\<rparr>)
      in case scsi_exec answers 0 pccb tempbuff of (ret, tb, stat) \<Rightarrow>
      if ret \<noteq> 0 then (if stat = SCSI_SEL_TIME_OUT then - ETIMEDOUT else - ENODEV, desc)
      else
        (let perq = tb ! 0; modi = tb ! 1 in
         if perq AND 0x1f = 0x1f then (- ENODEV, desc)
         else
           (let desc1 = desc\<lparr>sd_removable := (sd_removable desc \<or> modi AND 0x80 = 0x80),
                  sd_vendor := scsi_ident_cpy (chunk 8 8 tb) 8, sd_product := scsi_ident_cpy (chunk 16 16 tb) 16,
                  sd_revision := scsi_ident_cpy (chunk 32 4 tb) 4, sd_target := target, sd_lun := lun\<rparr>
            in case scsi_unit_ready answers 1 pccb tb 3 of (err, t) \<Rightarrow>
               if err \<noteq> 0 then (if sd_removable desc1 then (0, desc1\<lparr>sd_type := perq\<rparr>) else (- EINVAL, desc1))
               else
                 (case scsi_read_capacity answers t pccb tb of
                    None \<Rightarrow> (- EINVAL, desc1)
                  | Some (capacity, blksz) \<Rightarrow>
                      (0, desc1\<lparr>sd_lba := capacity, sd_blksz := blksz, sd_log2blksz := LOG2 blksz, sd_type := perq\<rparr>)))))"

subsection \<open>Specification\<close>

text \<open>A disk that executes READ(10) and WRITE(10) as the SCSI block commands define them.\<close>

definition be_field :: "nat \<Rightarrow> nat \<Rightarrow> buf \<Rightarrow> nat" where
  "be_field off n b = le_nat (rev (chunk off n b))"

definition scsi_disk :: scsi_host where
  "scsi_disk blksz cmd dev out =
     (let p = be_field 2 4 (sc_cmd cmd) * unat blksz; k = be_field 7 2 (sc_cmd cmd) * unat blksz in
      if sc_cmd cmd ! 0 = SCSI_READ10 \<and> p + k \<le> length dev \<and> unat (sc_datalen cmd) = k
      then (0, chunk p k dev, dev, 0)
      else if sc_cmd cmd ! 0 = SCSI_WRITE10 \<and> p + k \<le> length dev \<and> length out = k
      then (0, [], blit p out dev, 0)
      else (- 5, [], dev, 0))"

text \<open>A device that the driver's commands can reach: 32-bit block numbers and at most 65535 blocks in a command.\<close>

definition scsi_good :: "scsi_plat \<Rightarrow> blk_desc \<Rightarrow> buf \<Rightarrow> bool" where
  "scsi_good plat desc dev \<longleftrightarrow> 0 < d_blksz desc \<and> 0 < scsi_max_blks plat desc \<and> scsi_max_blks plat desc \<le> 0xFFFF \<and>
     unat (d_blksz desc) \<le> 2 ^ 32 \<and> length dev \<le> 2 ^ 32 * unat (d_blksz desc)"

text \<open>What the driver relies on in a host controller.\<close>

definition scsi_host_ok :: "scsi_host \<Rightarrow> bool" where
  "scsi_host_ok exec \<longleftrightarrow>
     (\<forall>blksz cmd dev out. let p = be_field 2 4 (sc_cmd cmd) * unat blksz; k = be_field 7 2 (sc_cmd cmd) * unat blksz in
        (sc_cmd cmd ! 0 = SCSI_READ10 \<and> p + k \<le> length dev \<and> unat (sc_datalen cmd) = k \<longrightarrow>
           (\<exists>st. exec blksz cmd dev out = (0, chunk p k dev, dev, st))) \<and>
        (sc_cmd cmd ! 0 = SCSI_WRITE10 \<and> p + k \<le> length dev \<and> length out = k \<longrightarrow>
           (\<exists>bs st. exec blksz cmd dev out = (0, bs, blit p out dev, st))))"

definition scsi_ex_desc :: blk_desc where
  "scsi_ex_desc = \<lparr>d_uclass_id = 1, d_devnum = 0, d_blksz = 2, d_bb = True, d_target = 0, d_lun = 4, d_part_type = 0\<rparr>"

definition scsi_ex_plat :: scsi_plat where
  "scsi_ex_plat = \<lparr>max_bytes_per_req = 4\<rparr>"

definition scsi_ex_cmd :: scsi_cmd where
  "scsi_ex_cmd = \<lparr>sc_cmd = replicate 16 0, sc_cmdlen = 0, sc_target = 0, sc_lun = 0, sc_datalen = 0,
     sc_dma_dir = DMA_NONE, sc_contr_stat = 0\<rparr>"

definition scsi_broken :: scsi_host where
  "scsi_broken blksz cmd dev out = (- 5, [], dev, 0)"

subsection \<open>Lemmas\<close>

lemma unat_ucast_byte: "unat (ucast (x :: 'a::len word) :: byte) = unat x mod 256"
  by (simp add: unsigned_ucast_eq take_bit_eq_mod)

lemma digits_256:
  "x mod 256 + 256 * (x div 256 mod 256) = x mod (65536 :: nat)"
  "x mod 256 + 256 * (x div 256 mod 256 + 256 * (x div 65536 mod 256 + 256 * (x div 16777216 mod 256))) = x mod (4294967296 :: nat)"
proof -
  have a: "x div 256 mod 256 + 256 * (x div 65536 mod 256 + 256 * (x div 16777216 mod 256)) = x div 256 mod 16777216" for x :: nat
  proof -
    have "x div 65536 mod 256 + 256 * (x div 16777216 mod 256) = x div 65536 mod 65536"
      using mod_mult2_eq [of "x div 65536" 256 256] by (simp add: div_mult2_eq [symmetric])
    then show ?thesis using mod_mult2_eq [of "x div 256" 256 65536] by (simp add: div_mult2_eq [symmetric])
  qed
  show "x mod 256 + 256 * (x div 256 mod 256) = x mod 65536" using mod_mult2_eq [of x 256 256] by simp
  show "x mod 256 + 256 * (x div 256 mod 256 + 256 * (x div 65536 mod 256 + 256 * (x div 16777216 mod 256))) = x mod 4294967296"
    unfolding a using mod_mult2_eq [of x 256 16777216] by simp
qed

lemma read_ext_fields:
  "sc_cmd (scsi_setup_read_ext pccb s n) ! 0 = SCSI_READ10"
  "be_field 2 4 (sc_cmd (scsi_setup_read_ext pccb s n)) = unat s mod 2 ^ 32"
  "be_field 7 2 (sc_cmd (scsi_setup_read_ext pccb s n)) = unat n"
  "sc_datalen (scsi_setup_read_ext pccb s n) = sc_datalen pccb"
  using digits_256(1) [of "unat n"] digits_256(2) [of "unat s"] unsigned_less [where 'a = nat, of n]
  by (simp_all add: scsi_setup_read_ext_def cmd_bytes_def be_field_def chunk_def blit_def unat_drop_bit unat_ucast_byte)

lemma write_ext_fields:
  "sc_cmd (scsi_setup_write_ext pccb s n) ! 0 = SCSI_WRITE10"
  "be_field 2 4 (sc_cmd (scsi_setup_write_ext pccb s n)) = unat s mod 2 ^ 32"
  "be_field 7 2 (sc_cmd (scsi_setup_write_ext pccb s n)) = unat n"
  using digits_256(1) [of "unat n"] digits_256(2) [of "unat s"] unsigned_less [where 'a = nat, of n]
  by (simp_all add: scsi_setup_write_ext_def cmd_bytes_def be_field_def chunk_def blit_def unat_drop_bit unat_ucast_byte)

text \<open>One command transfers a positive number of blocks, as many as its fields say.\<close>

lemma scsi_split_blocks:
  assumes "0 < mx" "mx \<le> 0xFFFF" "0 < blks" "unat bsz \<le> 2 ^ 32"
  obtains dl sm bl r where "scsi_split bsz mx blks = (dl, sm, bl, r)"
    "unat sm = unat bl" "unat dl = unat bl * unat bsz" "0 < bl" "unat blks = unat bl + unat r"
proof -
  define bl where "bl = (if blks > mx then mx else blks)"
  have b: "unat bl \<le> 0xFFFF" using assms(2) unfolding bl_def by (auto simp: word_le_nat_alt word_less_nat_alt)
  have "unat bl * unat bsz \<le> 0xFFFF * 2 ^ 32" using b assms(4) by (rule mult_le_mono)
  then have d: "unat (bsz * bl) = unat bl * unat bsz" using unat_mult_small [of bsz bl] by (simp add: mult.commute)
  have s: "unat (ucast bl :: u16) = unat bl" using b by (simp add: unsigned_ucast_eq take_bit_nat_eq_self)
  have r: "unat blks = unat bl + unat (blks - bl)"
    unfolding bl_def by (auto simp: unat_sub word_le_nat_alt word_less_nat_alt)
  have "scsi_split bsz mx blks = (bsz * bl, ucast bl, bl, blks - bl)"
    unfolding scsi_split_def bl_def by auto
  moreover have "0 < bl" using assms(1,3) by (simp add: bl_def)
  ultimately show ?thesis using that d s r by blast
qed

lemma scsi_disk_ok: "scsi_host_ok scsi_disk"
  by (simp add: scsi_host_ok_def scsi_disk_def Let_def)

lemma scsi_host_read:
  assumes "scsi_host_ok exec" "sc_cmd cmd ! 0 = SCSI_READ10" "be_field 2 4 (sc_cmd cmd) = l" "be_field 7 2 (sc_cmd cmd) = k"
    "l * unat blksz + k * unat blksz \<le> length dev" "unat (sc_datalen cmd) = k * unat blksz"
  obtains st where "exec blksz cmd dev out = (0, chunk (l * unat blksz) (k * unat blksz) dev, dev, st)"
  using assms unfolding scsi_host_ok_def Let_def by blast

lemma scsi_host_write:
  assumes "scsi_host_ok exec" "sc_cmd cmd ! 0 = SCSI_WRITE10" "be_field 2 4 (sc_cmd cmd) = l" "be_field 7 2 (sc_cmd cmd) = k"
    "l * unat blksz + k * unat blksz \<le> length dev" "length out = k * unat blksz"
  obtains bs st where "exec blksz cmd dev out = (0, bs, blit (l * unat blksz) out dev, st)"
  using assms unfolding scsi_host_ok_def Let_def by blast

lemma scsi_start_small:
  assumes "0 < k" "0 < bsz" "s * bsz + k * bsz \<le> len" "len \<le> 2 ^ 32 * bsz"
  shows "s mod 2 ^ 32 = (s :: nat)"
proof -
  have "(s + k) * bsz \<le> 2 ^ 32 * bsz" using assms(3,4) by (simp add: add_mult_distrib)
  then have "s + k \<le> 2 ^ 32" using assms(2) by (metis mult_le_cancel2 not_less_zero neq0_conv)
  then show ?thesis using assms(1) by simp
qed

lemma unat_next:
  assumes "unat (s :: u64) mod 2 ^ 32 = unat s" and "unat k \<le> 0xFFFF"
  shows "unat (s + k) = unat s + unat k"
proof -
  have "unat s < 2 ^ 32" using assms(1) by (metis mod_less_divisor zero_less_numeral zero_less_power)
  then have "unat s + unat k < 2 ^ 64" using assms(2) by simp
  then show ?thesis by (simp add: unat_plus_if')
qed

lemma scsi_read_loop_serves:
  assumes host: "scsi_host_ok exec" and mx: "0 < mx" "mx \<le> 0xFFFF"
    and bsz: "0 < d_blksz desc" "unat (d_blksz desc) \<le> 2 ^ 32" and len: "length dev \<le> 2 ^ 32 * unat (d_blksz desc)"
  shows "0 < blks \<Longrightarrow> unat s * unat (d_blksz desc) + unat blks * unat (d_blksz desc) \<le> length dev \<Longrightarrow>
    scsi_read_loop exec desc dev mx pccb s blks n acc =
      Some (n, acc @ chunk (unat s * unat (d_blksz desc)) (unat blks * unat (d_blksz desc)) dev)"
proof (induction "unat blks" arbitrary: blks s pccb acc rule: less_induct)
  case less
  let ?B = "unat (d_blksz desc)"
  obtain dl sm bl r where sp: "scsi_split (d_blksz desc) mx blks = (dl, sm, bl, r)"
    "unat sm = unat bl" "unat dl = unat bl * ?B" "0 < bl" "unat blks = unat bl + unat r"
    using scsi_split_blocks [OF mx less.prems(1) bsz(2)] .
  have B: "0 < ?B" "0 < unat bl" "unat bl \<le> 0xFFFF"
    using bsz(1) sp(2,4) unsigned_less [where 'a = nat, of sm] by (simp_all add: unat_gt_0)
  have fit: "unat s * ?B + unat bl * ?B + unat r * ?B \<le> length dev"
    using less.prems(2) sp(5) by (simp add: add_mult_distrib)
  then have s: "unat s mod 2 ^ 32 = unat s" using scsi_start_small [OF B(2,1) _ len, of "unat s"] by simp
  let ?p = "scsi_setup_read_ext (pccb\<lparr>sc_dma_dir := DMA_FROM_DEVICE, sc_datalen := dl\<rparr>) s sm"
  obtain st where ex: "exec (d_blksz desc) ?p dev [] = (0, chunk (unat s * ?B) (unat bl * ?B) dev, dev, st)"
    using scsi_host_read [OF host, of ?p "unat s" "unat bl" "d_blksz desc" dev] fit s sp(2,3)
    by (auto simp: read_ext_fields)
  show ?case
  proof (cases "r = 0")
    case True
    then show ?thesis using ex sp by (subst scsi_read_loop.simps) (auto simp: Let_def)
  next
    case False
    have n: "unat (s + bl) = unat s + unat bl" using s B(3) by (rule unat_next)
    have "scsi_read_loop exec desc dev mx ?p (s + bl) r n (acc @ chunk (unat s * ?B) (unat bl * ?B) dev) =
      Some (n, (acc @ chunk (unat s * ?B) (unat bl * ?B) dev) @ chunk (unat (s + bl) * ?B) (unat r * ?B) dev)"
      using False sp(5) B(2) fit n by (intro less.hyps) (auto simp: unat_gt_0 word_gt_0 add_mult_distrib)
    moreover have "chunk (unat s * ?B) (unat bl * ?B) dev @ chunk (unat (s + bl) * ?B) (unat r * ?B) dev =
        chunk (unat s * ?B) (unat blks * ?B) dev"
      using chunk_append_chunk [of "unat s * ?B" "unat bl * ?B" dev "unat r * ?B"] n sp(5) by (simp add: add_mult_distrib)
    ultimately show ?thesis using False ex sp by (subst scsi_read_loop.simps) (auto simp: Let_def)
  qed
qed

lemma scsi_write_loop_serves:
  assumes host: "scsi_host_ok exec" and mx: "0 < mx" "mx \<le> 0xFFFF"
    and bsz: "0 < d_blksz desc" "unat (d_blksz desc) \<le> 2 ^ 32"
  shows "0 < blks \<Longrightarrow> unat s * unat (d_blksz desc) + unat blks * unat (d_blksz desc) \<le> length dev \<Longrightarrow>
    length dev \<le> 2 ^ 32 * unat (d_blksz desc) \<Longrightarrow> unat blks * unat (d_blksz desc) \<le> length data \<Longrightarrow>
    scsi_write_loop exec desc dev mx pccb s blks n data =
      Some (n, blit (unat s * unat (d_blksz desc)) (take (unat blks * unat (d_blksz desc)) data) dev)"
proof (induction "unat blks" arbitrary: blks s pccb data dev rule: less_induct)
  case less
  let ?B = "unat (d_blksz desc)"
  obtain dl sm bl r where sp: "scsi_split (d_blksz desc) mx blks = (dl, sm, bl, r)"
    "unat sm = unat bl" "unat dl = unat bl * ?B" "0 < bl" "unat blks = unat bl + unat r"
    using scsi_split_blocks [OF mx less.prems(1) bsz(2)] .
  have B: "0 < ?B" "0 < unat bl" "unat bl \<le> 0xFFFF"
    using bsz(1) sp(2,4) unsigned_less [where 'a = nat, of sm] by (simp_all add: unat_gt_0)
  have fit: "unat s * ?B + unat bl * ?B + unat r * ?B \<le> length dev" "unat bl * ?B + unat r * ?B \<le> length data"
    using less.prems(2,4) sp(5) by (simp_all add: add_mult_distrib)
  then have s: "unat s mod 2 ^ 32 = unat s" using scsi_start_small [OF B(2,1) _ less.prems(3), of "unat s"] by simp
  let ?p = "scsi_setup_write_ext (pccb\<lparr>sc_dma_dir := DMA_TO_DEVICE, sc_datalen := dl\<rparr>) s sm"
  let ?x = "take (unat bl * ?B) data"
  have lx: "length ?x = unat bl * ?B" using fit(2) by simp
  define d where "d = blit (unat s * ?B) ?x dev"
  obtain bs st where ex: "exec (d_blksz desc) ?p dev ?x = (0, bs, d, st)"
    using scsi_host_write [OF host, of ?p "unat s" "unat bl" "d_blksz desc" dev ?x] fit s sp(2) lx
    unfolding d_def by (auto simp: write_ext_fields)
  show ?case
  proof (cases "r = 0")
    case True
    then show ?thesis using ex sp by (subst scsi_write_loop.simps) (auto simp: Let_def d_def)
  next
    case False
    have n: "unat (s + bl) = unat s + unat bl" using s B(3) by (rule unat_next)
    have ld: "length d = length dev" unfolding d_def using fit(1) lx by simp
    let ?y = "take (unat r * ?B) (drop (unat bl * ?B) data)"
    have "scsi_write_loop exec desc d mx ?p (s + bl) r n (drop (unat bl * ?B) data) = Some (n, blit (unat (s + bl) * ?B) ?y d)"
      using False sp(5) B(2) fit n ld less.prems(3)
      by (intro less.hyps) (auto simp: unat_gt_0 word_gt_0 add_mult_distrib)
    moreover have "blit (unat (s + bl) * ?B) ?y d = blit (unat s * ?B) (?x @ ?y) dev"
      using blit_adjacent [of "unat s * ?B" ?x dev ?y] fit lx n unfolding d_def by (simp add: add_mult_distrib)
    moreover have "?x @ ?y = take (unat blks * ?B) data" using sp(5) by (simp add: add_mult_distrib take_add)
    ultimately show ?thesis using False ex sp by (subst scsi_write_loop.simps) (auto simp: Let_def)
  qed
qed

lemma scsi_blk_driver:
  assumes "scsi_host_ok exec"
  shows "blk_driver (scsi_blk_ops exec plat pccb al) (scsi_read exec plat pccb) (scsi_write exec plat pccb) (scsi_good plat)"
proof
  fix desc dev and s n :: u64 and b :: "byte list"
  assume g: "scsi_good plat desc dev" and n: "0 < n"
    and fit: "unat s * unat (d_blksz desc) + unat n * unat (d_blksz desc) \<le> length dev"
  have d: "0 < scsi_max_blks plat desc" "scsi_max_blks plat desc \<le> 0xFFFF" "0 < d_blksz desc" "unat (d_blksz desc) \<le> 2 ^ 32"
    "length dev \<le> 2 ^ 32 * unat (d_blksz desc)" using g by (auto simp: scsi_good_def)
  show "scsi_read exec plat pccb desc dev s n =
      Some (n, chunk (unat s * unat (d_blksz desc)) (unat n * unat (d_blksz desc)) dev)"
    using scsi_read_loop_serves [OF assms d n fit] d(3) by (auto simp: scsi_read_def)
  assume l: "unat n * unat (d_blksz desc) \<le> length b"
  show "scsi_write exec plat pccb desc dev s n b =
      Some (n, blit (unat s * unat (d_blksz desc)) (take (unat n * unat (d_blksz desc)) b) dev)"
    using scsi_write_loop_serves [OF assms d(1-4) n fit d(5) l] d(3) by (auto simp: scsi_write_def)
qed (auto simp: scsi_blk_ops_def scsi_good_def)

interpretation scsi: blk_driver "scsi_blk_ops scsi_disk plat pccb al" "scsi_read scsi_disk plat pccb"
  "scsi_write scsi_disk plat pccb" "scsi_good plat"
  by (rule scsi_blk_driver [OF scsi_disk_ok])

text \<open>C24: reads and writes of any number of devices through the block cache and the bounce buffers return what a
  plain byte sequence for each device returns, and leave the same bytes on the devices.\<close>

theorem blk_cache_transparent:
  assumes "blk_driver ops rd wr good" and "\<forall>q \<in> set qs. blk_request_ok h good m q"
  shows "blk_run h ops (block_cache_initial, m) qs = Some (disk_run m qs)"
  using blk_driver.blk_run_disk [OF assms(1) block_cache_initial_coherent assms(2)] .

text \<open>C25: with a host controller that executes READ(10) and WRITE(10), a read and a write of any number of blocks of the
  device end, return that number and transfer exactly those blocks, in commands of a limited size.\<close>

theorem scsi_transfer:
  assumes "scsi_host_ok exec" and "scsi_good plat desc dev" and "0 < n"
    and "unat s * unat (d_blksz desc) + unat n * unat (d_blksz desc) \<le> length dev"
    and "unat n * unat (d_blksz desc) \<le> length data"
  shows "scsi_read exec plat pccb desc dev s n =
      Some (n, chunk (unat s * unat (d_blksz desc)) (unat n * unat (d_blksz desc)) dev) \<and>
    scsi_write exec plat pccb desc dev s n data =
      Some (n, blit (unat s * unat (d_blksz desc)) (take (unat n * unat (d_blksz desc)) data) dev)"
  using blk_driver.rd_serves [OF scsi_blk_driver [OF assms(1)] assms(2-4)]
    blk_driver.wr_serves [OF scsi_blk_driver [OF assms(1)] assms(2,3,5,4)] by blast

text \<open>C26: a read of up to \<open>max_blks\<close> blocks that the device fails is reported as if all blocks had been read, though no
  byte was stored: the blocks of the failed command are not subtracted.\<close>

theorem scsi_read_error_hidden:
  assumes "n \<le> scsi_max_blks plat desc" and "max_bytes_per_req plat \<noteq> 0 \<longrightarrow> d_blksz desc \<noteq> 0"
    and "\<forall>cmd. fst (exec (d_blksz desc) cmd dev []) \<noteq> 0"
  shows "scsi_read exec plat pccb desc dev s n = Some (n, [])"
proof -
  have "scsi_split (d_blksz desc) (scsi_max_blks plat desc) n = (d_blksz desc * n, ucast n, n, 0)"
    using assms(1) by (auto simp: scsi_split_def)
  then show ?thesis using assms(2,3) unfolding scsi_read_def
    by (subst scsi_read_loop.simps) (auto simp: Let_def split: prod.splits, (metis fst_conv)+)
qed

lemma scsi_ex_good: "length dev \<le> 1000 \<Longrightarrow> scsi_good scsi_ex_plat scsi_ex_desc dev"
  by (simp add: scsi_good_def scsi_max_blks_def scsi_ex_plat_def scsi_ex_desc_def)

theorem scsi_transfer_witness:
  "scsi_read scsi_disk scsi_ex_plat scsi_ex_cmd scsi_ex_desc [1, 2, 3, 4, 5, 6, 7, 8] 1 3 = Some (3, [3, 4, 5, 6, 7, 8])"
  using scsi_transfer [OF scsi_disk_ok scsi_ex_good, of "[1, 2, 3, 4, 5, 6, 7, 8]" 3 1 "[0, 0, 0, 0, 0, 0]"]
  by (simp add: scsi_ex_desc_def chunk_def)

theorem scsi_read_error_hidden_witness:
  "scsi_read scsi_broken scsi_ex_plat scsi_ex_cmd scsi_ex_desc [1, 2, 3, 4] 0 2 = Some (2, [])"
  using scsi_read_error_hidden [of 2 scsi_ex_plat scsi_ex_desc scsi_broken "[1, 2, 3, 4]" scsi_ex_cmd 0]
  by (simp add: scsi_max_blks_def scsi_ex_plat_def scsi_ex_desc_def scsi_broken_def)

theorem blk_cache_transparent_witness:
  "map_option fst (blk_run heap_ok (scsi_blk_ops scsi_disk scsi_ex_plat scsi_ex_cmd None) (block_cache_initial, \<lambda>_. [1, 2, 3, 4])
     [Blk_Read scsi_ex_desc 0 2 [0, 0, 0, 0], Blk_Write scsi_ex_desc 1 1 [8, 9], Blk_Read scsi_ex_desc 1 1 [0, 0]]) =
   Some [(2, [1, 2, 3, 4]), (1, [8, 9]), (1, [8, 9])]"
proof -
  let ?qs = "[Blk_Read scsi_ex_desc 0 2 [0, 0, 0, 0], Blk_Write scsi_ex_desc 1 1 [8, 9], Blk_Read scsi_ex_desc 1 1 [0, 0]]"
  have "\<forall>q \<in> set ?qs. blk_request_ok heap_ok (scsi_good scsi_ex_plat) (\<lambda>_. [1, 2, 3, 4]) q"
    using scsi_ex_good by (simp add: blk_req_ok_def scsi_ex_desc_def heap_ok_def)
  from blk_cache_transparent [OF scsi_blk_driver [OF scsi_disk_ok] this]
  show ?thesis by (simp add: scsi_ex_desc_def desc_id_def chunk_def blit_def to_long_def)
qed

end
