(* ===== verification/Efs.thy ===== *)
theory Efs
  imports Prelude "HOL-Library.Monad_Syntax"
begin

text \<open>
  The reader of the modem's EFS file system, board/particle/tachyon/efs_data.h, efs_impl.h and
  efs_impl.c. The packed structures stay the bytes they are on the disk; a field is read with its
  offset and width. \<open>ops.read\<close> is the parameter \<open>rd\<close>: for an offset and a size it gives the value it
  returns and the bytes it stores. Positions, sizes and sector numbers are integers, with the
  conversions between \<open>loff_t\<close> and \<open>size_t\<close> written out. A result \<^term>\<open>None\<close> means that the code
  follows a null pointer, leaves a buffer, divides by zero or does not return. Logging is left out.
  The lemmas show that the search over the directory database returns, on a database whose node list
  ends, the first entry that matches, in the order of the database.
\<close>

type_synonym efs_rd = "int \<Rightarrow> int \<Rightarrow> int \<times> buf"

subsection \<open>Structures on the disk\<close>

definition EFS_ERROR_GENERIC :: int where [simp]: "EFS_ERROR_GENERIC = - 1"
definition EFS_ERROR_EOF :: int where [simp]: "EFS_ERROR_EOF = - 2"
definition EFS_FILE_NAME_MAX_LEN :: nat where [simp]: "EFS_FILE_NAME_MAX_LEN = 255"
definition EFS_MAX_PATH :: nat where [simp]: "EFS_MAX_PATH = 4096"
definition EFS_PATH_CURRENT_DIR_NAME :: buf where "EFS_PATH_CURRENT_DIR_NAME = bytes_of_string ''.''"
definition EFS_PATH_PARENT_DIR_NAME :: buf where "EFS_PATH_PARENT_DIR_NAME = bytes_of_string ''..''"
definition EFS_PATH_SEPARATOR :: byte where [simp]: "EFS_PATH_SEPARATOR = 0x2f"

definition MBN_IMAGE_ID_BACKUP_RAMFS :: nat where [simp]: "MBN_IMAGE_ID_BACKUP_RAMFS = 20"
definition EFS_IMAGE_HEADER :: buf where "EFS_IMAGE_HEADER = bytes_of_string ''IMGEFS''"
definition EFS_IMAGE_TYPE_GOLD :: byte where [simp]: "EFS_IMAGE_TYPE_GOLD = 0x47"
definition EFS_SUPER_BLOCK_HEADER :: nat where [simp]: "EFS_SUPER_BLOCK_HEADER = 0x53000000"
definition EFS_SUPER_BLOCK_MAGIC :: buf where "EFS_SUPER_BLOCK_MAGIC = bytes_of_string ''EFSSuper''"
definition EFS_INVALID_SECTOR :: int where [simp]: "EFS_INVALID_SECTOR = 0xffffffff"
definition EFS_INVALID_INODE :: int where [simp]: "EFS_INVALID_INODE = 0xffffffff"
definition EFS_UPPER_DB_ROOT :: nat where [simp]: "EFS_UPPER_DB_ROOT = 2"
definition EFS_GROUP_DESCRIPTOR_HEADER :: nat where [simp]: "EFS_GROUP_DESCRIPTOR_HEADER = 0xa7b93ea0"
definition EFS_DIR_ENTRY_TYPE :: byte where [simp]: "EFS_DIR_ENTRY_TYPE = 0x64"
definition EFS_INODE_ITEM_REF :: byte where [simp]: "EFS_INODE_ITEM_REF = 0x69"
definition EFS_INODE_ITEM_INLINE :: byte where [simp]: "EFS_INODE_ITEM_INLINE = 0x6e"
definition EFS_INODE_ITEM_INLINE_EXT :: byte where [simp]: "EFS_INODE_ITEM_INLINE_EXT = 0x4e"
definition EFS_INODE_INDEX_BITS :: nat where [simp]: "EFS_INODE_INDEX_BITS = 2"
definition S_IFDIR :: nat where [simp]: "S_IFDIR = 0x4000"

text \<open>Sizes of the packed structures.\<close>

definition sizeof_efs_boot_header :: nat where [simp]: "sizeof_efs_boot_header = 40"
definition sizeof_efs_image_header :: nat where [simp]: "sizeof_efs_image_header = 21"
definition sizeof_efs_superblock_data :: nat where [simp]: "sizeof_efs_superblock_data = 69"
definition sizeof_efs_superblock :: nat where [simp]: "sizeof_efs_superblock = 416"
definition sizeof_efs_group_descriptor :: nat where [simp]: "sizeof_efs_group_descriptor = 24"
definition sizeof_efs_node :: nat where [simp]: "sizeof_efs_node = 18"
definition sizeof_efs_dir_entry :: nat where [simp]: "sizeof_efs_dir_entry = 7"
definition sizeof_efs_inode :: nat where [simp]: "sizeof_efs_inode = 128"
definition sizeof_efs_inode_item_inline :: nat where [simp]: "sizeof_efs_inode_item_inline = 2"
definition sizeof_efs_inode_item_inline_ext :: nat where [simp]: "sizeof_efs_inode_item_inline_ext = 8"

text \<open>\<open>dirent\<close> is an array of pointers, so eight bytes for each of its 7 + 255 + 1 + 255 elements.\<close>

definition sizeof_dirent :: nat where
  [simp]: "sizeof_dirent = 4144"

record efs_context =
  superblock_offset :: int
  sector_size :: int
  sector_count :: int
  sectors_per_block :: int
  database_root :: int
  inode_root :: int

record efs_iterator =
  it_sector :: int
  it_node :: buf
  it_pos :: int
  it_dirent :: buf

text \<open>Fields of \<open>efs_node\<close>, \<open>efs_dir_entry\<close> and \<open>efs_inode\<close>.\<close>

definition node_next :: "buf \<Rightarrow> int" where "node_next b = int (le_field 4 4 b)"
definition node_used :: "buf \<Rightarrow> int" where "node_used b = int (le_field 8 2 b)"

definition de_size :: "buf \<Rightarrow> nat" where "de_size d = le_field 0 1 d"
definition de_inode_item_size :: "buf \<Rightarrow> nat" where "de_inode_item_size d = le_field 1 1 d"
definition de_type :: "buf \<Rightarrow> byte" where "de_type d = d ! 2"
definition de_parent_inode :: "buf \<Rightarrow> int" where "de_parent_inode d = int (le_field 3 4 d)"

definition inode_mode :: "buf \<Rightarrow> nat" where "inode_mode b = le_field 0 2 b"
definition inode_size :: "buf \<Rightarrow> int" where "inode_size b = int (le_field 8 4 b)"
definition inode_sector :: "buf \<Rightarrow> nat \<Rightarrow> int" where "inode_sector b i = int (le_field (64 + 4 * i) 4 b)"
definition inode_sector_indirect :: "buf \<Rightarrow> nat \<Rightarrow> int" where
  "inode_sector_indirect b i = int (le_field (116 + 4 * i) 4 b)"

text \<open>A read into a buffer.\<close>

definition rd_into :: "efs_rd \<Rightarrow> int \<Rightarrow> nat \<Rightarrow> buf \<Rightarrow> int \<times> buf" where
  "rd_into rd off n b = (case rd off (int n) of (r, bs) \<Rightarrow> (r, blit 0 bs b))"

subsection \<open>Directory entries\<close>

definition efs_dir_entry_name_len :: "buf \<Rightarrow> int" where
  "efs_dir_entry_name_len d = (if de_size d = 0 then 0 else to_ulong (int (de_size d) - 1 - 4))"

text \<open>
  The inode item of an entry, as an offset in it: \<open>name + name_len\<close>, which is \<open>size + 2\<close> since the
  pointer sum wraps like the length. \<^term>\<open>None\<close> is the null pointer.
\<close>

definition efs_dir_entry_inode_item :: "buf \<Rightarrow> nat option" where
  "efs_dir_entry_inode_item d = (if de_size d = 0 then None else Some (de_size d + 2))"

definition efs_dir_entry_inode_ref :: "buf \<Rightarrow> int option" where
  "efs_dir_entry_inode_ref d =
     do {
       item \<leftarrow> efs_dir_entry_inode_item d;
       if d ! item = EFS_INODE_ITEM_REF then Some (int (le_field (item + 1) 4 d)) else Some EFS_INVALID_INODE
     }"

definition efs_inode_eq :: "buf \<Rightarrow> buf \<Rightarrow> bool option" where
  "efs_inode_eq a b = do { x \<leftarrow> efs_dir_entry_inode_ref a; y \<leftarrow> efs_dir_entry_inode_ref b; Some (x = y) }"

definition efs_dir_entry_current :: "buf \<Rightarrow> bool option" where
  "efs_dir_entry_current d =
     (if de_size d = 0 then Some False
      else do {
        inode \<leftarrow> efs_dir_entry_inode_ref d;
        Some (inode \<noteq> EFS_INVALID_INODE \<and> de_parent_inode d = inode \<and> efs_dir_entry_name_len d = 0)
      })"

definition efs_dir_entry_parent :: "buf \<Rightarrow> bool option" where
  "efs_dir_entry_parent d =
     (if de_size d = 0 then Some False
      else do {
        inode \<leftarrow> efs_dir_entry_inode_ref d;
        Some (inode \<noteq> EFS_INVALID_INODE \<and> efs_dir_entry_name_len d = 1 \<and> d ! 7 = 0)
      })"

text \<open>The name and its length; the bytes of a name in the entry run to the end of the buffer.\<close>

definition efs_dir_entry_name :: "buf \<Rightarrow> (buf \<times> int) option" where
  "efs_dir_entry_name d =
     do {
       c \<leftarrow> efs_dir_entry_current d;
       if c then Some (EFS_PATH_CURRENT_DIR_NAME, 1)
       else do {
         p \<leftarrow> efs_dir_entry_parent d;
         if p then Some (EFS_PATH_PARENT_DIR_NAME, 2) else Some (drop 7 d, efs_dir_entry_name_len d)
       }
     }"

definition efs_dir_entry_current_or_parent :: "buf \<Rightarrow> bool option" where
  "efs_dir_entry_current_or_parent d =
     do { c \<leftarrow> efs_dir_entry_current d; if c then Some True else efs_dir_entry_parent d }"

definition efs_dir_entry_size :: "buf \<Rightarrow> nat" where
  "efs_dir_entry_size d = 1 + 1 + de_size d + de_inode_item_size d"

definition efs_inode_item_data_size :: "buf \<Rightarrow> int option" where
  "efs_inode_item_data_size d =
     (if de_inode_item_size d = 0 then Some 0
      else do {
        item \<leftarrow> efs_dir_entry_inode_item d;
        let sz = to_ulong (int (de_inode_item_size d) - 1) in
        if d ! item = EFS_INODE_ITEM_REF then Some sz
        else if d ! item = EFS_INODE_ITEM_INLINE then Some (to_ulong (sz - int sizeof_efs_inode_item_inline))
        else if d ! item = EFS_INODE_ITEM_INLINE_EXT then Some (to_ulong (sz - int sizeof_efs_inode_item_inline_ext))
        else Some 0
      })"

definition EFS_FIND_TYPE_SELF :: u32 where [simp]: "EFS_FIND_TYPE_SELF = 1"
definition EFS_FIND_TYPE_PARENT :: u32 where [simp]: "EFS_FIND_TYPE_PARENT = 2"
definition EFS_FIND_TYPE_CHILD :: u32 where [simp]: "EFS_FIND_TYPE_CHILD = 4"
definition EFS_FIND_TYPE_ANY :: u32 where [simp]: "EFS_FIND_TYPE_ANY = 7"

definition efs_find_check_type :: "buf \<Rightarrow> u32 \<Rightarrow> bool option" where
  "efs_find_check_type d type =
     (if type AND EFS_FIND_TYPE_ANY = EFS_FIND_TYPE_ANY then Some True
      else do {
        s \<leftarrow> (if type AND EFS_FIND_TYPE_SELF \<noteq> 0 then efs_dir_entry_current d else Some False);
        if s then Some True
        else do {
          p \<leftarrow> (if type AND EFS_FIND_TYPE_PARENT \<noteq> 0 then efs_dir_entry_parent d else Some False);
          if p then Some True
          else if type AND EFS_FIND_TYPE_CHILD \<noteq> 0 then map_option Not (efs_dir_entry_current_or_parent d)
          else Some False
        }
      })"

text \<open>\<open>strncmp\<close> compares at most the bytes up to a NUL, which ends both names.\<close>

definition efs_dir_entry_name_eq :: "buf \<Rightarrow> buf \<Rightarrow> nat \<Rightarrow> bool option" where
  "efs_dir_entry_name_eq d name len =
     do { (dname, name_len) \<leftarrow> efs_dir_entry_name d; Some (name_len = int len \<and> strneq name dname len) }"

subsection \<open>Sectors\<close>

definition efs_raw_sector_to_offset :: "efs_context \<Rightarrow> int \<Rightarrow> int" where
  "efs_raw_sector_to_offset ctx sector = to_long (sector_size ctx * sector)"

definition efs_sector_to_offset :: "efs_context \<Rightarrow> int \<Rightarrow> int" where
  "efs_sector_to_offset ctx sector =
     to_long (superblock_offset ctx + efs_raw_sector_to_offset ctx (to_ulong (sector + 1)))"

definition efs_offset_to_sector :: "efs_context \<Rightarrow> int \<Rightarrow> int option" where
  "efs_offset_to_sector ctx offset =
     (if sector_size ctx = 0 then None
      else Some (to_ulong (to_long (offset - superblock_offset ctx - sector_size ctx)) div sector_size ctx))"

definition efs_block_to_offset :: "efs_context \<Rightarrow> int \<Rightarrow> int" where
  "efs_block_to_offset ctx block =
     to_long (superblock_offset ctx + sector_size ctx * sectors_per_block ctx * (block + 1))"

definition efs_sector_valid :: "efs_context \<Rightarrow> int \<Rightarrow> bool" where
  "efs_sector_valid ctx sector = (\<not> (sector = EFS_INVALID_SECTOR \<or> sector > sector_count ctx))"

definition efs_read_inode :: "efs_rd \<Rightarrow> efs_context \<Rightarrow> buf \<Rightarrow> int \<Rightarrow> int \<times> buf" where
  "efs_read_inode rd ctx inode ref =
     (let sector = ref div 2 ^ EFS_INODE_INDEX_BITS; index = ref mod 2 ^ EFS_INODE_INDEX_BITS in
      rd_into rd (to_long (efs_sector_to_offset ctx sector + int sizeof_efs_inode * index)) sizeof_efs_inode inode)"

subsection \<open>Iterators\<close>

definition efs_iterator_dir_entry :: "efs_iterator \<Rightarrow> buf" where
  "efs_iterator_dir_entry it = it_dirent it"

definition efs_iterator_zero :: efs_iterator where
  "efs_iterator_zero = \<lparr>it_sector = 0, it_node = replicate sizeof_efs_node 0, it_pos = 0,
     it_dirent = replicate sizeof_dirent 0\<rparr>"

definition efs_iterator_invalid :: "efs_iterator \<Rightarrow> efs_iterator" where
  "efs_iterator_invalid it = efs_iterator_zero\<lparr>it_sector := EFS_INVALID_SECTOR\<rparr>"

definition efs_iterator_is_valid :: "efs_context \<Rightarrow> efs_iterator \<Rightarrow> bool" where
  "efs_iterator_is_valid ctx it = (\<not> (it_sector it = EFS_INVALID_SECTOR \<or> it_sector it > sector_count ctx))"

definition efs_iterator_sector :: "efs_rd \<Rightarrow> efs_context \<Rightarrow> efs_iterator \<Rightarrow> int \<Rightarrow> int \<times> efs_iterator" where
  "efs_iterator_sector rd ctx it sector =
     (case rd_into rd (efs_sector_to_offset ctx sector) sizeof_efs_node (it_node it) of (r, node) \<Rightarrow>
        if r < 0 then (to_int r, it\<lparr>it_node := node\<rparr>)
        else (0, it\<lparr>it_sector := sector, it_node := node, it_pos := 0, it_dirent := replicate sizeof_dirent 0\<rparr>))"

definition efs_iterator_root :: "efs_rd \<Rightarrow> efs_context \<Rightarrow> efs_iterator \<Rightarrow> (int \<times> efs_iterator) option" where
  "efs_iterator_root rd ctx it =
     do {
       sector \<leftarrow> efs_offset_to_sector ctx (efs_block_to_offset ctx (database_root ctx));
       Some (efs_iterator_sector rd ctx it sector)
     }"

definition efs_iterator_is_root_inode :: "efs_context \<Rightarrow> efs_iterator \<Rightarrow> bool option" where
  "efs_iterator_is_root_inode ctx it =
     do {
       r \<leftarrow> efs_dir_entry_inode_ref (efs_iterator_dir_entry it);
       Some (r = inode_root ctx \<and> de_parent_inode (efs_iterator_dir_entry it) = inode_root ctx)
     }"

definition efs_iterator_next_node :: "efs_rd \<Rightarrow> efs_context \<Rightarrow> efs_iterator \<Rightarrow> int \<times> efs_iterator" where
  "efs_iterator_next_node rd ctx it =
     (if node_next (it_node it) = EFS_INVALID_SECTOR then (EFS_ERROR_EOF, it)
      else efs_iterator_sector rd ctx it (node_next (it_node it)))"

text \<open>
  \<open>used - pos\<close> is signed and compared with an unsigned size. An entry has at most 512 bytes, so it fits
  in \<open>dirent\<close>.
\<close>

definition efs_read_dir_entry :: "efs_rd \<Rightarrow> efs_context \<Rightarrow> efs_iterator \<Rightarrow> int \<times> efs_iterator" where
  "efs_read_dir_entry rd ctx it =
     (let pos = it_pos it; used = int sizeof_efs_node + node_used (it_node it) in
      if to_ulong (used - pos) < int sizeof_efs_dir_entry then (EFS_ERROR_EOF, it)
      else
        (case rd_into rd (to_long (efs_sector_to_offset ctx (it_sector it) + pos)) sizeof_efs_dir_entry
                (replicate sizeof_efs_dir_entry 0) of (r, header) \<Rightarrow>
           if r < 0 then (to_int r, it)
           else if de_type header \<noteq> EFS_DIR_ENTRY_TYPE then (EFS_ERROR_GENERIC, it)
           else
             (case rd_into rd (to_long (efs_sector_to_offset ctx (it_sector it) + pos)) (efs_dir_entry_size header)
                     (it_dirent it) of (r', dirent) \<Rightarrow>
                if r' < 0 then (to_int r', it\<lparr>it_dirent := dirent\<rparr>)
                else (int (efs_dir_entry_size header), it\<lparr>it_dirent := dirent\<rparr>))))"

definition efs_iterator_next_dirent :: "efs_rd \<Rightarrow> efs_context \<Rightarrow> efs_iterator \<Rightarrow> int \<times> efs_iterator" where
  "efs_iterator_next_dirent rd ctx it =
     (let pos = (if it_pos it = 0 then int sizeof_efs_node
                 else it_pos it + int (efs_dir_entry_size (efs_iterator_dir_entry it)))
      in case efs_read_dir_entry rd ctx (it\<lparr>it_pos := pos\<rparr>) of (r, it') \<Rightarrow>
           if r < 0 then (r, it') else (0, it'))"

text \<open>
  The loop that \<open>efs_iterator_find_inode\<close> and \<open>efs_iterator_next_child_of\<close> share: walk the entries
  of the database up to the first one for which \<open>want\<close> holds.
\<close>

partial_function (option) efs_seek ::
    "efs_rd \<Rightarrow> efs_context \<Rightarrow> (buf \<Rightarrow> bool option) \<Rightarrow> efs_iterator \<Rightarrow> (int \<times> efs_iterator) option" where
  "efs_seek rd ctx want it =
     (let nd = efs_iterator_next_dirent rd ctx it in
      if fst nd = EFS_ERROR_EOF then
        (let nn = efs_iterator_next_node rd ctx (snd nd) in
         if fst nn < 0 then Some nn else efs_seek rd ctx want (snd nn))
      else if fst nd < 0 then Some nd
      else Option.bind (want (efs_iterator_dir_entry (snd nd)))
        (\<lambda>w. if w then Some (0, snd nd) else efs_seek rd ctx want (snd nd)))"

definition efs_iterator_find_inode ::
    "efs_rd \<Rightarrow> efs_context \<Rightarrow> efs_iterator \<Rightarrow> int \<Rightarrow> u32 \<Rightarrow> (int \<times> efs_iterator) option" where
  "efs_iterator_find_inode rd ctx it inode type =
     do {
       (r, it1) \<leftarrow> (if efs_iterator_is_valid ctx it then Some (0, it) else efs_iterator_root rd ctx it);
       if r < 0 then Some (r, it1)
       else efs_seek rd ctx
         (\<lambda>d. do { ref \<leftarrow> efs_dir_entry_inode_ref d;
                   if ref = inode then efs_find_check_type d type else Some False }) it1
     }"

definition efs_iterator_root_inode :: "efs_rd \<Rightarrow> efs_context \<Rightarrow> efs_iterator \<Rightarrow> (int \<times> efs_iterator) option" where
  "efs_iterator_root_inode rd ctx it = efs_iterator_find_inode rd ctx it (inode_root ctx) EFS_FIND_TYPE_SELF"

definition efs_iterator_next_child_of ::
    "efs_rd \<Rightarrow> efs_context \<Rightarrow> efs_iterator \<Rightarrow> buf \<Rightarrow> u32 \<Rightarrow> (int \<times> efs_iterator) option" where
  "efs_iterator_next_child_of rd ctx it parent type =
     efs_seek rd ctx
       (\<lambda>d. do { ref \<leftarrow> efs_dir_entry_inode_ref parent;
                 if de_parent_inode d = ref then efs_find_check_type d type else Some False }) it"

text \<open>\<open>seen\<close> is \<open>seen_sibling_sector\<close>.\<close>

partial_function (option) efs_sibling_loop ::
    "efs_rd \<Rightarrow> efs_context \<Rightarrow> efs_iterator \<Rightarrow> u32 \<Rightarrow> bool \<Rightarrow> efs_iterator \<Rightarrow> (int \<times> efs_iterator) option" where
  "efs_sibling_loop rd ctx sibling type seen it =
     (let seen' = (seen \<or> it_sector it = it_sector sibling); nd = efs_iterator_next_dirent rd ctx it in
      if fst nd = EFS_ERROR_EOF then
        (let nn = efs_iterator_next_node rd ctx (snd nd) in
         if fst nn < 0 then Some nn else efs_sibling_loop rd ctx sibling type seen' (snd nn))
      else if fst nd < 0 then Some nd
      else
        (let it' = snd nd; entry = efs_iterator_dir_entry it' in
         if de_parent_inode entry \<noteq> de_parent_inode (efs_iterator_dir_entry sibling) then Some (EFS_ERROR_EOF, it')
         else if it_sector it' = it_sector sibling \<and> it_pos it' > it_pos sibling \<or> seen' then
           Option.bind (efs_find_check_type entry type)
             (\<lambda>w. if w then Some (0, it') else efs_sibling_loop rd ctx sibling type seen' it')
         else efs_sibling_loop rd ctx sibling type seen' it'))"

definition efs_iterator_next_sibling_of ::
    "efs_rd \<Rightarrow> efs_context \<Rightarrow> efs_iterator \<Rightarrow> efs_iterator \<Rightarrow> u32 \<Rightarrow> (int \<times> efs_iterator) option" where
  "efs_iterator_next_sibling_of rd ctx it sibling type = efs_sibling_loop rd ctx sibling type False it"

subsection \<open>Specification\<close>

text \<open>
  An entry as it should be on the disk: the sizes of its two parts, the type, a name part with type and
  parent, an item part that holds what its type says.
\<close>

definition efs_entry_wf :: "buf \<Rightarrow> bool" where
  "efs_entry_wf e \<longleftrightarrow> length e = efs_dir_entry_size e \<and> 5 \<le> de_size e \<and> 1 \<le> de_inode_item_size e \<and>
     de_type e = EFS_DIR_ENTRY_TYPE \<and> (e ! (de_size e + 2) = EFS_INODE_ITEM_REF \<longrightarrow> 5 \<le> de_inode_item_size e)"

text \<open>The inode an entry refers to, whether it is one of \<open>.\<close> and \<open>..\<close>, and its name.\<close>

definition ent_ref :: "buf \<Rightarrow> int" where
  "ent_ref e = (if e ! (de_size e + 2) = EFS_INODE_ITEM_REF then int (le_field (de_size e + 3) 4 e) else EFS_INVALID_INODE)"

definition ent_current :: "buf \<Rightarrow> bool" where
  "ent_current e \<longleftrightarrow> ent_ref e \<noteq> EFS_INVALID_INODE \<and> de_parent_inode e = ent_ref e \<and> de_size e = 5"

definition ent_parent :: "buf \<Rightarrow> bool" where
  "ent_parent e \<longleftrightarrow> ent_ref e \<noteq> EFS_INVALID_INODE \<and> de_size e = 6 \<and> e ! 7 = 0"

definition entry_name :: "buf \<Rightarrow> buf" where
  "entry_name e = chunk 7 (de_size e - 5) e"

text \<open>The comparison of a name: a child with another length or other bytes does not match.\<close>

definition ent_named :: "buf \<Rightarrow> buf \<Rightarrow> bool" where
  "ent_named e name \<longleftrightarrow> length name = de_size e - 5 \<and> strneq name (entry_name e) (length name)"

text \<open>Where a sector is in the image.\<close>

definition efs_sector_at :: "efs_context \<Rightarrow> nat \<Rightarrow> nat" where
  "efs_sector_at ctx s = nat (superblock_offset ctx) + nat (sector_size ctx) * (s + 1)"

definition efs_context_ok :: "efs_context \<Rightarrow> bool" where
  "efs_context_ok ctx \<longleftrightarrow> 0 \<le> superblock_offset ctx \<and> 0 < sector_size ctx \<and> 0 \<le> sector_count ctx \<and>
     0 \<le> sectors_per_block ctx \<and> 0 \<le> database_root ctx"

text \<open>
  The entries at the positions \<open>ps\<close> fill the node at sector \<open>s\<close> from \<open>pos\<close> on, up to fewer bytes than
  an entry needs.
\<close>

fun efs_tiles :: "buf \<Rightarrow> nat \<Rightarrow> nat \<Rightarrow> nat \<Rightarrow> (nat \<times> buf) list \<Rightarrow> bool" where
  "efs_tiles img base pos lim [] = (pos \<le> lim \<and> lim < pos + sizeof_efs_dir_entry)"
| "efs_tiles img base pos lim ((p, e) # es) =
     (p = pos \<and> efs_entry_wf e \<and> pos + sizeof_efs_dir_entry \<le> lim \<and> base + pos + length e \<le> length img \<and>
      chunk (base + pos) (length e) img = e \<and> efs_tiles img base (pos + length e) lim es)"

text \<open>A node with its sector and its entries, and a list of nodes linked by their \<open>next\<close> fields.\<close>

definition efs_node_ok :: "buf \<Rightarrow> efs_context \<Rightarrow> nat \<Rightarrow> (nat \<times> buf) list \<Rightarrow> bool" where
  "efs_node_ok img ctx s es \<longleftrightarrow> efs_sector_at ctx s + sizeof_efs_node \<le> length img \<and>
     efs_tiles img (efs_sector_at ctx s) sizeof_efs_node
       (sizeof_efs_node + le_field 8 2 (chunk (efs_sector_at ctx s) sizeof_efs_node img)) es"

fun efs_chain :: "buf \<Rightarrow> efs_context \<Rightarrow> int \<Rightarrow> (nat \<times> (nat \<times> buf) list) list \<Rightarrow> bool" where
  "efs_chain img ctx next [] = (next = EFS_INVALID_SECTOR)"
| "efs_chain img ctx next ((s, es) # ns) =
     (next = int s \<and> next \<noteq> EFS_INVALID_SECTOR \<and> efs_node_ok img ctx s es \<and>
      efs_chain img ctx (node_next (chunk (efs_sector_at ctx s) sizeof_efs_node img)) ns)"

text \<open>An iterator inside the node at sector \<open>s\<close>, with the entries \<open>es\<close> of the node still to come.\<close>

definition efs_cursor :: "buf \<Rightarrow> efs_context \<Rightarrow> efs_iterator \<Rightarrow> nat \<Rightarrow> (nat \<times> buf) list \<Rightarrow> bool" where
  "efs_cursor img ctx it s es \<longleftrightarrow>
     it_sector it = int s \<and> efs_sector_at ctx s + sizeof_efs_node \<le> length img \<and>
     it_node it = chunk (efs_sector_at ctx s) sizeof_efs_node img \<and> length (it_dirent it) = sizeof_dirent \<and>
     (\<exists>pos. efs_tiles img (efs_sector_at ctx s) pos
              (sizeof_efs_node + le_field 8 2 (it_node it)) es \<and>
            (it_pos it = 0 \<and> pos = sizeof_efs_node \<or>
             0 < it_pos it \<and> it_pos it + int (efs_dir_entry_size (it_dirent it)) = int pos))"

text \<open>The iterator stands on the entry \<open>e\<close>, at position \<open>p\<close> of the node at sector \<open>s\<close>.\<close>

definition efs_on :: "efs_iterator \<Rightarrow> nat \<Rightarrow> nat \<times> buf \<Rightarrow> bool" where
  "efs_on it s pe \<longleftrightarrow> it_sector it = int s \<and> it_pos it = int (fst pe) \<and> (\<exists>t. it_dirent it = snd pe @ t)"

text \<open>The entries after an iterator, with their sectors, in the order of the database.\<close>

definition efs_rest :: "nat \<Rightarrow> (nat \<times> buf) list \<Rightarrow> (nat \<times> (nat \<times> buf) list) list \<Rightarrow> (nat \<times> nat \<times> buf) list" where
  "efs_rest s es ns = map (Pair s) es @ concat (map (\<lambda>(s, es). map (Pair s) es) ns)"

definition efs_place :: "buf \<Rightarrow> efs_context \<Rightarrow> efs_iterator \<Rightarrow> (nat \<times> nat \<times> buf) list \<Rightarrow> bool" where
  "efs_place img ctx it rest \<longleftrightarrow>
     (\<exists>s es ns. efs_cursor img ctx it s es \<and> efs_chain img ctx (node_next (it_node it)) ns \<and> rest = efs_rest s es ns)"

definition efs_decides :: "(buf \<Rightarrow> bool option) \<Rightarrow> (buf \<Rightarrow> bool) \<Rightarrow> bool" where
  "efs_decides want W \<longleftrightarrow> (\<forall>e t. efs_entry_wf e \<longrightarrow> want (e @ t) = Some (W e))"

text \<open>The outcome of a search: the first entry that is wanted, and what follows it.\<close>

definition efs_found ::
    "buf \<Rightarrow> efs_context \<Rightarrow> (buf \<Rightarrow> bool) \<Rightarrow> (nat \<times> nat \<times> buf) list \<Rightarrow> (int \<times> efs_iterator) option \<Rightarrow> bool" where
  "efs_found img ctx W rest res \<longleftrightarrow>
     (case dropWhile (\<lambda>x. \<not> W (snd (snd x))) rest of
        [] \<Rightarrow> \<exists>it'. res = Some (EFS_ERROR_EOF, it')
      | x # xs \<Rightarrow> \<exists>it'. res = Some (0, it') \<and> efs_on it' (fst x) (snd x) \<and> efs_place img ctx it' xs)"

text \<open>The nodes of the database of an image: the list that starts at the root node.\<close>

definition efs_database :: "buf \<Rightarrow> efs_context \<Rightarrow> (nat \<times> (nat \<times> buf) list) list \<Rightarrow> bool" where
  "efs_database img ctx ns \<longleftrightarrow> efs_context_ok ctx \<and> 0 < sectors_per_block ctx \<and> ns \<noteq> [] \<and>
     efs_chain img ctx (sectors_per_block ctx * (database_root ctx + 1) - 1) ns"

definition efs_entries :: "(nat \<times> (nat \<times> buf) list) list \<Rightarrow> (nat \<times> nat \<times> buf) list" where
  "efs_entries ns = concat (map (\<lambda>(s, es). map (Pair s) es) ns)"

text \<open>The entry of the directory \<open>inode\<close> itself, and the children of \<open>inode\<close>.\<close>

definition ent_self :: "int \<Rightarrow> buf \<Rightarrow> bool" where
  "ent_self inode e \<longleftrightarrow> ent_ref e = inode \<and> ent_current e"

definition ent_child :: "int \<Rightarrow> buf \<Rightarrow> bool" where
  "ent_child inode e \<longleftrightarrow> de_parent_inode e = inode \<and> \<not> ent_current e \<and> \<not> ent_parent e"

text \<open>A reader of an image in memory.\<close>

definition efs_img_rd :: "buf \<Rightarrow> efs_rd" where
  "efs_img_rd img off n =
     (if 0 \<le> off \<and> 0 < n \<and> off + n \<le> int (length img) then (n, chunk (nat off) (nat n) img) else (- 1, []))"

definition efs_ex_ctx :: efs_context where
  "efs_ex_ctx = \<lparr>superblock_offset = 0, sector_size = 64, sector_count = 8, sectors_per_block = 1,
     database_root = 0, inode_root = 1\<rparr>"

text \<open>The root directory with its own entry and the inline file \<open>a\<close>, which holds the byte 42.\<close>

definition efs_ex_root :: buf where
  "efs_ex_root = [5, 5, 100, 1, 0, 0, 0, 105, 1, 0, 0, 0]"

definition efs_ex_file :: buf where
  "efs_ex_file = [6, 4, 100, 1, 0, 0, 0, 97, 110, 0, 0, 42]"

definition efs_ex_node :: "byte \<Rightarrow> buf" where
  "efs_ex_node u = [255, 255, 255, 255, 255, 255, 255, 255, u, 0, 255, 255, 0, 0, 0, 0, 0, 0]"

definition efs_ex_img :: buf where
  "efs_ex_img = replicate 64 0 @ efs_ex_node 24 @ efs_ex_root @ efs_ex_file"

definition efs_ex_nodes :: "(nat \<times> (nat \<times> buf) list) list" where
  "efs_ex_nodes = [(0, [(18, efs_ex_root), (30, efs_ex_file)])]"

definition efs_bad_img :: buf where
  "efs_bad_img = replicate 64 0 @ efs_ex_node 24 @ [0, 0, 100] @ replicate 300 0"

subsection \<open>Lemmas\<close>

lemma chunk_append_left: "off + n \<le> length e \<Longrightarrow> chunk off n (e @ t) = chunk off n e"
  by (simp add: chunk_def)

lemma le_field_append_left: "off + n \<le> length e \<Longrightarrow> le_field off n (e @ t) = le_field off n e"
  by (simp add: le_field_def chunk_append_left)

lemma le_field_take: "off + n \<le> k \<Longrightarrow> le_field off n (take k e) = le_field off n e"
  by (simp add: le_field_def chunk_def drop_take min_def)

lemma de_size_less: "de_size d < 256" "de_inode_item_size d < 256"
  using le_field_bound [of 0 1 d] le_field_bound [of 1 1 d]
  by (simp_all add: de_size_def de_inode_item_size_def)

lemma efs_entry_head:
  assumes "efs_entry_wf e"
  shows "8 \<le> length e" and "de_size (e @ t) = de_size e" and "de_inode_item_size (e @ t) = de_inode_item_size e"
    and "de_parent_inode (e @ t) = de_parent_inode e" and "de_type (e @ t) = de_type e"
    and "efs_dir_entry_size (e @ t) = length e" and "de_size e + 2 < length e"
proof -
  show l: "8 \<le> length e" and "de_size e + 2 < length e"
    using assms by (simp_all add: efs_entry_wf_def efs_dir_entry_size_def)
  show s: "de_size (e @ t) = de_size e" and i: "de_inode_item_size (e @ t) = de_inode_item_size e"
    and "de_parent_inode (e @ t) = de_parent_inode e" and "de_type (e @ t) = de_type e"
    using l by (simp_all add: de_size_def de_inode_item_size_def de_parent_inode_def de_type_def
        le_field_append_left nth_append)
  then show "efs_dir_entry_size (e @ t) = length e"
    using assms by (simp add: efs_entry_wf_def efs_dir_entry_size_def)
qed

lemma efs_entry_ref:
  assumes wf: "efs_entry_wf e"
  shows "efs_dir_entry_inode_ref (e @ t) = Some (ent_ref e)"
proof -
  note hh = efs_entry_head [OF wf]
  have "(e @ t) ! (de_size e + 2) = e ! (de_size e + 2)" using hh(7) by (simp add: nth_append)
  moreover have "le_field (de_size e + 3) 4 (e @ t) = le_field (de_size e + 3) 4 e"
    if "e ! (de_size e + 2) = EFS_INODE_ITEM_REF"
    using that wf by (intro le_field_append_left) (simp add: efs_entry_wf_def efs_dir_entry_size_def)
  moreover have "0 < de_size e" using wf by (simp add: efs_entry_wf_def)
  ultimately show ?thesis
    by (simp add: efs_dir_entry_inode_ref_def efs_dir_entry_inode_item_def hh ent_ref_def numeral_3_eq_3)
qed

lemma efs_entry_name_len:
  assumes wf: "efs_entry_wf e"
  shows "efs_dir_entry_name_len (e @ t) = int (de_size e - 5)"
proof -
  have "5 \<le> de_size e" using wf by (simp add: efs_entry_wf_def)
  then show ?thesis using de_size_less(1) [of e]
    by (simp add: efs_dir_entry_name_len_def efs_entry_head [OF wf] to_ulong_def of_nat_diff)
qed

lemma efs_entry_kind:
  assumes wf: "efs_entry_wf e"
  shows "efs_dir_entry_current (e @ t) = Some (ent_current e)" and "efs_dir_entry_parent (e @ t) = Some (ent_parent e)"
proof -
  have s: "5 \<le> de_size e" "8 \<le> length e" using wf efs_entry_head [OF wf] by (simp_all add: efs_entry_wf_def)
  show "efs_dir_entry_current (e @ t) = Some (ent_current e)"
    using s by (auto simp: efs_dir_entry_current_def efs_entry_head [OF wf] efs_entry_ref [OF wf]
        efs_entry_name_len [OF wf] ent_current_def)
  have "(e @ t) ! 7 = e ! 7" using s by (simp add: nth_append)
  then show "efs_dir_entry_parent (e @ t) = Some (ent_parent e)"
    using s by (auto simp: efs_dir_entry_parent_def efs_entry_head [OF wf] efs_entry_ref [OF wf]
        efs_entry_name_len [OF wf] ent_parent_def)
qed

lemma efs_entry_check_type:
  assumes wf: "efs_entry_wf e"
  shows "efs_find_check_type (e @ t) EFS_FIND_TYPE_CHILD = Some (\<not> ent_current e \<and> \<not> ent_parent e)"
    and "efs_find_check_type (e @ t) EFS_FIND_TYPE_SELF = Some (ent_current e)"
  by (auto simp: efs_find_check_type_def efs_dir_entry_current_or_parent_def efs_entry_kind [OF wf])

lemma strneq_append: "n \<le> length bs \<Longrightarrow> strneq as (bs @ t) n = strneq as bs n"
proof (induction as bs n rule: strneq.induct)
  case (2 as bs n)
  then show ?case by (cases bs) (auto simp: Let_def)
qed simp

lemma strneq_take: "n \<le> length bs \<Longrightarrow> strneq as bs n = strneq as (take n bs) n"
  using strneq_append [of n "take n bs" as "drop n bs"] by simp

lemma efs_entry_name_eq:
  assumes wf: "efs_entry_wf e" and c: "\<not> ent_current e" "\<not> ent_parent e"
  shows "efs_dir_entry_name_eq (e @ t) name (length name) = Some (ent_named e name)"
proof -
  have l: "7 + (de_size e - 5) \<le> length e" "8 \<le> length e" using wf efs_entry_head(1) [OF wf]
    by (auto simp: efs_entry_wf_def efs_dir_entry_size_def)
  have n: "efs_dir_entry_name (e @ t) = Some (drop 7 (e @ t), int (de_size e - 5))"
    using c by (simp add: efs_dir_entry_name_def efs_entry_kind [OF wf] efs_entry_name_len [OF wf])
  have "strneq name (drop 7 (e @ t)) (length name) = strneq name (entry_name e) (length name)"
    if "length name = de_size e - 5"
  proof -
    have "take (length name) (drop 7 (e @ t)) = entry_name e"
      using l that by (simp add: entry_name_def chunk_def)
    moreover have "length name \<le> length (drop 7 (e @ t))" using l that by simp
    ultimately show ?thesis using strneq_take by metis
  qed
  then show ?thesis by (auto simp: efs_dir_entry_name_eq_def n ent_named_def)
qed

locale efs_device =
  fixes rd :: efs_rd and img :: buf
  assumes rd_serves: "0 \<le> off \<Longrightarrow> 0 < n \<Longrightarrow> off + n \<le> int (length img) \<Longrightarrow> rd off n = (n, chunk (nat off) (nat n) img)"
    and img_small: "length img < 2 ^ 62"
begin

lemma rd_into_serves:
  assumes "off + n \<le> length img" and "0 < n"
  shows "rd_into rd (int off) n b = (int n, blit 0 (chunk off n img) b)"
proof -
  have "int off + int n \<le> int (length img)" using assms(1) by linarith
  from rd_serves [OF _ _ this] assms show ?thesis by (simp add: rd_into_def)
qed

lemma sector_offset:
  assumes ctx: "efs_context_ok ctx" and "efs_sector_at ctx s \<le> length img"
  shows "efs_sector_to_offset ctx (int s) = int (efs_sector_at ctx s)"
proof -
  have c: "int (efs_sector_at ctx s) = superblock_offset ctx + sector_size ctx * (int s + 1)"
    using ctx by (simp add: efs_sector_at_def efs_context_ok_def algebra_simps)
  have lim: "int (efs_sector_at ctx s) < 2 ^ 62" using assms(2) img_small by simp
  have "int s + 1 \<le> sector_size ctx * (int s + 1)"
    using ctx by (simp add: efs_context_ok_def mult_le_cancel_right1)
  moreover have "0 \<le> superblock_offset ctx" using ctx by (simp add: efs_context_ok_def)
  ultimately have s: "int s + 1 < 2 ^ 62" "sector_size ctx * (int s + 1) < 2 ^ 62" "0 \<le> sector_size ctx * (int s + 1)"
    using c lim by linarith+
  have "to_ulong (int s + 1) = int s + 1" using s(1) by (simp add: to_ulong_small)
  moreover have "to_long (sector_size ctx * (int s + 1)) = sector_size ctx * (int s + 1)"
    using s by (simp add: to_long_small)
  ultimately show ?thesis
    using c lim by (simp add: efs_sector_to_offset_def efs_raw_sector_to_offset_def to_long_small)
qed

lemma sector_offset_plus:
  assumes ctx: "efs_context_ok ctx" and "efs_sector_at ctx s + k \<le> length img"
  shows "to_long (efs_sector_to_offset ctx (int s) + int k) = int (efs_sector_at ctx s + k)"
proof -
  have "int (efs_sector_at ctx s + k) < 2 ^ 62" using assms(2) img_small by simp
  then show ?thesis using sector_offset [OF ctx, of s] assms(2) by (simp add: to_long_small)
qed

lemma iterator_sector:
  assumes ctx: "efs_context_ok ctx" and s: "efs_sector_at ctx s + sizeof_efs_node \<le> length img"
    and l: "length (it_node it) = sizeof_efs_node"
  shows "efs_iterator_sector rd ctx it (int s) =
    (0, it\<lparr>it_sector := int s, it_node := chunk (efs_sector_at ctx s) sizeof_efs_node img, it_pos := 0,
           it_dirent := replicate sizeof_dirent 0\<rparr>)"
proof -
  have "rd_into rd (efs_sector_to_offset ctx (int s)) sizeof_efs_node (it_node it) =
      (int sizeof_efs_node, chunk (efs_sector_at ctx s) sizeof_efs_node img)"
    using rd_into_serves [OF s] sector_offset [OF ctx, of s] s l by (simp add: blit_def)
  then show ?thesis by (simp add: efs_iterator_sector_def)
qed

end

context efs_device
begin

lemma next_dirent_entry:
  assumes ctx: "efs_context_ok ctx" and c: "efs_cursor img ctx it s ((p, e) # es)"
  shows "\<exists>it'. efs_iterator_next_dirent rd ctx it = (0, it') \<and> efs_cursor img ctx it' s es \<and> efs_on it' s (p, e)"
proof -
  define lim where "lim = sizeof_efs_node + le_field 8 2 (it_node it)"
  obtain pos where t: "efs_tiles img (efs_sector_at ctx s) pos lim ((p, e) # es)"
    and pos: "it_pos it = 0 \<and> pos = sizeof_efs_node \<or>
      0 < it_pos it \<and> it_pos it + int (efs_dir_entry_size (it_dirent it)) = int pos"
    and it: "it_sector it = int s" "efs_sector_at ctx s + sizeof_efs_node \<le> length img"
      "it_node it = chunk (efs_sector_at ctx s) sizeof_efs_node img" "length (it_dirent it) = sizeof_dirent"
    using c by (auto simp: efs_cursor_def lim_def)
  have e: "efs_entry_wf e" "pos + 7 \<le> lim" "efs_sector_at ctx s + pos + length e \<le> length img"
    "chunk (efs_sector_at ctx s + pos) (length e) img = e" "efs_tiles img (efs_sector_at ctx s) (pos + length e) lim es"
    and p: "p = pos" using t by simp_all
  note hd = efs_entry_head [OF e(1)]
  have len: "length e \<le> 512" "0 < length e"
    using e(1) de_size_less [of e] by (auto simp: efs_entry_wf_def efs_dir_entry_size_def)
  have pos0: "0 < pos" using pos by auto
  let ?it = "it\<lparr>it_pos := int pos\<rparr>"
  have off: "to_long (efs_sector_to_offset ctx (int s) + int pos) = int (efs_sector_at ctx s + pos)"
    using sector_offset_plus [OF ctx, of s pos] e(3) by simp
  have "chunk (efs_sector_at ctx s + pos) 7 img = take 7 e"
    using e(4) hd(1) chunk_chunk [of 0 7 "length e" "efs_sector_at ctx s + pos" img] by (simp add: chunk_def [of 0])
  moreover have "rd_into rd (int (efs_sector_at ctx s + pos)) 7 (replicate 7 0) =
      (7, blit 0 (chunk (efs_sector_at ctx s + pos) 7 img) (replicate 7 0))"
    using rd_into_serves [of "efs_sector_at ctx s + pos" 7] e(3) hd(1) by simp
  ultimately have h1: "rd_into rd (int (efs_sector_at ctx s + pos)) 7 (replicate 7 0) = (7, take 7 e)"
    using hd(1) by (simp add: blit_def)
  have th: "de_type (take 7 e) = EFS_DIR_ENTRY_TYPE" "efs_dir_entry_size (take 7 e) = length e"
    using e(1) hd(1)
    by (simp_all add: efs_entry_wf_def de_type_def efs_dir_entry_size_def de_size_def de_inode_item_size_def le_field_take)
  have h2: "rd_into rd (int (efs_sector_at ctx s + pos)) (length e) (it_dirent it) =
      (int (length e), e @ drop (length e) (it_dirent it))"
    using rd_into_serves [OF e(3) len(2)] e(4) by (simp add: blit_def)
  let ?it' = "?it\<lparr>it_dirent := e @ drop (length e) (it_dirent it)\<rparr>"
  have used: "\<not> to_ulong (int sizeof_efs_node + node_used (it_node it) - int pos) < 7"
    using e(2) le_field_bound [of 8 2 "it_node it"]
    by (simp add: lim_def node_used_def to_ulong_small)
  have "efs_read_dir_entry rd ctx ?it = (int (length e), ?it')"
    using used off h1 h2 th it by (simp add: efs_read_dir_entry_def Let_def)
  moreover have "(if it_pos it = 0 then int sizeof_efs_node
       else it_pos it + int (efs_dir_entry_size (efs_iterator_dir_entry it))) = int pos"
    using pos by (auto simp: efs_iterator_dir_entry_def)
  ultimately have "efs_iterator_next_dirent rd ctx it = (0, ?it')"
    by (simp add: efs_iterator_next_dirent_def Let_def)
  moreover have "efs_cursor img ctx ?it' s es"
    unfolding efs_cursor_def
    using it e(5) hd(6) [of "drop (length e) (it_dirent it)"] len pos0 by (auto simp: lim_def intro!: exI [of _ "pos + length e"])
  moreover have "efs_on ?it' s (p, e)" using it p by (auto simp: efs_on_def)
  ultimately show ?thesis by blast
qed

lemma next_dirent_end:
  assumes c: "efs_cursor img ctx it s []"
  shows "\<exists>it'. efs_iterator_next_dirent rd ctx it = (EFS_ERROR_EOF, it') \<and> it_node it' = it_node it"
proof -
  obtain pos where pos: "pos \<le> sizeof_efs_node + le_field 8 2 (it_node it)"
      "sizeof_efs_node + le_field 8 2 (it_node it) < pos + 7"
      "it_pos it = 0 \<and> pos = sizeof_efs_node \<or>
       0 < it_pos it \<and> it_pos it + int (efs_dir_entry_size (it_dirent it)) = int pos"
    using c by (auto simp: efs_cursor_def)
  have "to_ulong (int sizeof_efs_node + node_used (it_node it) - int pos) < 7"
    using pos(1,2) by (simp add: node_used_def to_ulong_small)
  moreover have "(if it_pos it = 0 then int sizeof_efs_node
       else it_pos it + int (efs_dir_entry_size (efs_iterator_dir_entry it))) = int pos"
    using pos(3) by (auto simp: efs_iterator_dir_entry_def)
  ultimately show ?thesis
    by (simp add: efs_iterator_next_dirent_def efs_read_dir_entry_def Let_def)
qed

lemma next_node_chain:
  assumes ctx: "efs_context_ok ctx" and c: "length (it_node it) = sizeof_efs_node"
    and ch: "efs_chain img ctx (node_next (it_node it)) ((s, es) # ns)"
  shows "\<exists>it'. efs_iterator_next_node rd ctx it = (0, it') \<and> efs_cursor img ctx it' s es \<and>
    efs_chain img ctx (node_next (it_node it')) ns"
proof -
  have n: "node_next (it_node it) = int s" "int s \<noteq> EFS_INVALID_SECTOR" "efs_node_ok img ctx s es"
    and rest: "efs_chain img ctx (node_next (chunk (efs_sector_at ctx s) sizeof_efs_node img)) ns"
    using ch by auto
  have s: "efs_sector_at ctx s + sizeof_efs_node \<le> length img" using n(3) by (simp add: efs_node_ok_def)
  show ?thesis
    using iterator_sector [OF ctx s c] n rest s
    by (simp add: efs_iterator_next_node_def efs_cursor_def efs_node_ok_def)
qed

end

lemma efs_rest_simps [simp]:
  "efs_rest s [] [] = []" "efs_rest s [] ((s', es) # ns) = efs_rest s' es ns"
  "efs_rest s (pe # es) ns = (s, pe) # efs_rest s es ns"
  by (simp_all add: efs_rest_def)

lemma efs_cursor_wf: "efs_cursor img ctx it s ((p, e) # es) \<Longrightarrow> efs_entry_wf e"
  by (auto simp: efs_cursor_def)

context efs_device
begin

lemma seek_entry:
  assumes ctx: "efs_context_ok ctx" and c: "efs_cursor img ctx it s ((p, e) # es)" and d: "efs_decides want W"
  shows "\<exists>it'. efs_seek rd ctx want it = (if W e then Some (0, it') else efs_seek rd ctx want it') \<and>
    efs_cursor img ctx it' s es \<and> efs_on it' s (p, e) \<and> it_node it' = it_node it"
proof -
  obtain it' where n: "efs_iterator_next_dirent rd ctx it = (0, it')" "efs_cursor img ctx it' s es" "efs_on it' s (p, e)"
    using next_dirent_entry [OF ctx c] by blast
  then obtain t where "it_dirent it' = e @ t" by (auto simp: efs_on_def)
  then have "want (efs_iterator_dir_entry it') = Some (W e)"
    using d efs_cursor_wf [OF c] by (simp add: efs_decides_def efs_iterator_dir_entry_def)
  then have "efs_seek rd ctx want it = (if W e then Some (0, it') else efs_seek rd ctx want it')"
    using n(1) by (subst efs_seek.simps) (simp add: Let_def)
  moreover have "it_node it' = it_node it" using n(2) c by (simp add: efs_cursor_def)
  ultimately show ?thesis using n by blast
qed

lemma seek_node:
  assumes ctx: "efs_context_ok ctx" and d: "efs_decides want W"
    and last: "\<And>it. efs_cursor img ctx it s [] \<Longrightarrow> efs_chain img ctx (node_next (it_node it)) ns \<Longrightarrow>
      efs_found img ctx W (efs_rest s [] ns) (efs_seek rd ctx want it)"
  shows "efs_cursor img ctx it s es \<Longrightarrow> efs_chain img ctx (node_next (it_node it)) ns \<Longrightarrow>
    efs_found img ctx W (efs_rest s es ns) (efs_seek rd ctx want it)"
proof (induction es arbitrary: it)
  case Nil
  then show ?case by (rule last)
next
  case (Cons pe es)
  obtain p e where pe: "pe = (p, e)" by (cases pe)
  obtain it' where st: "efs_seek rd ctx want it = (if W e then Some (0, it') else efs_seek rd ctx want it')"
    "efs_cursor img ctx it' s es" "efs_on it' s (p, e)" "it_node it' = it_node it"
    using seek_entry [OF ctx _ d] Cons.prems(1) pe by metis
  show ?case
  proof (cases "W e")
    case True
    have "efs_place img ctx it' (efs_rest s es ns)" using st(2,4) Cons.prems(2) by (auto simp: efs_place_def)
    with True st pe show ?thesis by (simp add: efs_found_def)
  next
    case False
    then show ?thesis using Cons.IH [OF st(2)] Cons.prems(2) st(1,4) pe by (simp add: efs_found_def)
  qed
qed

lemma seek_spec:
  assumes ctx: "efs_context_ok ctx" and d: "efs_decides want W"
  shows "efs_cursor img ctx it s es \<Longrightarrow> efs_chain img ctx (node_next (it_node it)) ns \<Longrightarrow>
    efs_found img ctx W (efs_rest s es ns) (efs_seek rd ctx want it)"
proof (induction ns arbitrary: it s es)
  case Nil
  show ?case
  proof (rule seek_node [OF ctx d _ Nil])
    fix it assume c: "efs_cursor img ctx it s []" and ch: "efs_chain img ctx (node_next (it_node it)) []"
    obtain it' where "efs_iterator_next_dirent rd ctx it = (EFS_ERROR_EOF, it')" "it_node it' = it_node it"
      using next_dirent_end [OF c] by blast
    then have "efs_seek rd ctx want it = Some (EFS_ERROR_EOF, it')"
      using ch by (subst efs_seek.simps) (simp add: efs_iterator_next_node_def)
    then show "efs_found img ctx W (efs_rest s [] []) (efs_seek rd ctx want it)" by (simp add: efs_found_def)
  qed
next
  case (Cons n ns)
  obtain s' es' where n: "n = (s', es')" by (cases n)
  show ?case
  proof (rule seek_node [OF ctx d _ Cons.prems])
    fix it assume c: "efs_cursor img ctx it s []" and ch: "efs_chain img ctx (node_next (it_node it)) (n # ns)"
    obtain it1 where it1: "efs_iterator_next_dirent rd ctx it = (EFS_ERROR_EOF, it1)" "it_node it1 = it_node it"
      using next_dirent_end [OF c] by blast
    have "length (it_node it1) = sizeof_efs_node" using c it1(2) by (auto simp: efs_cursor_def)
    from next_node_chain [OF ctx this] ch it1(2) n obtain it2
      where it2: "efs_iterator_next_node rd ctx it1 = (0, it2)" "efs_cursor img ctx it2 s' es'"
        "efs_chain img ctx (node_next (it_node it2)) ns" by auto
    have "efs_seek rd ctx want it = efs_seek rd ctx want it2"
      using it1 it2 by (subst efs_seek.simps) simp
    then show "efs_found img ctx W (efs_rest s [] (n # ns)) (efs_seek rd ctx want it)"
      using Cons.IH [OF it2(2,3)] n by simp
  qed
qed

lemma seek_place:
  assumes "efs_context_ok ctx" and "efs_decides want W" and "efs_place img ctx it rest"
  shows "efs_found img ctx W rest (efs_seek rd ctx want it)"
  using assms seek_spec by (auto simp: efs_place_def)

end

lemma efs_decides_self:
  "efs_decides (\<lambda>d. do { ref \<leftarrow> efs_dir_entry_inode_ref d;
      if ref = inode then efs_find_check_type d EFS_FIND_TYPE_SELF else Some False }) (ent_self inode)"
  unfolding efs_decides_def
proof (intro allI impI)
  fix e t :: buf assume wf: "efs_entry_wf e"
  show "(do { ref \<leftarrow> efs_dir_entry_inode_ref (e @ t);
      if ref = inode then efs_find_check_type (e @ t) EFS_FIND_TYPE_SELF else Some False }) = Some (ent_self inode e)"
    using efs_entry_ref [OF wf, of t] efs_entry_check_type(2) [OF wf, of t] by (simp add: ent_self_def)
qed

lemma efs_decides_child:
  assumes "efs_dir_entry_inode_ref parent = Some inode"
  shows "efs_decides (\<lambda>d. do { ref \<leftarrow> efs_dir_entry_inode_ref parent;
      if de_parent_inode d = ref then efs_find_check_type d EFS_FIND_TYPE_CHILD else Some False }) (ent_child inode)"
  unfolding efs_decides_def
proof (intro allI impI)
  fix e t :: buf assume wf: "efs_entry_wf e"
  show "(do { ref \<leftarrow> efs_dir_entry_inode_ref parent;
      if de_parent_inode (e @ t) = ref then efs_find_check_type (e @ t) EFS_FIND_TYPE_CHILD else Some False }) =
      Some (ent_child inode e)"
    using assms efs_entry_head(4) [OF wf, of t] efs_entry_check_type(1) [OF wf, of t] by (simp add: ent_child_def)
qed

context efs_device
begin

lemma root_place:
  assumes db: "efs_database img ctx ns" and l: "length (it_node it) = sizeof_efs_node"
  shows "\<exists>it'. efs_iterator_root rd ctx it = Some (0, it') \<and> efs_place img ctx it' (efs_entries ns)"
proof -
  obtain s es ms where ns: "ns = (s, es) # ms" using db by (cases ns) (auto simp: efs_database_def)
  have ctx: "efs_context_ok ctx" and s: "sectors_per_block ctx * (database_root ctx + 1) = int s + 1"
    and ch: "efs_node_ok img ctx s es" "efs_chain img ctx (node_next (chunk (efs_sector_at ctx s) sizeof_efs_node img)) ms"
    using db ns by (auto simp: efs_database_def)
  have so: "efs_sector_at ctx s + sizeof_efs_node \<le> length img" using ch(1) by (simp add: efs_node_ok_def)
  have c: "int (efs_sector_at ctx s) = superblock_offset ctx + sector_size ctx * (int s + 1)"
    using ctx by (simp add: efs_sector_at_def efs_context_ok_def algebra_simps)
  have lim: "superblock_offset ctx + sector_size ctx * (int s + 1) < 2 ^ 62"
    using so img_small unfolding c [symmetric] by simp
  have pos: "0 \<le> superblock_offset ctx" "0 < sector_size ctx" using ctx by (simp_all add: efs_context_ok_def)
  then have mul: "0 \<le> sector_size ctx * int s" by simp
  have e: "sector_size ctx * (int s + 1) = sector_size ctx * int s + sector_size ctx" by (simp add: algebra_simps)
  have bo: "efs_block_to_offset ctx (database_root ctx) = superblock_offset ctx + sector_size ctx * (int s + 1)"
  proof -
    have "0 \<le> superblock_offset ctx + sector_size ctx * (int s + 1)" using pos mul e by linarith
    with lim have "to_long (superblock_offset ctx + sector_size ctx * (int s + 1)) =
        superblock_offset ctx + sector_size ctx * (int s + 1)" by (intro to_long_small) simp_all
    then show ?thesis by (simp add: efs_block_to_offset_def mult.assoc s)
  qed
  have "sector_size ctx * int s < 2 ^ 62" using lim pos e by linarith
  then have "to_long (sector_size ctx * int s) = sector_size ctx * int s" "to_ulong (sector_size ctx * int s) = sector_size ctx * int s"
    using mul by (simp_all add: to_long_small to_ulong_small)
  then have "efs_offset_to_sector ctx (efs_block_to_offset ctx (database_root ctx)) = Some (int s)"
    using pos unfolding bo efs_offset_to_sector_def e by simp
  then have "efs_iterator_root rd ctx it = Some (0, it\<lparr>it_sector := int s,
      it_node := chunk (efs_sector_at ctx s) sizeof_efs_node img, it_pos := 0, it_dirent := replicate sizeof_dirent 0\<rparr>)"
    using iterator_sector [OF ctx so l] by (simp add: efs_iterator_root_def)
  moreover have "efs_place img ctx (it\<lparr>it_sector := int s,
      it_node := chunk (efs_sector_at ctx s) sizeof_efs_node img, it_pos := 0, it_dirent := replicate sizeof_dirent 0\<rparr>)
      (efs_entries ns)"
    using ch so ns unfolding efs_place_def
    by (intro exI [of _ s] exI [of _ es] exI [of _ ms])
      (simp add: efs_cursor_def efs_node_ok_def efs_entries_def efs_rest_def)
  ultimately show ?thesis by blast
qed

lemma child_search:
  assumes "efs_context_ok ctx" and "efs_place img ctx it rest" and "efs_dir_entry_inode_ref parent = Some inode"
  shows "efs_found img ctx (ent_child inode) rest (efs_iterator_next_child_of rd ctx it parent EFS_FIND_TYPE_CHILD)"
  unfolding efs_iterator_next_child_of_def using seek_place assms efs_decides_child by blast

lemma root_search:
  assumes db: "efs_database img ctx ns"
  shows "efs_found img ctx (ent_self inode) (efs_entries ns)
    (efs_iterator_find_inode rd ctx (efs_iterator_invalid it) inode EFS_FIND_TYPE_SELF)"
proof -
  have "length (it_node (efs_iterator_invalid it)) = sizeof_efs_node"
    by (simp add: efs_iterator_invalid_def efs_iterator_zero_def)
  then obtain it' where "efs_iterator_root rd ctx (efs_iterator_invalid it) = Some (0, it')"
    "efs_place img ctx it' (efs_entries ns)" using root_place [OF db] by blast
  moreover have "\<not> efs_iterator_is_valid ctx (efs_iterator_invalid it)"
    by (simp add: efs_iterator_is_valid_def efs_iterator_invalid_def)
  moreover have "efs_context_ok ctx" using db by (simp add: efs_database_def)
  ultimately show ?thesis
    using seek_place [OF _ efs_decides_self, of ctx it' "efs_entries ns" inode] by (simp add: efs_iterator_find_inode_def del: EFS_FIND_TYPE_SELF_def)
qed

end

text \<open>C21: on an image whose directory database is a list of well-formed nodes, the search for the next child of a
  directory returns; it stops at the first child among the entries that follow the iterator, skipping
  \<open>.\<close> and \<open>..\<close>, and reports the end of the database when there is none.\<close>

theorem efs_next_child_first:
  assumes "efs_device rd img" and "efs_context_ok ctx" and "efs_place img ctx it rest"
    and "efs_dir_entry_inode_ref parent = Some inode"
  shows "case dropWhile (\<lambda>(s, p, e). \<not> ent_child inode e) rest of
      [] \<Rightarrow> \<exists>it'. efs_iterator_next_child_of rd ctx it parent EFS_FIND_TYPE_CHILD = Some (EFS_ERROR_EOF, it')
    | (s, p, e) # xs \<Rightarrow> \<exists>it'. efs_iterator_next_child_of rd ctx it parent EFS_FIND_TYPE_CHILD = Some (0, it') \<and>
        efs_on it' s (p, e) \<and> efs_place img ctx it' xs"
proof -
  have eq: "(\<lambda>(s, p, e). \<not> ent_child inode e) = (\<lambda>x :: nat \<times> nat \<times> buf. \<not> ent_child inode (snd (snd x)))"
    by (auto simp: fun_eq_iff)
  show ?thesis
    unfolding eq using efs_device.child_search [OF assms] unfolding efs_found_def
    by (auto split: list.splits simp del: dropWhile_eq_Nil_conv)
qed

text \<open>C23: when the first entry of a node has size 0, the search for an inode from the start of the node
  follows a null pointer: the size is not checked before the inode item of the entry is used.\<close>

theorem efs_empty_entry_faults:
  assumes dev: "efs_device rd img" and ctx: "efs_context_ok ctx"
    and it: "it_sector it = int s" "efs_iterator_is_valid ctx it" "it_pos it = 0" "length (it_dirent it) = sizeof_dirent"
    and used: "sizeof_efs_dir_entry \<le> le_field 8 2 (it_node it)"
    and e: "efs_sector_at ctx s + 18 + 2 + 255 \<le> length img" "img ! (efs_sector_at ctx s + 18) = 0"
      "img ! (efs_sector_at ctx s + 20) = EFS_DIR_ENTRY_TYPE"
  shows "efs_iterator_find_inode rd ctx it inode type = None"
proof -
  define base where "base = efs_sector_at ctx s + 18"
  define n where "n = 2 + unat (img ! (base + 1))"
  have n: "2 \<le> n" "n \<le> 257" using unsigned_less [where 'a = nat, of "img ! (base + 1)"] by (auto simp: n_def)
  have l: "base + 257 \<le> length img" using e(1) by (simp add: base_def)
  have off: "to_long (efs_sector_to_offset ctx (int s) + 18) = int base"
    using efs_device.sector_offset_plus [OF dev ctx, of s 18] e(1) by (simp add: base_def)
  have f: "le_field i 1 (chunk base k img @ t) = unat (img ! (base + i))" if "i < k" "k \<le> 257" for i k t
  proof -
    have "le_field i 1 (chunk base k img @ t) = le_nat (chunk (base + i) 1 img)"
      using that l by (simp add: le_field_append_left) (simp add: le_field_def chunk_chunk)
    also have "chunk (base + i) 1 img = [img ! (base + i)]"
      using that l by (intro nth_equalityI) (auto simp: nth_chunk)
    finally show ?thesis by simp
  qed
  have h1: "rd_into rd (int base) 7 (replicate 7 0) = (7, chunk base 7 img @ [])"
    using efs_device.rd_into_serves [OF dev, of base 7] l by (simp add: blit_def)
  have t: "de_type (chunk base 7 img @ []) = EFS_DIR_ENTRY_TYPE"
    using l e(3) by (simp add: de_type_def nth_chunk base_def add.commute)
  have z: "efs_dir_entry_size (chunk base 7 img @ []) = n"
    using f [of 0 7 "[]"] f [of 1 7 "[]"] e(2)
    by (simp add: efs_dir_entry_size_def de_size_def de_inode_item_size_def n_def base_def)
  define d where "d = chunk base n img @ drop n (it_dirent it)"
  have h2: "rd_into rd (int base) n (it_dirent it) = (int n, d)"
    using efs_device.rd_into_serves [OF dev, of base n] l n by (simp add: blit_def d_def)
  have u: "\<not> to_ulong (int sizeof_efs_node + node_used (it_node it) - 18) < 7"
    using used le_field_bound [of 8 2 "it_node it"] by (simp add: node_used_def to_ulong_small)
  have "efs_iterator_next_dirent rd ctx it = (0, it\<lparr>it_pos := 18, it_dirent := d\<rparr>)"
    using u off h1 h2 t z it by (simp add: efs_iterator_next_dirent_def efs_read_dir_entry_def Let_def)
  moreover have "de_size d = 0" using f [of 0 n "drop n (it_dirent it)"] n e(2) by (simp add: d_def de_size_def base_def)
  ultimately show ?thesis
    using it(2) by (simp add: efs_iterator_find_inode_def efs_seek.simps [of rd ctx _ it] efs_iterator_dir_entry_def
        efs_dir_entry_inode_ref_def efs_dir_entry_inode_item_def)
qed

lemma efs_img_device: "length img < 2 ^ 62 \<Longrightarrow> efs_device (efs_img_rd img) img"
  by unfold_locales (auto simp: efs_img_rd_def)

lemma efs_ex_entries_wf: "efs_entry_wf efs_ex_root" "efs_entry_wf efs_ex_file"
  by (simp_all add: efs_entry_wf_def efs_ex_root_def efs_ex_file_def efs_dir_entry_size_def de_size_def
      de_inode_item_size_def de_type_def le_field_def chunk_def)

lemma efs_ex_database: "efs_database efs_ex_img efs_ex_ctx efs_ex_nodes"
proof -
  have n: "chunk 64 18 efs_ex_img = efs_ex_node 24" by (simp add: chunk_def efs_ex_img_def efs_ex_node_def)
  have f: "le_field 8 2 (efs_ex_node 24) = 24" "node_next (efs_ex_node 24) = EFS_INVALID_SECTOR"
    by (simp_all add: efs_ex_node_def le_field_def chunk_def node_next_def)
  have l: "length efs_ex_root = 12" "length efs_ex_file = 12" "length efs_ex_img = 106"
    by (simp_all add: efs_ex_root_def efs_ex_file_def efs_ex_img_def efs_ex_node_def)
  have c: "chunk 82 12 efs_ex_img = efs_ex_root" "chunk 94 12 efs_ex_img = efs_ex_file"
    by (simp_all add: chunk_def efs_ex_img_def efs_ex_node_def efs_ex_root_def efs_ex_file_def)
  have s: "efs_sector_at efs_ex_ctx 0 = 64" by (simp add: efs_sector_at_def efs_ex_ctx_def)
  show ?thesis
    using n f l c efs_ex_entries_wf
    by (simp add: efs_database_def efs_ex_nodes_def efs_node_ok_def s)
      (simp add: efs_context_ok_def efs_ex_ctx_def)
qed

theorem efs_next_child_first_witness:
  "\<exists>it it'. efs_iterator_next_child_of (efs_img_rd efs_ex_img) efs_ex_ctx it efs_ex_root EFS_FIND_TYPE_CHILD = Some (0, it') \<and>
     it_pos it' = 30 \<and> it_sector it' = 0"
proof -
  have dev: "efs_device (efs_img_rd efs_ex_img) efs_ex_img"
    by (rule efs_img_device) (simp add: efs_ex_img_def efs_ex_node_def efs_ex_root_def efs_ex_file_def)
  obtain it where it: "efs_place efs_ex_img efs_ex_ctx it (efs_entries efs_ex_nodes)"
    using efs_device.root_place [OF dev efs_ex_database, of efs_iterator_zero] by (auto simp: efs_iterator_zero_def)
  have "efs_dir_entry_inode_ref efs_ex_root = Some 1"
    using efs_entry_ref [OF efs_ex_entries_wf(1), of "[]"]
    by (simp add: ent_ref_def efs_ex_root_def de_size_def le_field_def chunk_def)
  moreover have "ent_child 1 efs_ex_file" "\<not> ent_child 1 efs_ex_root"
    by (simp_all add: ent_child_def ent_current_def ent_parent_def ent_ref_def efs_ex_file_def efs_ex_root_def
        de_size_def de_parent_inode_def le_field_def chunk_def)
  moreover have "efs_context_ok efs_ex_ctx" by (simp add: efs_context_ok_def efs_ex_ctx_def)
  ultimately show ?thesis
    using efs_next_child_first [OF dev _ it, of efs_ex_root 1]
    by (auto simp: efs_entries_def efs_ex_nodes_def efs_on_def)
qed

theorem efs_empty_entry_faults_witness:
  "efs_iterator_find_inode (efs_img_rd efs_bad_img) efs_ex_ctx
     \<lparr>it_sector = 0, it_node = efs_ex_node 24, it_pos = 0, it_dirent = replicate sizeof_dirent 0\<rparr> 1 EFS_FIND_TYPE_SELF = None"
proof -
  have dev: "efs_device (efs_img_rd efs_bad_img) efs_bad_img"
    by (rule efs_img_device) (simp add: efs_bad_img_def efs_ex_node_def)
  have "efs_context_ok efs_ex_ctx" "efs_sector_at efs_ex_ctx 0 = 64"
    by (simp_all add: efs_context_ok_def efs_ex_ctx_def efs_sector_at_def)
  moreover have "efs_bad_img ! 82 = 0" "efs_bad_img ! 84 = 100" "length efs_bad_img = 385"
    by (simp_all add: efs_bad_img_def efs_ex_node_def nth_append)
  moreover have "le_field 8 2 (efs_ex_node 24) = 24" by (simp add: efs_ex_node_def le_field_def chunk_def)
  ultimately show ?thesis
    by (intro efs_empty_entry_faults [OF dev, where s = 0]) (simp_all add: efs_iterator_is_valid_def efs_ex_ctx_def)
qed

end
