(* ===== verification/Efs_File.thy ===== *)
theory Efs_File
  imports Efs
begin

text \<open>
  Paths, traversal, mounting and file access of the EFS reader: the rest of
  board/particle/tachyon/efs_impl.c and efs.c. A path is the bytes of a C string without its final
  NUL. The lemmas show which bytes a file read returns, that a mounted context comes from a super
  block and a group descriptor of the image, and how inline files are read.
\<close>

subsection \<open>Inodes\<close>

definition efs_dir_entry_is_directory :: "efs_rd \<Rightarrow> efs_context \<Rightarrow> buf \<Rightarrow> bool option" where
  "efs_dir_entry_is_directory rd ctx d =
     do {
       item \<leftarrow> efs_dir_entry_inode_item d;
       if d ! item \<noteq> EFS_INODE_ITEM_REF then Some False
       else
         (case efs_read_inode rd ctx (replicate sizeof_efs_inode 0) (int (le_field (item + 1) 4 d)) of (r, inode) \<Rightarrow>
            Some (r \<ge> 0 \<and> inode_mode inode div S_IFDIR mod 2 = 1))
     }"

definition efs_inode_size :: "efs_rd \<Rightarrow> efs_context \<Rightarrow> buf \<Rightarrow> int option" where
  "efs_inode_size rd ctx d =
     do {
       item \<leftarrow> efs_dir_entry_inode_item d;
       if d ! item = EFS_INODE_ITEM_REF then do {
         ref \<leftarrow> efs_dir_entry_inode_ref d;
         (case efs_read_inode rd ctx (replicate sizeof_efs_inode 0) ref of (r, inode) \<Rightarrow>
            Some (if r < 0 then to_int r else inode_size inode))
       }
       else if d ! item = EFS_INODE_ITEM_INLINE \<or> d ! item = EFS_INODE_ITEM_INLINE_EXT
       then map_option to_long (efs_inode_item_data_size d)
       else Some 0
     }"

text \<open>
  One read of \<open>efs_inode_read\<close>: the rest of the sector or of the request, from \<open>sector\<close> into
  \<open>buffer + pos\<close>. The result is a status, the new position and the buffer; \<^term>\<open>None\<close> when the bytes
  do not fit in the buffer.
\<close>

definition efs_read_piece ::
    "efs_rd \<Rightarrow> efs_context \<Rightarrow> int \<Rightarrow> int \<Rightarrow> int \<Rightarrow> int \<Rightarrow> buf \<Rightarrow> (int \<times> int \<times> buf) option" where
  "efs_read_piece rd ctx sector bytes_to_skip sz pos buffer =
     (case rd (to_long (efs_sector_to_offset ctx sector + bytes_to_skip))
              (min (sector_size ctx - bytes_to_skip) (sz - pos)) of (r, bs) \<Rightarrow>
        if length buffer < nat pos + length bs then None
        else Some (if r < 0 then r else 0, if r < 0 then pos else pos + r, blit (nat pos) bs buffer))"

text \<open>The loop over the direct sectors, from index \<open>i\<close> on.\<close>

function efs_read_direct ::
    "efs_rd \<Rightarrow> efs_context \<Rightarrow> buf \<Rightarrow> nat \<Rightarrow> int \<Rightarrow> int \<Rightarrow> int \<Rightarrow> buf \<Rightarrow> (int \<times> int \<times> int \<times> buf) option" where
  "efs_read_direct rd ctx inode i bytes_to_skip sz pos buffer =
     (if i < 13 \<and> pos < sz then
        (if \<not> efs_sector_valid ctx (inode_sector inode i) then Some (EFS_ERROR_EOF, pos, bytes_to_skip, buffer)
         else
           (case efs_read_piece rd ctx (inode_sector inode i) bytes_to_skip sz pos buffer of
              None \<Rightarrow> None
            | Some (r, pos', buffer') \<Rightarrow>
                if r < 0 then Some (r, pos', bytes_to_skip, buffer')
                else efs_read_direct rd ctx inode (i + 1) 0 sz pos' buffer'))
      else Some (0, pos, bytes_to_skip, buffer))"
  by pat_completeness auto
termination
  by (relation "measure (\<lambda>(rd, ctx, inode, i, bytes_to_skip, sz, pos, buffer). 13 - i)") auto

declare efs_read_direct.simps [simp del]

text \<open>The inner loop over the entries of one indirect sector.\<close>

function efs_read_refs ::
    "efs_rd \<Rightarrow> efs_context \<Rightarrow> int \<Rightarrow> int \<Rightarrow> int \<Rightarrow> int \<Rightarrow> int \<Rightarrow> buf \<Rightarrow> (int \<times> int \<times> int \<times> buf) option" where
  "efs_read_refs rd ctx sector sector_idx bytes_to_skip sz pos buffer =
     (if sector_idx < sector_size ctx div 4 \<and> pos < sz then
        (if \<not> efs_sector_valid ctx sector then Some (EFS_ERROR_EOF, pos, bytes_to_skip, buffer)
         else
           (case rd_into rd (to_long (efs_sector_to_offset ctx sector + sector_idx * 4)) 4 (replicate 4 0xff) of (r0, ref) \<Rightarrow>
              if r0 < 0 then Some (r0, pos, bytes_to_skip, buffer)
              else if \<not> efs_sector_valid ctx (int (le_field 0 4 ref)) then Some (EFS_ERROR_EOF, pos, bytes_to_skip, buffer)
              else
                (case efs_read_piece rd ctx (int (le_field 0 4 ref)) bytes_to_skip sz pos buffer of
                   None \<Rightarrow> None
                 | Some (r, pos', buffer') \<Rightarrow>
                     if r < 0 then Some (r, pos', bytes_to_skip, buffer')
                     else efs_read_refs rd ctx sector (sector_idx + 1) 0 sz pos' buffer')))
      else Some (0, pos, bytes_to_skip, buffer))"
  by pat_completeness auto
termination
  by (relation "measure (\<lambda>(rd, ctx, sector, sector_idx, bytes_to_skip, sz, pos, buffer). nat (sector_size ctx div 4 - sector_idx))")
    auto

declare efs_read_refs.simps [simp del]

function efs_read_indirect ::
    "efs_rd \<Rightarrow> efs_context \<Rightarrow> buf \<Rightarrow> nat \<Rightarrow> int \<Rightarrow> int \<Rightarrow> int \<Rightarrow> int \<Rightarrow> buf \<Rightarrow> (int \<times> int \<times> buf) option" where
  "efs_read_indirect rd ctx inode i sectors_to_skip bytes_to_skip sz pos buffer =
     (if i < 3 \<and> pos < sz then
        (case efs_read_refs rd ctx (inode_sector_indirect inode i) sectors_to_skip bytes_to_skip sz pos buffer of
           None \<Rightarrow> None
         | Some (r, pos', bytes_to_skip', buffer') \<Rightarrow>
             if r < 0 then Some (r, pos', buffer')
             else efs_read_indirect rd ctx inode (i + 1) 0 bytes_to_skip' sz pos' buffer')
      else Some (0, pos, buffer))"
  by pat_completeness auto
termination
  by (relation "measure (\<lambda>(rd, ctx, inode, i, s, bytes_to_skip, sz, pos, buffer). 3 - i)") auto

declare efs_read_indirect.simps [simp del]

text \<open>The value returned and the buffer; a sector smaller than an entry of an indirect sector is a division by zero only
  when sectors are skipped.\<close>

definition efs_inode_read ::
    "efs_rd \<Rightarrow> efs_context \<Rightarrow> buf \<Rightarrow> buf \<Rightarrow> int \<Rightarrow> int \<Rightarrow> (int \<times> buf) option" where
  "efs_inode_read rd ctx inode buffer offset0 size0 =
     (let offset = min offset0 (inode_size inode);
          sz = min size0 (inode_size inode - offset)
      in if sector_size ctx = 0 then None
         else
           (let sectors_to_skip = to_ulong offset mod sector_size ctx;
                bytes_to_skip = to_long (offset - sectors_to_skip * sector_size ctx)
            in case efs_read_direct rd ctx inode (nat sectors_to_skip) bytes_to_skip sz 0 buffer of
                 None \<Rightarrow> None
               | Some (r, pos, bytes_to_skip', buffer') \<Rightarrow>
                   if r < 0 then Some (r, buffer')
                   else
                     (let spi = sector_size ctx div 4 in
                      if sectors_to_skip > 0 \<and> spi = 0 then None
                      else
                        (let indirect_idx = (if sectors_to_skip > 0 then sectors_to_skip div spi else 0);
                             skip' = (if sectors_to_skip > 0 then sectors_to_skip - indirect_idx * spi else sectors_to_skip)
                         in case efs_read_indirect rd ctx inode (nat indirect_idx) skip' bytes_to_skip' sz pos buffer' of
                              None \<Rightarrow> None
                            | Some (r', pos', buffer'') \<Rightarrow> Some (if r' < 0 then r' else pos', buffer'')))))"

subsection \<open>Paths\<close>

record efs_path =
  path_pos :: int
  path_buf :: buf
  path_log :: "buf list"

text \<open>What \<open>strncpy\<close> stores: the bytes before the first NUL, filled up with NULs.\<close>

definition c_strncpy :: "buf \<Rightarrow> nat \<Rightarrow> buf" where
  "c_strncpy name n =
     (let s = takeWhile (\<lambda>c. c \<noteq> 0) (take n name) in s @ replicate (n - length s) 0)"

definition c_string :: "buf \<Rightarrow> buf" where
  "c_string b = takeWhile (\<lambda>c. c \<noteq> 0) b"

definition efs_path_append :: "buf \<Rightarrow> nat \<Rightarrow> int \<Rightarrow> buf \<Rightarrow> (int \<times> buf) option" where
  "efs_path_append path off len d =
     do {
       (name, name_len) \<leftarrow> efs_dir_entry_name d;
       if to_ulong (name_len + 1) > len then Some (EFS_ERROR_GENERIC, path)
       else if length path \<le> off + nat name_len then None
       else Some (to_int name_len, (blit off (c_strncpy name (nat name_len)) path)[off + nat name_len := 0])
     }"

text \<open>The path pushed is logged: \<open>path_log\<close> collects the lines.\<close>

definition efs_path_push :: "efs_context \<Rightarrow> efs_path \<Rightarrow> efs_iterator \<Rightarrow> (int \<times> efs_path) option" where
  "efs_path_push ctx path it =
     (if path_pos path = 0 then
        do {
          (r, b) \<leftarrow> efs_path_append (path_buf path) 0 (int EFS_MAX_PATH) (efs_iterator_dir_entry it);
          if r < 0 then Some (r, path\<lparr>path_buf := b\<rparr>)
          else do {
            root \<leftarrow> efs_iterator_is_root_inode ctx it;
            if root \<and> (r = 0 \<or> EFS_MAX_PATH < nat r) then None
            else
              (let b' = (if root then b[nat (r - 1) := 0x2f] else b)
               in Some (to_int r, path\<lparr>path_pos := r, path_buf := b', path_log := path_log path @ [c_string b']\<rparr>))
          }
        }
      else if int EFS_MAX_PATH < path_pos path then None
      else
        (let sep = path_buf path ! nat (path_pos path - 1) \<noteq> 0x2f in
         if sep \<and> path_pos path = int EFS_MAX_PATH then None
         else
           (let b = (if sep then (path_buf path)[nat (path_pos path) := 0x2f] else path_buf path);
                pos = (if sep then path_pos path + 1 else path_pos path)
            in do {
              (r, b') \<leftarrow> efs_path_append b (nat pos) (int EFS_MAX_PATH - pos) (efs_iterator_dir_entry it);
              if r < 0 then Some (r, path\<lparr>path_pos := pos, path_buf := b'\<rparr>)
              else Some (to_int (pos + r),
                path\<lparr>path_pos := pos + r, path_buf := b', path_log := path_log path @ [c_string b']\<rparr>)
            })))"

definition efs_path_pop :: "efs_path \<Rightarrow> efs_iterator \<Rightarrow> (int \<times> efs_path) option" where
  "efs_path_pop path it =
     (let pos = to_ulong (path_pos path - efs_dir_entry_name_len (efs_iterator_dir_entry it)) in
      if pos > 1 then
        (if int EFS_MAX_PATH < pos then None
         else if path_buf path ! nat (pos - 1) = 0x2f
         then Some (to_int (pos - 1), path\<lparr>path_pos := pos - 1, path_buf := (path_buf path)[nat (pos - 1) := 0]\<rparr>)
         else Some (to_int pos, path\<lparr>path_pos := pos\<rparr>))
      else Some (to_int pos, path\<lparr>path_pos := pos\<rparr>))"

text \<open>The search for the child of \<open>parent\<close> with a given name, the inner loop of \<open>efs_resolve_path\<close>.\<close>

partial_function (option) efs_child_named ::
    "efs_rd \<Rightarrow> efs_context \<Rightarrow> buf \<Rightarrow> buf \<Rightarrow> efs_iterator \<Rightarrow> (int \<times> efs_iterator) option" where
  "efs_child_named rd ctx parent piece it =
     Option.bind (efs_iterator_next_child_of rd ctx it parent EFS_FIND_TYPE_CHILD)
       (\<lambda>n. if fst n < 0 then Some n
            else Option.bind (efs_dir_entry_name_eq (efs_iterator_dir_entry (snd n)) piece (length piece))
              (\<lambda>eq. if eq then Some (0, snd n) else efs_child_named rd ctx parent piece (snd n)))"

text \<open>The loop over the characters of the path: \<open>piece\<close> runs from \<open>start\<close> to \<open>p\<close>, \<open>rest\<close> from \<open>p\<close> to the final NUL.\<close>

fun efs_resolve_loop ::
    "efs_rd \<Rightarrow> efs_context \<Rightarrow> buf \<Rightarrow> buf \<Rightarrow> efs_iterator \<Rightarrow> efs_iterator \<Rightarrow> (int \<times> efs_iterator) option" where
  "efs_resolve_loop rd ctx piece [] root it =
     do {
       (r, it1) \<leftarrow> efs_iterator_root rd ctx it;
       if r < 0 then Some (r, it1)
       else do {
         (r2, it2) \<leftarrow> efs_child_named rd ctx (efs_iterator_dir_entry root) piece it1;
         Some (if r2 < 0 then r2 else 0, it2)
       }
     }"
| "efs_resolve_loop rd ctx piece (c # cs) root it =
     (if c = EFS_PATH_SEPARATOR then
        do {
          (r, it1) \<leftarrow> efs_iterator_root rd ctx it;
          if r < 0 then Some (r, it1)
          else do {
            (r2, it2) \<leftarrow> efs_child_named rd ctx (efs_iterator_dir_entry root) piece it1;
            if r2 < 0 then Some (r2, it2) else efs_resolve_loop rd ctx [] cs it2 it2
          }
        }
      else efs_resolve_loop rd ctx (piece @ [c]) cs root it)"

text \<open>A path that does not begin with a separator makes the loop read the byte before it.\<close>

definition efs_resolve_path :: "efs_rd \<Rightarrow> efs_context \<Rightarrow> buf \<Rightarrow> efs_iterator \<Rightarrow> (int \<times> efs_iterator) option" where
  "efs_resolve_path rd ctx path it =
     do {
       (_, root) \<leftarrow> efs_iterator_root_inode rd ctx (efs_iterator_invalid efs_iterator_zero);
       if path = [] \<or> hd path \<noteq> EFS_PATH_SEPARATOR then None
       else efs_resolve_loop rd ctx [] (dropWhile (\<lambda>c. c = EFS_PATH_SEPARATOR) path) root it
     }"

subsection \<open>Traversal\<close>

text \<open>The local variables of \<open>efs_traverse\<close>.\<close>

record efs_walk =
  w_it :: efs_iterator
  w_cur :: efs_iterator
  w_parent :: efs_iterator
  w_path :: efs_path

definition efs_walk_push :: "efs_context \<Rightarrow> efs_walk \<Rightarrow> efs_iterator \<Rightarrow> efs_walk option" where
  "efs_walk_push ctx w it = map_option (\<lambda>(_, p). w\<lparr>w_path := p\<rparr>) (efs_path_push ctx (w_path w) it)"

definition efs_walk_pop :: "efs_walk \<Rightarrow> efs_walk option" where
  "efs_walk_pop w = map_option (\<lambda>(_, p). w\<lparr>w_path := p\<rparr>) (efs_path_pop (w_path w) (w_cur w))"

text \<open>
  One turn of the inner loop, which goes up from a directory that has no more entries: a status, whether
  the loop is left, whether the traversal is complete.
\<close>

definition efs_walk_up_step ::
    "efs_rd \<Rightarrow> efs_context \<Rightarrow> efs_iterator \<Rightarrow> efs_walk \<Rightarrow> (int \<times> bool \<times> bool \<times> efs_walk) option" where
  "efs_walk_up_step rd ctx root w0 =
     do {
       let w1 = w0\<lparr>w_cur := w_parent w0\<rparr>;
       eq \<leftarrow> efs_inode_eq (efs_iterator_dir_entry (w_cur w1)) (efs_iterator_dir_entry root);
       if eq then Some (0, True, True, w1)
       else do {
         w2 \<leftarrow> efs_walk_pop w1;
         (r, it) \<leftarrow> efs_iterator_root rd ctx (w_it w2);
         if r < 0 then Some (r, True, False, w2\<lparr>w_it := it\<rparr>)
         else do {
           let up = de_parent_inode (efs_iterator_dir_entry (w_cur w2));
           (r2, it2) \<leftarrow> efs_iterator_find_inode rd ctx it up
             (if up = inode_root ctx then EFS_FIND_TYPE_SELF else EFS_FIND_TYPE_CHILD);
           if r2 < 0 then Some (0, False, False, w2\<lparr>w_it := it2\<rparr>)
           else do {
             (r3, it3) \<leftarrow> efs_iterator_next_sibling_of rd ctx (w_cur w2) (w_cur w2) EFS_FIND_TYPE_CHILD;
             let w3 = w2\<lparr>w_parent := it2, w_it := it3\<rparr>;
             if r3 < 0 then Some (0, False, False, w3)
             else map_option (\<lambda>w4. (0, True, False, w4)) (efs_walk_push ctx (w3\<lparr>w_cur := it3\<rparr>) it3)
           }
         }
       }
     }"

partial_function (option) efs_walk_up ::
    "efs_rd \<Rightarrow> efs_context \<Rightarrow> efs_iterator \<Rightarrow> efs_walk \<Rightarrow> (int \<times> bool \<times> efs_walk) option" where
  "efs_walk_up rd ctx root w =
     Option.bind (efs_walk_up_step rd ctx root w)
       (\<lambda>s. if fst (snd s) then Some (fst s, fst (snd (snd s)), snd (snd (snd s)))
            else efs_walk_up rd ctx root (snd (snd (snd s))))"

text \<open>One turn of the outer loop: a status, whether the traversal is complete, the variables.\<close>

definition efs_walk_step ::
    "efs_rd \<Rightarrow> efs_context \<Rightarrow> efs_iterator \<Rightarrow> efs_walk \<Rightarrow> (int \<times> bool \<times> efs_walk) option" where
  "efs_walk_step rd ctx root w =
     do {
       isdir \<leftarrow> efs_dir_entry_is_directory rd ctx (efs_iterator_dir_entry (w_cur w));
       (r, it) \<leftarrow> (if isdir then efs_iterator_root rd ctx (w_it w) else Some (0, w_it w));
       if r < 0 then Some (r, False, w\<lparr>w_it := it\<rparr>)
       else do {
         (r2, it2) \<leftarrow> (if isdir
           then efs_iterator_next_child_of rd ctx it (efs_iterator_dir_entry (w_cur w)) EFS_FIND_TYPE_CHILD
           else Some (- 1, it));
         let w1 = w\<lparr>w_it := it2\<rparr>;
         if r2 \<ge> 0 then
           map_option (\<lambda>w2. (0, False, w2\<lparr>w_parent := w_cur w2, w_cur := it2\<rparr>)) (efs_walk_push ctx w1 it2)
         else if \<not> efs_iterator_is_valid ctx (w_parent w1) then Some (0, False, w1)
         else do {
           w2 \<leftarrow> efs_walk_pop w1;
           (r3, it3) \<leftarrow> efs_iterator_next_child_of rd ctx (w_cur w2) (efs_iterator_dir_entry (w_parent w2)) EFS_FIND_TYPE_CHILD;
           let w3 = w2\<lparr>w_it := it3\<rparr>;
           if r3 \<ge> 0 then map_option (\<lambda>w4. (0, False, w4\<lparr>w_cur := it3\<rparr>)) (efs_walk_push ctx w3 it3)
           else efs_walk_up rd ctx root w3
         }
       }
     }"

partial_function (option) efs_walk_loop ::
    "efs_rd \<Rightarrow> efs_context \<Rightarrow> efs_iterator \<Rightarrow> efs_walk \<Rightarrow> (int \<times> efs_walk) option" where
  "efs_walk_loop rd ctx root w =
     Option.bind (efs_walk_step rd ctx root w)
       (\<lambda>s. if fst s < 0 then Some (fst s, snd (snd s))
            else if fst (snd s) then Some (0, snd (snd s))
            else efs_walk_loop rd ctx root (snd (snd s)))"

text \<open>The status, the last entry and the lines logged.\<close>

definition efs_traverse :: "efs_rd \<Rightarrow> efs_context \<Rightarrow> efs_iterator \<Rightarrow> (int \<times> efs_iterator \<times> buf list) option" where
  "efs_traverse rd ctx cur =
     (if \<not> efs_iterator_is_valid ctx cur then Some (EFS_ERROR_GENERIC, cur, [])
      else do {
        let path = \<lparr>path_pos = 0, path_buf = replicate EFS_MAX_PATH 0, path_log = []\<rparr>;
        w \<leftarrow> efs_walk_push ctx \<lparr>w_it = efs_iterator_zero, w_cur = cur, w_parent = efs_iterator_invalid cur, w_path = path\<rparr> cur;
        (r, w') \<leftarrow> efs_walk_loop rd ctx cur w;
        Some (r, w_cur w', path_log (w_path w'))
      })"

definition efs_traverse_from_root :: "efs_rd \<Rightarrow> efs_context \<Rightarrow> (int \<times> buf list) option" where
  "efs_traverse_from_root rd ctx =
     do {
       (r, it) \<leftarrow> efs_iterator_root_inode rd ctx (efs_iterator_invalid efs_iterator_zero);
       if r < 0 then Some (r, [])
       else map_option (\<lambda>(r2, _, l). (r2, l)) (efs_traverse rd ctx it)
     }"

subsection \<open>Mounting\<close>

text \<open>The offset found, or a negative status, and the super block last read.\<close>

function efs_find_superblock :: "efs_rd \<Rightarrow> buf \<Rightarrow> nat \<Rightarrow> nat \<Rightarrow> int \<times> buf" where
  "efs_find_superblock rd sb offset en =
     (if offset + sizeof_efs_superblock \<le> en then
        (case rd_into rd (int offset) sizeof_efs_superblock sb of (r, sb') \<Rightarrow>
           if r < 0 then (r, sb')
           else if le_field 0 4 sb' = EFS_SUPER_BLOCK_HEADER \<and> strneq (chunk 8 8 sb') EFS_SUPER_BLOCK_MAGIC 8
           then (int offset, sb')
           else efs_find_superblock rd sb' (offset + 1) en)
      else (EFS_ERROR_GENERIC, sb))"
  by pat_completeness auto
termination
  by (relation "measure (\<lambda>(rd, sb, offset, en). Suc en - offset)") auto

declare efs_find_superblock.simps [simp del]

function efs_find_group_from :: "efs_rd \<Rightarrow> efs_context \<Rightarrow> buf \<Rightarrow> int \<Rightarrow> int \<times> buf" where
  "efs_find_group_from rd ctx desc sector =
     (if sector < sector_count ctx then
        (case rd_into rd (efs_raw_sector_to_offset ctx sector) sizeof_efs_group_descriptor desc of (r, desc') \<Rightarrow>
           if r < 0 then (r, desc')
           else if le_field 0 4 desc' = EFS_GROUP_DESCRIPTOR_HEADER then (efs_raw_sector_to_offset ctx sector, desc')
           else efs_find_group_from rd ctx desc' (sector + 1))
      else (EFS_ERROR_GENERIC, desc))"
  by pat_completeness auto
termination
  by (relation "measure (\<lambda>(rd, ctx, desc, sector). nat (sector_count ctx - sector))") auto

declare efs_find_group_from.simps [simp del]

definition efs_find_group_descriptor :: "efs_rd \<Rightarrow> efs_context \<Rightarrow> buf \<Rightarrow> (int \<times> buf) option" where
  "efs_find_group_descriptor rd ctx desc =
     (if sector_size ctx = 0 then None
      else Some (efs_find_group_from rd ctx desc (to_ulong (efs_block_to_offset ctx 0) div sector_size ctx)))"

definition efs_context_zero :: efs_context where
  "efs_context_zero = \<lparr>superblock_offset = 0, sector_size = 0, sector_count = 0, sectors_per_block = 0,
     database_root = 0, inode_root = 0\<rparr>"

definition efs_mount :: "efs_rd \<Rightarrow> (int \<times> efs_context) option" where
  "efs_mount rd =
     (case rd_into rd 0 sizeof_efs_boot_header (replicate sizeof_efs_boot_header 0) of (r, boot) \<Rightarrow>
      if r < 0 then Some (to_int r, efs_context_zero)
      else if le_field 0 4 boot \<noteq> MBN_IMAGE_ID_BACKUP_RAMFS then Some (EFS_ERROR_GENERIC, efs_context_zero)
      else
      (case rd_into rd (int sizeof_efs_boot_header) sizeof_efs_image_header (replicate sizeof_efs_image_header 0) of (r, header) \<Rightarrow>
       if r < 0 then Some (to_int r, efs_context_zero)
       else if \<not> strneq (chunk 0 6 header) EFS_IMAGE_HEADER 6 \<or> header ! 6 \<noteq> EFS_IMAGE_TYPE_GOLD
       then Some (EFS_ERROR_GENERIC, efs_context_zero)
       else
       (case efs_find_superblock rd (replicate sizeof_efs_superblock 0)
               (sizeof_efs_boot_header + sizeof_efs_image_header) (le_field 16 4 boot) of (pos, sb) \<Rightarrow>
        if pos < 0 then Some (to_int pos, efs_context_zero)
        else
          (let ctx = \<lparr>superblock_offset = pos, sector_size = int (le_field 22 4 sb), sector_count = int (le_field 26 4 sb),
                      sectors_per_block = int (le_field 34 4 sb),
                      database_root = int (le_field (180 + 4 * EFS_UPPER_DB_ROOT) 4 sb), inode_root = 0\<rparr>
           in case efs_find_group_descriptor rd ctx (replicate sizeof_efs_group_descriptor 0) of
                None \<Rightarrow> None
              | Some (g, desc) \<Rightarrow>
                  if g < 0 then Some (to_int g, ctx)
                  else Some (0, ctx\<lparr>inode_root := int (le_field 20 4 desc)\<rparr>)))))"

definition efs_unmount :: "efs_context \<Rightarrow> int" where
  "efs_unmount ctx = 0"

subsection \<open>Files\<close>

text \<open>\<open>inode_it\<close> is a union: the bytes of its longest member.\<close>

record efs_file =
  f_it :: efs_iterator
  f_inode :: buf

text \<open>The status and \<open>*file\<close>; a file stays set when its inode cannot be read.\<close>

definition efs_open :: "c_heap \<Rightarrow> efs_rd \<Rightarrow> efs_context \<Rightarrow> buf \<Rightarrow> (int \<times> efs_file option) option" where
  "efs_open h rd ctx path =
     do {
       (_, it0) \<leftarrow> efs_iterator_root rd ctx efs_iterator_zero;
       (r, it) \<leftarrow> efs_resolve_path rd ctx path it0;
       if r < 0 then Some (r, None)
       else do {
         let d = efs_iterator_dir_entry it;
         isdir \<leftarrow> efs_dir_entry_is_directory rd ctx d;
         if isdir then Some (EFS_ERROR_GENERIC, None)
         else if \<not> malloc_ok h (8 + 18 + 8 + sizeof_dirent + sizeof_efs_inode + 6) then Some (EFS_ERROR_GENERIC, None)
         else do {
           let f = \<lparr>f_it = it, f_inode = replicate sizeof_efs_inode 0\<rparr>;
           item \<leftarrow> efs_dir_entry_inode_item d;
           if d ! item = EFS_INODE_ITEM_REF then do {
             ref \<leftarrow> efs_dir_entry_inode_ref d;
             (case efs_read_inode rd ctx (f_inode f) ref of (r2, inode) \<Rightarrow>
                Some (if r2 < 0 then to_int r2 else 0, Some (f\<lparr>f_inode := inode\<rparr>)))
           }
           else if d ! item = EFS_INODE_ITEM_INLINE
           then Some (0, Some (f\<lparr>f_inode := blit 0 (chunk (item + 1) sizeof_efs_inode_item_inline d) (f_inode f)\<rparr>))
           else if d ! item = EFS_INODE_ITEM_INLINE_EXT
           then Some (0, Some (f\<lparr>f_inode := blit 0 (chunk (item + 1) sizeof_efs_inode_item_inline_ext d) (f_inode f)\<rparr>))
           else Some (EFS_ERROR_GENERIC, None)
         }
       }
     }"

datatype efs_type = EFS_TYPE_UNKNOWN | EFS_TYPE_FILE | EFS_TYPE_DIR

record efs_dirent =
  ent_type :: efs_type
  ent_size :: int
  ent_name :: buf

definition efs_stat :: "efs_rd \<Rightarrow> efs_context \<Rightarrow> buf \<Rightarrow> efs_dirent \<Rightarrow> (int \<times> efs_dirent) option" where
  "efs_stat rd ctx path ent =
     do {
       (_, it0) \<leftarrow> efs_iterator_root rd ctx efs_iterator_zero;
       (r, it) \<leftarrow> efs_resolve_path rd ctx path it0;
       if r < 0 then Some (r, ent)
       else do {
         let d = efs_iterator_dir_entry it;
         (name, name_len) \<leftarrow> efs_dir_entry_name d;
         if int (length (ent_name ent)) < name_len then None
         else do {
           sz \<leftarrow> efs_inode_size rd ctx d;
           isdir \<leftarrow> efs_dir_entry_is_directory rd ctx d;
           Some (0, \<lparr>ent_type = (if isdir then EFS_TYPE_DIR else EFS_TYPE_FILE), ent_size = sz,
                     ent_name = blit 0 (c_strncpy name (nat name_len)) (ent_name ent)\<rparr>)
         }
       }
     }"

text \<open>The copy of inline data from the entry: \<^term>\<open>None\<close> when it leaves the entry's array or the buffer.\<close>

definition efs_read_inline :: "buf \<Rightarrow> nat \<Rightarrow> int \<Rightarrow> buf \<Rightarrow> int \<Rightarrow> int \<Rightarrow> (int \<times> buf) option" where
  "efs_read_inline d data fsize buffer offset0 size0 =
     (let offset = min offset0 fsize; sz = min size0 (fsize - offset) in
      if sz < 0 \<or> int data + offset < 0 \<or> int (length d) < int data + offset + sz \<or> int (length buffer) < sz then None
      else Some (to_int sz, blit 0 (chunk (nat (int data + offset)) (nat sz) d) buffer))"

definition efs_read :: "efs_rd \<Rightarrow> efs_context \<Rightarrow> efs_file \<Rightarrow> buf \<Rightarrow> int \<Rightarrow> int \<Rightarrow> (int \<times> buf) option" where
  "efs_read rd ctx f buffer offset sz =
     do {
       let d = efs_iterator_dir_entry (f_it f);
       item \<leftarrow> efs_dir_entry_inode_item d;
       if d ! item = EFS_INODE_ITEM_REF
       then map_option (\<lambda>(r, b). (to_int r, b)) (efs_inode_read rd ctx (f_inode f) buffer offset sz)
       else if d ! item = EFS_INODE_ITEM_INLINE then do {
         fsize \<leftarrow> efs_inode_size rd ctx d;
         efs_read_inline d (item + 1 + sizeof_efs_inode_item_inline) fsize buffer offset sz
       }
       else if d ! item = EFS_INODE_ITEM_INLINE_EXT then do {
         fsize \<leftarrow> efs_inode_size rd ctx d;
         efs_read_inline d (item + 1 + sizeof_efs_inode_item_inline_ext) fsize buffer offset sz
       }
       else Some (EFS_ERROR_GENERIC, buffer)
     }"

definition efs_close :: "efs_file option \<Rightarrow> int" where
  "efs_close file = (case file of None \<Rightarrow> EFS_ERROR_GENERIC | Some f \<Rightarrow> 0)"

subsection \<open>Specification\<close>

text \<open>The pieces of a path, as the loop cuts them, and the entry a path names.\<close>

fun path_pieces :: "buf \<Rightarrow> buf \<Rightarrow> buf list" where
  "path_pieces piece [] = [piece]"
| "path_pieces piece (c # cs) =
     (if c = EFS_PATH_SEPARATOR then piece # path_pieces [] cs else path_pieces (piece @ [c]) cs)"

definition efs_child :: "(nat \<times> nat \<times> buf) list \<Rightarrow> int \<Rightarrow> buf \<Rightarrow> (nat \<times> nat \<times> buf) option" where
  "efs_child es inode name = List.find (\<lambda>(s, p, e). ent_child inode e \<and> ent_named e name) es"

fun efs_lookup :: "(nat \<times> nat \<times> buf) list \<Rightarrow> int \<Rightarrow> buf list \<Rightarrow> (nat \<times> nat \<times> buf) option" where
  "efs_lookup es inode [] = None"
| "efs_lookup es inode (name # names) =
     (case efs_child es inode name of
        None \<Rightarrow> None
      | Some (s, p, e) \<Rightarrow> if names = [] then Some (s, p, e) else efs_lookup es (ent_ref e) names)"

text \<open>The sectors of a file: the direct ones, then the ones listed in the indirect sectors.\<close>

definition efs_refs :: "buf \<Rightarrow> efs_context \<Rightarrow> int \<Rightarrow> int list" where
  "efs_refs img ctx q =
     map (\<lambda>j. int (le_field (efs_sector_at ctx (nat q) + 4 * j) 4 img)) [0..<nat (sector_size ctx) div 4]"

definition efs_file_sectors :: "buf \<Rightarrow> efs_context \<Rightarrow> buf \<Rightarrow> int list" where
  "efs_file_sectors img ctx inode =
     map (inode_sector inode) [0..<13] @ concat (map (\<lambda>i. efs_refs img ctx (inode_sector_indirect inode i)) [0..<3])"

definition efs_sector_data :: "buf \<Rightarrow> efs_context \<Rightarrow> int \<Rightarrow> buf" where
  "efs_sector_data img ctx k = chunk (efs_sector_at ctx (nat k)) (nat (sector_size ctx)) img"

definition efs_sector_good :: "buf \<Rightarrow> efs_context \<Rightarrow> int \<Rightarrow> bool" where
  "efs_sector_good img ctx k \<longleftrightarrow> efs_sector_valid ctx k \<and> 0 \<le> k \<and>
     efs_sector_at ctx (nat k) + nat (sector_size ctx) \<le> length img"

text \<open>The contents of the first \<open>n\<close> bytes that the sectors \<open>ks\<close> hold.\<close>

definition efs_gather :: "buf \<Rightarrow> efs_context \<Rightarrow> int list \<Rightarrow> nat \<Rightarrow> buf" where
  "efs_gather img ctx ks n = take n (concat (map (efs_sector_data img ctx) ks))"

text \<open>Every sector of \<open>ks\<close> that is needed for \<open>n\<close> bytes is good.\<close>

fun efs_needed_good :: "buf \<Rightarrow> efs_context \<Rightarrow> int list \<Rightarrow> nat \<Rightarrow> bool" where
  "efs_needed_good img ctx [] n = True"
| "efs_needed_good img ctx (k # ks) n =
     (n = 0 \<or> efs_sector_good img ctx k \<and> efs_needed_good img ctx ks (n - nat (sector_size ctx)))"

text \<open>The indirect sectors that are needed, and the sectors they list, are good.\<close>

fun efs_indirect_good :: "buf \<Rightarrow> efs_context \<Rightarrow> int list \<Rightarrow> nat \<Rightarrow> bool" where
  "efs_indirect_good img ctx [] n = True"
| "efs_indirect_good img ctx (q # qs) n =
     (n = 0 \<or> efs_sector_good img ctx q \<and> efs_needed_good img ctx (efs_refs img ctx q) n \<and>
      efs_indirect_good img ctx qs (n - length (efs_gather img ctx (efs_refs img ctx q) n)))"

definition efs_file_good :: "buf \<Rightarrow> efs_context \<Rightarrow> buf \<Rightarrow> nat \<Rightarrow> bool" where
  "efs_file_good img ctx inode n \<longleftrightarrow>
     (let direct = map (inode_sector inode) [0..<13] in
      efs_needed_good img ctx direct n \<and>
      efs_indirect_good img ctx (map (inode_sector_indirect inode) [0..<3]) (n - length (efs_gather img ctx direct n)))"

text \<open>The bytes of a file that its directory entry holds.\<close>

definition ent_item :: "buf \<Rightarrow> nat" where
  "ent_item e = de_size e + 2"

definition ent_inline :: "buf \<Rightarrow> bool" where
  "ent_inline e \<longleftrightarrow> (e ! ent_item e = EFS_INODE_ITEM_INLINE \<and> 3 \<le> de_inode_item_size e \<or>
     e ! ent_item e = EFS_INODE_ITEM_INLINE_EXT \<and> 9 \<le> de_inode_item_size e)"

definition ent_data :: "buf \<Rightarrow> buf" where
  "ent_data e = drop (ent_item e + 1 + (if e ! ent_item e = EFS_INODE_ITEM_INLINE then 2 else 8)) e"

definition efs_super_at :: "buf \<Rightarrow> nat \<Rightarrow> bool" where
  "efs_super_at img p \<longleftrightarrow>
     le_field p 4 img = EFS_SUPER_BLOCK_HEADER \<and> strneq (chunk (p + 8) 8 img) EFS_SUPER_BLOCK_MAGIC 8"

definition efs_first_super :: "buf \<Rightarrow> nat \<Rightarrow> nat \<Rightarrow> nat option" where
  "efs_first_super img off en = List.find (efs_super_at img) [off..<en + 1 - sizeof_efs_superblock]"

definition efs_ex_inode :: buf where
  "efs_ex_inode = replicate 8 0 @ [40, 0, 0, 0] @ replicate 52 0 @ replicate 48 0 @ replicate 4 0 @ [255, 255, 255, 255] @ replicate 8 255"

definition efs_ex_super :: buf where
  "efs_ex_super = [0, 0, 0, 0x53, 0, 0, 0, 0] @ bytes_of_string ''EFSSuper'' @ replicate 6 0 @
     [0, 2, 0, 0, 8, 0, 0, 0] @ replicate 4 0 @ [1, 0, 0, 0] @ replicate 378 0"

definition efs_ex_group :: buf where
  "efs_ex_group = [0xa0, 0x3e, 0xb9, 0xa7] @ replicate 16 0 @ [1, 0, 0, 0]"

definition efs_ex_boot :: buf where
  "efs_ex_boot = [20, 0, 0, 0] @ replicate 12 0 @ [0xdd, 1, 0, 0] @ replicate 20 0"

definition efs_ex_header :: buf where
  "efs_ex_header = bytes_of_string ''IMGEFS'' @ [0x47] @ replicate 14 0"

definition efs_ex_partition :: buf where
  "efs_ex_partition = efs_ex_boot @ efs_ex_header @ efs_ex_super @ replicate 35 0 @ efs_ex_group"

definition efs_ex_data :: buf where
  "efs_ex_data = replicate 64 0 @ replicate 40 9 @ replicate 24 0"

subsection \<open>Lemmas\<close>

lemma path_pieces_ne: "path_pieces piece cs \<noteq> []"
  by (induction piece cs rule: path_pieces.induct) auto

lemma dropWhile_weaker:
  assumes "\<And>y. P y \<Longrightarrow> Q y"
  shows "dropWhile Q (dropWhile P xs) = dropWhile Q xs"
  using assms by (induction xs) auto

lemma find_dropWhile: "List.find P xs = (case dropWhile (\<lambda>x. \<not> P x) xs of [] \<Rightarrow> None | y # ys \<Rightarrow> Some y)"
  by (induction xs) auto

lemma efs_tiles_wf: "efs_tiles img base pos lim es \<Longrightarrow> (p, e) \<in> set es \<Longrightarrow> efs_entry_wf e"
  by (induction img base pos lim es rule: efs_tiles.induct) auto

lemma efs_chain_wf: "efs_chain img ctx nxt ns \<Longrightarrow> (s, es) \<in> set ns \<Longrightarrow> (p, e) \<in> set es \<Longrightarrow> efs_entry_wf e"
  by (induction img ctx nxt ns rule: efs_chain.induct) (auto simp: efs_node_ok_def dest: efs_tiles_wf)

lemma efs_place_wf: "efs_place img ctx it rest \<Longrightarrow> (s, p, e) \<in> set rest \<Longrightarrow> efs_entry_wf e"
  by (auto simp: efs_place_def efs_rest_def efs_cursor_def dest: efs_tiles_wf efs_chain_wf)

lemma efs_place_node: "efs_place img ctx it rest \<Longrightarrow> length (it_node it) = sizeof_efs_node"
  by (auto simp: efs_place_def efs_cursor_def)

context efs_device
begin

lemma child_named:
  assumes ctx: "efs_context_ok ctx" and par: "efs_dir_entry_inode_ref parent = Some inode"
  shows "efs_place img ctx it rest \<Longrightarrow>
    efs_found img ctx (\<lambda>e. ent_child inode e \<and> ent_named e piece) rest (efs_child_named rd ctx parent piece it)"
proof (induction "length rest" arbitrary: rest it rule: less_induct)
  case less
  let ?P = "\<lambda>x :: nat \<times> nat \<times> buf. \<not> ent_child inode (snd (snd x))"
  let ?Q = "\<lambda>x :: nat \<times> nat \<times> buf. \<not> (ent_child inode (snd (snd x)) \<and> ent_named (snd (snd x)) piece)"
  have Q: "dropWhile ?Q rest = dropWhile ?Q (dropWhile ?P rest)" by (rule dropWhile_weaker [symmetric]) simp
  note cs = child_search [OF ctx less.prems par]
  show ?case
  proof (cases "dropWhile ?P rest")
    case Nil
    then obtain it' where "efs_iterator_next_child_of rd ctx it parent EFS_FIND_TYPE_CHILD = Some (EFS_ERROR_EOF, it')"
      using cs by (auto simp: efs_found_def simp del: dropWhile_eq_Nil_conv)
    then have "efs_child_named rd ctx parent piece it = Some (EFS_ERROR_EOF, it')"
      by (subst efs_child_named.simps) simp
    moreover have q: "dropWhile ?Q rest = []" unfolding Q Nil by (simp only: dropWhile.simps)
    ultimately show ?thesis unfolding efs_found_def q by simp
  next
    case (Cons x xs)
    obtain s p e where x: "x = (s, p, e)" by (cases x)
    obtain it' where it': "efs_iterator_next_child_of rd ctx it parent EFS_FIND_TYPE_CHILD = Some (0, it')"
      "efs_on it' s (p, e)" "efs_place img ctx it' xs"
      using cs Cons x by (auto simp: efs_found_def)
    have ch: "ent_child inode e" using Cons x hd_dropWhile [of ?P rest] by (metis list.sel(1) list.simps(3) snd_conv)
    have "x \<in> set rest" using Cons set_dropWhileD [of x ?P rest] by simp
    then have wf: "efs_entry_wf e" using efs_place_wf less.prems x by blast
    obtain t where "it_dirent it' = e @ t" using it'(2) by (auto simp: efs_on_def)
    then have "efs_dir_entry_name_eq (efs_iterator_dir_entry it') piece (length piece) = Some (ent_named e piece)"
      using efs_entry_name_eq [OF wf] ch by (simp add: ent_child_def efs_iterator_dir_entry_def)
    then have st: "efs_child_named rd ctx parent piece it =
        (if ent_named e piece then Some (0, it') else efs_child_named rd ctx parent piece it')"
      using it'(1) by (subst efs_child_named.simps) simp
    show ?thesis
    proof (cases "ent_named e piece")
      case True
      then show ?thesis using Q Cons x ch st it' unfolding efs_found_def by simp
    next
      case False
      have "length xs < length rest"
        using Cons length_dropWhile_le [of ?P rest] by simp
      note ih = less.hyps [OF this it'(3)]
      have q: "dropWhile ?Q rest = dropWhile ?Q xs" unfolding Q Cons x using False by simp
      have st': "efs_child_named rd ctx parent piece it = efs_child_named rd ctx parent piece it'" using st False by simp
      show ?thesis using ih unfolding efs_found_def q st' .
    qed
  qed
qed

lemma resolve_piece:
  assumes db: "efs_database img ctx ns" and l: "length (it_node it) = sizeof_efs_node"
    and par: "efs_dir_entry_inode_ref parent = Some inode"
  shows "\<exists>it1. efs_iterator_root rd ctx it = Some (0, it1) \<and>
    (case efs_child (efs_entries ns) inode piece of
       None \<Rightarrow> \<exists>it2. efs_child_named rd ctx parent piece it1 = Some (EFS_ERROR_EOF, it2)
     | Some (s, p, e) \<Rightarrow> \<exists>it2. efs_child_named rd ctx parent piece it1 = Some (0, it2) \<and> efs_on it2 s (p, e) \<and>
         length (it_node it2) = sizeof_efs_node \<and> efs_dir_entry_inode_ref (it_dirent it2) = Some (ent_ref e))"
proof -
  obtain it1 where r: "efs_iterator_root rd ctx it = Some (0, it1)" "efs_place img ctx it1 (efs_entries ns)"
    using root_place [OF db l] by blast
  have ctx: "efs_context_ok ctx" using db by (simp add: efs_database_def)
  let ?W = "\<lambda>e. ent_child inode e \<and> ent_named e piece"
  have c: "efs_child (efs_entries ns) inode piece =
      (case dropWhile (\<lambda>x. \<not> ?W (snd (snd x))) (efs_entries ns) of [] \<Rightarrow> None | y # ys \<Rightarrow> Some y)"
    unfolding efs_child_def find_dropWhile by (simp add: case_prod_unfold)
  have cs: "efs_found img ctx ?W (efs_entries ns) (efs_child_named rd ctx parent piece it1)"
    using child_named [OF ctx par r(2)] .
  show ?thesis
  proof (cases "dropWhile (\<lambda>x. \<not> ?W (snd (snd x))) (efs_entries ns)")
    case Nil
    then have "efs_child (efs_entries ns) inode piece = None" unfolding c Nil by simp
    moreover have "\<exists>it2. efs_child_named rd ctx parent piece it1 = Some (EFS_ERROR_EOF, it2)"
      using cs unfolding efs_found_def Nil by simp
    ultimately show ?thesis using r(1) by simp
  next
    case (Cons x xs)
    obtain s p e where x: "x = (s, p, e)" by (cases x)
    have "x \<in> set (efs_entries ns)"
      using Cons set_dropWhileD [of x "\<lambda>x. \<not> ?W (snd (snd x))" "efs_entries ns"] by simp
    then have wf: "efs_entry_wf e" using efs_place_wf [OF r(2)] x by blast
    obtain it2 where it2: "efs_child_named rd ctx parent piece it1 = Some (0, it2)" "efs_on it2 s (p, e)"
      "efs_place img ctx it2 xs" using cs unfolding efs_found_def Cons x by auto
    then have "efs_dir_entry_inode_ref (it_dirent it2) = Some (ent_ref e)"
      using efs_entry_ref [OF wf] by (auto simp: efs_on_def)
    moreover have "efs_child (efs_entries ns) inode piece = Some (s, p, e)" unfolding c Cons x by simp
    ultimately show ?thesis using r(1) it2 efs_place_node by auto
  qed
qed

lemma resolve_loop:
  assumes db: "efs_database img ctx ns"
  shows "length (it_node it) = sizeof_efs_node \<Longrightarrow> efs_dir_entry_inode_ref (it_dirent root) = Some inode \<Longrightarrow>
    (case efs_lookup (efs_entries ns) inode (path_pieces piece rest) of
       None \<Rightarrow> \<exists>it'. efs_resolve_loop rd ctx piece rest root it = Some (EFS_ERROR_EOF, it')
     | Some (s, p, e) \<Rightarrow> \<exists>it'. efs_resolve_loop rd ctx piece rest root it = Some (0, it') \<and> efs_on it' s (p, e))"
proof (induction piece rest arbitrary: root it inode rule: path_pieces.induct)
  case (1 piece)
  from resolve_piece [OF db 1, of piece] obtain it1 where it1: "efs_iterator_root rd ctx it = Some (0, it1)"
    "case efs_child (efs_entries ns) inode piece of
       None \<Rightarrow> \<exists>it2. efs_child_named rd ctx (it_dirent root) piece it1 = Some (EFS_ERROR_EOF, it2)
     | Some (s, p, e) \<Rightarrow> \<exists>it2. efs_child_named rd ctx (it_dirent root) piece it1 = Some (0, it2) \<and> efs_on it2 s (p, e) \<and>
         length (it_node it2) = sizeof_efs_node \<and> efs_dir_entry_inode_ref (it_dirent it2) = Some (ent_ref e)"
    by blast
  then show ?case
    by (cases "efs_child (efs_entries ns) inode piece") (auto simp: efs_iterator_dir_entry_def)
next
  case (2 piece c cs)
  show ?case
  proof (cases "c = EFS_PATH_SEPARATOR")
    case False
    then have eq: "efs_resolve_loop rd ctx piece (c # cs) root it = efs_resolve_loop rd ctx (piece @ [c]) cs root it"
      "path_pieces piece (c # cs) = path_pieces (piece @ [c]) cs" by simp_all
    show ?thesis unfolding eq by (rule "2.IH"(2) [OF False "2.prems"])
  next
    case True
    from resolve_piece [OF db "2.prems", of piece] obtain it1 where it1: "efs_iterator_root rd ctx it = Some (0, it1)"
      "case efs_child (efs_entries ns) inode piece of
         None \<Rightarrow> \<exists>it2. efs_child_named rd ctx (it_dirent root) piece it1 = Some (EFS_ERROR_EOF, it2)
       | Some (s, p, e) \<Rightarrow> \<exists>it2. efs_child_named rd ctx (it_dirent root) piece it1 = Some (0, it2) \<and> efs_on it2 s (p, e) \<and>
           length (it_node it2) = sizeof_efs_node \<and> efs_dir_entry_inode_ref (it_dirent it2) = Some (ent_ref e)"
      by blast
    show ?thesis
    proof (cases "efs_child (efs_entries ns) inode piece")
      case None
      then show ?thesis using it1 True by (auto simp: efs_iterator_dir_entry_def)
    next
      case (Some x)
      obtain s p e where x: "x = (s, p, e)" by (cases x)
      obtain it2 where it2: "efs_child_named rd ctx (it_dirent root) piece it1 = Some (0, it2)"
        "length (it_node it2) = sizeof_efs_node" "efs_dir_entry_inode_ref (it_dirent it2) = Some (ent_ref e)"
        using it1(2) Some x by auto
      have "path_pieces [] cs \<noteq> []" by (rule path_pieces_ne)
      then have eq1: "efs_lookup (efs_entries ns) inode (path_pieces piece (c # cs)) =
          efs_lookup (efs_entries ns) (ent_ref e) (path_pieces [] cs)"
        using Some x True by simp
      have eq2: "efs_resolve_loop rd ctx piece (c # cs) root it = efs_resolve_loop rd ctx [] cs it2 it2"
        using it1(1) it2(1) True by (simp add: efs_iterator_dir_entry_def)
      show ?thesis unfolding eq1 eq2 by (rule "2.IH"(1) [OF True it2(2,3)])
    qed
  qed
qed

end

lemma efs_resolve_path_lemma:
  assumes dev: "efs_device rd img" and db: "efs_database img ctx ns"
    and root: "(s0, p0, e0) \<in> set (efs_entries ns)" "ent_self (inode_root ctx) e0"
    and l: "length (it_node it) = sizeof_efs_node" and path: "path = EFS_PATH_SEPARATOR # path'"
  shows "case efs_lookup (efs_entries ns) (inode_root ctx) (path_pieces [] (dropWhile (\<lambda>c. c = EFS_PATH_SEPARATOR) path)) of
      None \<Rightarrow> \<exists>it'. efs_resolve_path rd ctx path it = Some (EFS_ERROR_EOF, it')
    | Some (s, p, e) \<Rightarrow> \<exists>it'. efs_resolve_path rd ctx path it = Some (0, it') \<and> efs_on it' s (p, e)"
proof -
  let ?P = "\<lambda>x :: nat \<times> nat \<times> buf. \<not> ent_self (inode_root ctx) (snd (snd x))"
  have ne: "dropWhile ?P (efs_entries ns) \<noteq> []" using root by (auto intro!: bexI [of _ "(s0, p0, e0)"])
  obtain x xs where x: "dropWhile ?P (efs_entries ns) = x # xs" using ne by (cases "dropWhile ?P (efs_entries ns)") auto
  obtain s p e where e: "x = (s, p, e)" by (cases x)
  obtain rt where rt: "efs_iterator_root_inode rd ctx (efs_iterator_invalid efs_iterator_zero) = Some (0, rt)" "efs_on rt s (p, e)"
    using efs_device.root_search [OF dev db, of "inode_root ctx" efs_iterator_zero] x e
    by (auto simp: efs_found_def efs_iterator_root_inode_def)
  have self: "ent_self (inode_root ctx) e" using x e hd_dropWhile [of ?P "efs_entries ns"]
    by (metis list.sel(1) list.simps(3) snd_conv)
  have "x \<in> set (efs_entries ns)" using x set_dropWhileD [of x ?P "efs_entries ns"] by simp
  moreover obtain it' where "efs_place img ctx it' (efs_entries ns)" using efs_device.root_place [OF dev db l] by blast
  ultimately have "efs_entry_wf e" using efs_place_wf e by blast
  then have ref: "efs_dir_entry_inode_ref (it_dirent rt) = Some (inode_root ctx)"
    using rt(2) efs_entry_ref self by (auto simp: efs_on_def ent_self_def)
  have eq: "efs_resolve_path rd ctx path it =
      efs_resolve_loop rd ctx [] (dropWhile (\<lambda>c. c = EFS_PATH_SEPARATOR) path) rt it"
    using rt(1) path by (simp add: efs_resolve_path_def)
  show ?thesis unfolding eq by (rule efs_device.resolve_loop [OF dev db l ref])
qed

text \<open>C17: on an image whose database is a list of well-formed nodes with an entry for the root directory, resolving
  an absolute path returns, with an iterator on the entry that the names of the path lead to from the
  root, or with the end of the database when one of them is missing.\<close>

theorem efs_resolve_path_finds:
  assumes dev: "efs_device rd img" and db: "efs_database img ctx ns"
    and root: "(s0, p0, e0) \<in> set (efs_entries ns)" "ent_self (inode_root ctx) e0"
    and l: "length (it_node it) = sizeof_efs_node" and path: "path = EFS_PATH_SEPARATOR # path'"
  shows "case efs_lookup (efs_entries ns) (inode_root ctx) (path_pieces [] (dropWhile (\<lambda>c. c = EFS_PATH_SEPARATOR) path)) of
      None \<Rightarrow> \<exists>it'. efs_resolve_path rd ctx path it = Some (EFS_ERROR_EOF, it')
    | Some (s, p, e) \<Rightarrow> \<exists>it'. efs_resolve_path rd ctx path it = Some (0, it') \<and> efs_on it' s (p, e)"
  using efs_resolve_path_lemma [OF assms] .

lemma efs_sector_data_length:
  "efs_sector_good img ctx k \<Longrightarrow> length (efs_sector_data img ctx k) = nat (sector_size ctx)"
  by (auto simp: efs_sector_good_def efs_sector_data_def)

lemma efs_gather_Cons:
  assumes "efs_sector_good img ctx k"
  shows "efs_gather img ctx (k # ks) n =
    take n (efs_sector_data img ctx k) @ efs_gather img ctx ks (n - nat (sector_size ctx))"
  using efs_sector_data_length [OF assms] by (simp add: efs_gather_def)

lemma efs_gather_0 [simp]: "efs_gather img ctx ks 0 = []" "efs_gather img ctx [] n = []"
  by (simp_all add: efs_gather_def)

lemma efs_gather_length:
  "efs_needed_good img ctx ks n \<Longrightarrow> length (efs_gather img ctx ks n) = min n (nat (sector_size ctx) * length ks)"
proof (induction img ctx ks n rule: efs_needed_good.induct)
  case (2 img ctx k ks n)
  show ?case
  proof (cases "n = 0")
    case False
    then have g: "efs_sector_good img ctx k" "efs_needed_good img ctx ks (n - nat (sector_size ctx))" using 2 by auto
    then show ?thesis using 2 g False efs_sector_data_length [OF g(1)]
      by (cases "n \<le> nat (sector_size ctx)") (auto simp: efs_gather_Cons min_def)
  qed simp
qed simp

lemma efs_gather_append:
  "efs_needed_good img ctx ks n \<Longrightarrow> efs_gather img ctx (ks @ js) n =
    efs_gather img ctx ks n @ efs_gather img ctx js (n - length (efs_gather img ctx ks n))"
proof (induction img ctx ks n rule: efs_needed_good.induct)
  case (2 img ctx k ks n)
  show ?case
  proof (cases "n = 0")
    case False
    then have g: "efs_sector_good img ctx k" "efs_needed_good img ctx ks (n - nat (sector_size ctx))" using 2 by auto
    note l = efs_sector_data_length [OF g(1)]
    have "efs_gather img ctx ((k # ks) @ js) n =
        take n (efs_sector_data img ctx k) @ efs_gather img ctx (ks @ js) (n - nat (sector_size ctx))"
      using g(1) by (simp add: efs_gather_Cons)
    then show ?thesis using 2(1) [OF g(2)] g l
      by (cases "n \<le> nat (sector_size ctx)") (simp_all add: efs_gather_Cons)
  qed simp
qed simp

context efs_device
begin

lemma read_piece:
  assumes ctx: "efs_context_ok ctx" and k: "efs_sector_good img ctx k" and n: "0 < n" "p + n \<le> length buffer"
  shows "efs_read_piece rd ctx k 0 (int p + int n) (int p) buffer =
    Some (0, int p + int (min n (nat (sector_size ctx))), blit p (take n (efs_sector_data img ctx k)) buffer)"
proof -
  let ?S = "nat (sector_size ctx)"
  have S: "sector_size ctx = int ?S" "0 < ?S" using ctx by (simp_all add: efs_context_ok_def)
  have kk: "k = int (nat k)" "efs_sector_at ctx (nat k) + ?S \<le> length img"
    using k by (simp_all add: efs_sector_good_def)
  have off: "to_long (efs_sector_to_offset ctx k + 0) = int (efs_sector_at ctx (nat k))"
    using sector_offset_plus [OF ctx, of "nat k" 0] kk by simp
  have mn: "min (sector_size ctx - 0) (int p + int n - int p) = int (min ?S n)" using S by simp
  have len: "efs_sector_at ctx (nat k) + min ?S n \<le> length img" using kk(2) by simp
  then have "int (efs_sector_at ctx (nat k)) + int (min ?S n) \<le> int (length img)" by linarith
  from rd_serves [OF _ _ this]
  have "rd (int (efs_sector_at ctx (nat k))) (int (min ?S n)) = (int (min ?S n), chunk (efs_sector_at ctx (nat k)) (min ?S n) img)"
    using n S(2) by simp
  moreover have "chunk (efs_sector_at ctx (nat k)) (min ?S n) img = take n (efs_sector_data img ctx k)"
    by (simp add: efs_sector_data_def chunk_def min.commute)
  moreover have "length (take n (efs_sector_data img ctx k)) = min ?S n"
    using efs_sector_data_length [OF k] by simp
  ultimately show ?thesis
    using n unfolding efs_read_piece_def off mn by (simp add: min.commute)
qed

lemma read_direct:
  assumes ctx: "efs_context_ok ctx"
  shows "i \<le> 13 \<Longrightarrow> efs_needed_good img ctx (map (inode_sector inode) [i..<13]) n \<Longrightarrow> p + n \<le> length buffer \<Longrightarrow>
    efs_read_direct rd ctx inode i 0 (int p + int n) (int p) buffer =
      Some (0, int p + int (length (efs_gather img ctx (map (inode_sector inode) [i..<13]) n)), 0,
            blit p (efs_gather img ctx (map (inode_sector inode) [i..<13]) n) buffer)"
proof (induction "13 - i" arbitrary: i n p buffer)
  case 0
  then show ?case by (subst efs_read_direct.simps) simp
next
  case (Suc d)
  let ?S = "nat (sector_size ctx)"
  let ?k = "inode_sector inode i" and ?ks = "map (inode_sector inode) [Suc i..<13]"
  have i13: "i < 13" using Suc(2) by simp
  have up: "[i..<13] = i # [Suc i..<13]" using Suc(2) by (simp add: upt_conv_Cons)
  show ?case
  proof (cases "n = 0")
    case True
    then show ?thesis by (subst efs_read_direct.simps) simp
  next
    case False
    have g: "efs_sector_good img ctx ?k" "efs_needed_good img ctx ?ks (n - ?S)" using Suc(4) False up by auto
    note rp = read_piece [OF ctx g(1), of n p buffer]
    let ?t = "take n (efs_sector_data img ctx ?k)"
    have lt: "length ?t = min n ?S" using efs_sector_data_length [OF g(1)] by simp
    have sum: "int p + int n = int (p + min n ?S) + int (n - ?S)" by simp
    have fits: "p + min n ?S + (n - ?S) \<le> length (blit p ?t buffer)"
      using Suc(5) lt by (simp add: length_blit)
    have ih: "efs_read_direct rd ctx inode (Suc i) 0 (int p + int n) (int (p + min n ?S)) (blit p ?t buffer) =
        Some (0, int (p + min n ?S) + int (length (efs_gather img ctx ?ks (n - ?S))), 0,
              blit (p + min n ?S) (efs_gather img ctx ?ks (n - ?S)) (blit p ?t buffer))"
      unfolding sum by (rule Suc(1) [OF _ _ g(2) fits]) (use Suc(2) in auto)
    have "efs_read_direct rd ctx inode i 0 (int p + int n) (int p) buffer =
        efs_read_direct rd ctx inode (Suc i) 0 (int p + int n) (int (p + min n ?S)) (blit p ?t buffer)"
      using rp i13 Suc(5) False g(1) by (subst efs_read_direct.simps) (simp add: efs_sector_good_def)
    moreover have "blit (p + min n ?S) (efs_gather img ctx ?ks (n - ?S)) (blit p ?t buffer) =
        blit p (?t @ efs_gather img ctx ?ks (n - ?S)) buffer"
      using blit_adjacent [of p ?t buffer] lt Suc(5) by simp
    ultimately show ?thesis using ih up g(1) lt by (simp add: efs_gather_Cons)
  qed
qed

end

context efs_device
begin

lemma read_refs:
  assumes ctx: "efs_context_ok ctx"
  shows "j \<le> nat (sector_size ctx) div 4 \<Longrightarrow> n = 0 \<or> efs_sector_good img ctx q \<Longrightarrow>
    efs_needed_good img ctx (drop j (efs_refs img ctx q)) n \<Longrightarrow> p + n \<le> length buffer \<Longrightarrow>
    efs_read_refs rd ctx q (int j) 0 (int p + int n) (int p) buffer =
      Some (0, int p + int (length (efs_gather img ctx (drop j (efs_refs img ctx q)) n)), 0,
            blit p (efs_gather img ctx (drop j (efs_refs img ctx q)) n) buffer)"
proof (induction "nat (sector_size ctx) div 4 - j" arbitrary: j n p buffer)
  case 0
  have "sector_size ctx div 4 = int (nat (sector_size ctx) div 4)" using ctx by (simp add: efs_context_ok_def zdiv_int)
  then have "\<not> int j < sector_size ctx div 4" "drop j (efs_refs img ctx q) = []"
    using 0(1,2) by (simp_all add: efs_refs_def)
  then show ?case by (subst efs_read_refs.simps) simp
next
  case (Suc d)
  let ?S = "nat (sector_size ctx)" and ?N = "nat (sector_size ctx) div 4"
  have N: "sector_size ctx div 4 = int ?N" using ctx by (simp add: efs_context_ok_def zdiv_int)
  have j: "j < ?N" using Suc(2) by simp
  define k where "k = efs_refs img ctx q ! j"
  let ?ks = "drop (Suc j) (efs_refs img ctx q)"
  have up: "drop j (efs_refs img ctx q) = k # ?ks" 
  proof -
    have "j < length (efs_refs img ctx q)" using j by (simp add: efs_refs_def)
    then show ?thesis by (simp add: k_def Cons_nth_drop_Suc)
  qed
  show ?case
  proof (cases "n = 0")
    case True
    then show ?thesis by (subst efs_read_refs.simps) simp
  next
    case False
    have q: "efs_sector_good img ctx q" using Suc(4) False by simp
    then have qq: "efs_sector_valid ctx q" "q = int (nat q)" "efs_sector_at ctx (nat q) + ?S \<le> length img"
      by (simp_all add: efs_sector_good_def)
    have "4 * j + 4 \<le> ?S" using j by linarith
    then have in_img: "efs_sector_at ctx (nat q) + 4 * j + 4 \<le> length img" using qq(3) by linarith
    have off: "to_long (efs_sector_to_offset ctx q + int j * 4) = int (efs_sector_at ctx (nat q) + 4 * j)"
      using sector_offset_plus [OF ctx, of "nat q" "4 * j"] qq(2) in_img by (simp add: mult.commute)
    have "rd_into rd (int (efs_sector_at ctx (nat q) + 4 * j)) 4 (replicate 4 0xff) =
        (4, chunk (efs_sector_at ctx (nat q) + 4 * j) 4 img)"
      using rd_into_serves [OF in_img, of "replicate 4 0xff"] in_img by (simp add: blit_def)
    moreover have "le_field 0 4 (chunk (efs_sector_at ctx (nat q) + 4 * j) 4 img) = nat k" "0 \<le> k"
      using j by (simp_all add: k_def efs_refs_def le_field_def chunk_chunk)
    ultimately have ref: "rd_into rd (to_long (efs_sector_to_offset ctx q + int j * 4)) 4 (replicate 4 0xff) =
        (4, chunk (efs_sector_at ctx (nat q) + 4 * j) 4 img)"
      "int (le_field 0 4 (chunk (efs_sector_at ctx (nat q) + 4 * j) 4 img)) = k" unfolding off by simp_all
    have g: "efs_sector_good img ctx k" "efs_needed_good img ctx ?ks (n - ?S)" using Suc(5) False up by auto
    note rp = read_piece [OF ctx g(1), of n p buffer]
    let ?t = "take n (efs_sector_data img ctx k)"
    have lt: "length ?t = min n ?S" using efs_sector_data_length [OF g(1)] by simp
    have sum: "int p + int n = int (p + min n ?S) + int (n - ?S)" by simp
    have fits: "p + min n ?S + (n - ?S) \<le> length (blit p ?t buffer)" using Suc(6) lt by (simp add: length_blit)
    have ih: "efs_read_refs rd ctx q (int (Suc j)) 0 (int p + int n) (int (p + min n ?S)) (blit p ?t buffer) =
        Some (0, int (p + min n ?S) + int (length (efs_gather img ctx ?ks (n - ?S))), 0,
              blit (p + min n ?S) (efs_gather img ctx ?ks (n - ?S)) (blit p ?t buffer))"
      unfolding sum by (rule Suc(1) [OF _ _ _ g(2) fits]) (use Suc(2) j q in auto)
    have "efs_read_refs rd ctx q (int j) 0 (int p + int n) (int p) buffer =
        efs_read_refs rd ctx q (int (Suc j)) 0 (int p + int n) (int (p + min n ?S)) (blit p ?t buffer)"
      using rp ref qq(1) j N Suc(6) False g(1)
      by (subst efs_read_refs.simps) (simp add: efs_sector_good_def add.commute)
    moreover have "blit (p + min n ?S) (efs_gather img ctx ?ks (n - ?S)) (blit p ?t buffer) =
        blit p (?t @ efs_gather img ctx ?ks (n - ?S)) buffer"
      using blit_adjacent [of p ?t buffer] lt Suc(6) by simp
    ultimately show ?thesis using ih up g(1) lt by (simp add: efs_gather_Cons)
  qed
qed

lemma read_indirect:
  assumes ctx: "efs_context_ok ctx"
  shows "i \<le> 3 \<Longrightarrow> efs_indirect_good img ctx (map (inode_sector_indirect inode) [i..<3]) n \<Longrightarrow> p + n \<le> length buffer \<Longrightarrow>
    efs_read_indirect rd ctx inode i 0 0 (int p + int n) (int p) buffer =
      (let d = efs_gather img ctx (concat (map (\<lambda>i. efs_refs img ctx (inode_sector_indirect inode i)) [i..<3])) n
       in Some (0, int p + int (length d), blit p d buffer))"
proof (induction "3 - i" arbitrary: i n p buffer)
  case 0
  then show ?case by (subst efs_read_indirect.simps) simp
next
  case (Suc d)
  let ?q = "inode_sector_indirect inode i"
  let ?js = "concat (map (\<lambda>i. efs_refs img ctx (inode_sector_indirect inode i)) [Suc i..<3])"
  let ?g = "efs_gather img ctx (efs_refs img ctx ?q) n"
  have up: "[i..<3] = i # [Suc i..<3]" and i3: "i < 3" using Suc(2) by (simp_all add: upt_conv_Cons)
  show ?case
  proof (cases "n = 0")
    case True
    then show ?thesis by (subst efs_read_indirect.simps) (simp add: Let_def)
  next
    case False
    have g: "efs_sector_good img ctx ?q" "efs_needed_good img ctx (efs_refs img ctx ?q) n"
      "efs_indirect_good img ctx (map (inode_sector_indirect inode) [Suc i..<3]) (n - length ?g)"
      using Suc(4) False up by auto
    have le: "length ?g \<le> n" by (simp add: efs_gather_def)
    have rr: "efs_read_refs rd ctx ?q 0 0 (int p + int n) (int p) buffer =
        Some (0, int p + int (length ?g), 0, blit p ?g buffer)"
      using read_refs [OF ctx, of 0 n ?q p buffer] g Suc(5) by simp
    have sum: "int p + int n = int (p + length ?g) + int (n - length ?g)" using le by simp
    have fits: "p + length ?g + (n - length ?g) \<le> length (blit p ?g buffer)" using Suc(5) le by simp
    let ?d = "efs_gather img ctx ?js (n - length ?g)"
    have ih: "efs_read_indirect rd ctx inode (Suc i) 0 0 (int p + int n) (int (p + length ?g)) (blit p ?g buffer) =
        Some (0, int (p + length ?g) + int (length ?d), blit (p + length ?g) ?d (blit p ?g buffer))"
      unfolding sum using Suc(1) [OF _ _ g(3) fits] Suc(2) i3 by (simp add: Let_def)
    have "efs_read_indirect rd ctx inode i 0 0 (int p + int n) (int p) buffer =
        efs_read_indirect rd ctx inode (Suc i) 0 0 (int p + int n) (int (p + length ?g)) (blit p ?g buffer)"
      using rr i3 False by (subst efs_read_indirect.simps) simp
    moreover have "efs_gather img ctx (concat (map (\<lambda>i. efs_refs img ctx (inode_sector_indirect inode i)) [i..<3])) n = ?g @ ?d"
      using efs_gather_append [OF g(2)] up by simp
    moreover have "blit (p + length ?g) ?d (blit p ?g buffer) = blit p (?g @ ?d) buffer"
      using Suc(5) le by (intro blit_adjacent) simp
    ultimately show ?thesis using ih by (simp add: Let_def)
  qed
qed

end

text \<open>C19: reading a file from its start stores its bytes, sector by sector through the direct and the indirect
  sectors, up to the size asked for, the size of the file or the end of its sectors, and returns their
  number; the rest of the buffer is unchanged.\<close>

theorem efs_inode_read_start:
  assumes dev: "efs_device rd img" and ctx: "efs_context_ok ctx" and sz: "0 \<le> sz"
    and n: "n = nat (min sz (inode_size inode))" and buf: "n \<le> length buffer"
    and good: "efs_file_good img ctx inode n"
  shows "efs_inode_read rd ctx inode buffer 0 sz =
    (let d = efs_gather img ctx (efs_file_sectors img ctx inode) n in Some (int (length d), blit 0 d buffer))"
proof -
  let ?direct = "map (inode_sector inode) [0..<13]"
  let ?js = "concat (map (\<lambda>i. efs_refs img ctx (inode_sector_indirect inode i)) [0..<3])"
  let ?d = "efs_gather img ctx ?direct n"
  let ?e = "efs_gather img ctx ?js (n - length ?d)"
  have g: "efs_needed_good img ctx ?direct n"
    "efs_indirect_good img ctx (map (inode_sector_indirect inode) [0..<3]) (n - length ?d)"
    using good unfolding efs_file_good_def Let_def by blast+
  have is0: "0 \<le> inode_size inode" by (simp add: inode_size_def)
  have nn: "min sz (inode_size inode) = int n" using n sz is0 by simp
  have le: "length ?d \<le> n" by (simp add: efs_gather_def)
  have d: "efs_read_direct rd ctx inode 0 0 (int n) 0 buffer = Some (0, int (length ?d), 0, blit 0 ?d buffer)"
    using efs_device.read_direct [OF dev ctx _ g(1), of 0 buffer] buf by simp
  have fits: "length ?d + (n - length ?d) \<le> length (blit 0 ?d buffer)" using buf le by simp
  have sum: "int n = int (length ?d) + int (n - length ?d)" using le by simp
  have i: "efs_read_indirect rd ctx inode 0 0 0 (int n) (int (length ?d)) (blit 0 ?d buffer) =
      Some (0, int (length ?d) + int (length ?e), blit (length ?d) ?e (blit 0 ?d buffer))"
    using efs_device.read_indirect [OF dev ctx _ g(2) fits] unfolding sum [symmetric] by (simp only: Let_def)
  have b: "blit (length ?d) ?e (blit 0 ?d buffer) = blit 0 (?d @ ?e) buffer"
    using blit_adjacent [of 0 ?d buffer ?e] buf le by simp
  have all: "efs_gather img ctx (efs_file_sectors img ctx inode) n = ?d @ ?e"
    unfolding efs_file_sectors_def by (rule efs_gather_append [OF g(1)])
  have "sector_size ctx \<noteq> 0" using ctx by (simp add: efs_context_ok_def)
  moreover have "min 0 (inode_size inode) = 0" using is0 by simp
  moreover have "to_ulong 0 mod sector_size ctx = 0" "to_long 0 = 0" by (simp_all add: to_ulong_def to_long_def)
  ultimately have "efs_inode_read rd ctx inode buffer 0 sz =
      (case efs_read_indirect rd ctx inode 0 0 0 (int n) (int (length ?d)) (blit 0 ?d buffer) of
         None \<Rightarrow> None | Some (r', pos', buffer'') \<Rightarrow> Some (if r' < 0 then r' else pos', buffer''))"
    unfolding efs_inode_read_def Let_def using nn d by simp
  then show ?thesis unfolding i all b by (simp add: Let_def)
qed

text \<open>C22: a read of at least one byte that starts at an offset of 13 or more in the first sector of a longer file without indirect
  sectors reads nothing: the offset in the sector is taken for the number of sectors to skip, so the direct sectors are passed over. Below an offset
  of three times the number of entries of an indirect sector, an indirect sector that the file does not have is asked for and the read fails with \<open>EFS_ERROR_EOF\<close>; for the others no sector is left and it returns 0.\<close>

theorem efs_inode_read_offset_fails:
  assumes "0 < sector_size ctx" and "13 \<le> off" "off < sector_size ctx" and "off < inode_size inode" and "0 < sz"
    and "off div (sector_size ctx div 4) < 3 \<Longrightarrow>
      \<not> efs_sector_valid ctx (inode_sector_indirect inode (nat (off div (sector_size ctx div 4))))"
  shows "efs_inode_read rd ctx inode buffer off sz =
    Some (if off div (sector_size ctx div 4) < 3 then EFS_ERROR_EOF else 0, buffer)"
proof -
  let ?spi = "sector_size ctx div 4"
  have spi: "0 < ?spi" using assms(2,3) by simp
  have "inode_size inode < 2 ^ 32" using le_field_bound [of 8 4 inode] by (simp add: inode_size_def)
  then have o: "to_ulong off mod sector_size ctx = off"
    using assms(2-4) by (simp add: to_ulong_small)
  have m: "min off (inode_size inode) = off" "0 < min sz (inode_size inode - off)" using assms(4,5) by simp_all
  have "\<not> nat off < 13" using assms(2) by simp
  then have d: "efs_read_direct rd ctx inode (nat off) b s 0 buffer = Some (0, 0, b, buffer)" for b s
    by (subst efs_read_direct.simps) simp
  have "off - off div ?spi * ?spi = off mod ?spi" by (simp add: minus_div_mult_eq_mod)
  moreover have "off mod ?spi < ?spi" using spi by simp
  ultimately have r: "efs_read_refs rd ctx (inode_sector_indirect inode (nat (off div ?spi))) (off - off div ?spi * ?spi) b
      (min sz (inode_size inode - off)) 0 buffer = Some (EFS_ERROR_EOF, 0, b, buffer)" if "off div ?spi < 3" for b
    using assms(6) [OF that] m(2) by (subst efs_read_refs.simps) simp
  have i: "efs_read_indirect rd ctx inode (nat (off div ?spi)) (off - off div ?spi * ?spi) b
      (min sz (inode_size inode - off)) 0 buffer = Some (if off div ?spi < 3 then EFS_ERROR_EOF else 0, 0, buffer)" for b
    using r m(2) by (subst efs_read_indirect.simps) (auto simp: nat_less_iff)
  have "0 < off" "sector_size ctx \<noteq> 0" "?spi \<noteq> 0" using assms(1,2) spi by simp_all
  then show ?thesis unfolding efs_inode_read_def Let_def o m(1) d using i by simp
qed

lemma efs_entry_item: "efs_entry_wf e \<Longrightarrow> efs_dir_entry_inode_item (e @ t) = Some (ent_item e)"
  using efs_entry_head(2) [of e t] by (auto simp: efs_dir_entry_inode_item_def efs_entry_wf_def ent_item_def)

lemma efs_entry_item_type: "efs_entry_wf e \<Longrightarrow> (e @ t) ! ent_item e = e ! ent_item e"
  using efs_entry_head(7) [of e] by (simp add: nth_append ent_item_def)

lemma efs_inline_size:
  assumes wf: "efs_entry_wf e" and i: "ent_inline e"
  shows "efs_inode_size rd ctx (e @ t) = Some (int (length (ent_data e)))"
proof -
  have len: "length e = ent_item e + de_inode_item_size e"
    using wf by (simp add: efs_entry_wf_def efs_dir_entry_size_def ent_item_def)
  have it: "efs_dir_entry_inode_item (e @ t) = Some (ent_item e)"
    and ty: "(e @ t) ! ent_item e = e ! ent_item e"
    and sz: "de_inode_item_size (e @ t) = de_inode_item_size e"
    using wf efs_entry_item efs_entry_item_type efs_entry_head(3) by auto
  have small: "de_inode_item_size e < 256" using de_size_less(2) .
  have "efs_inode_item_data_size (e @ t) = Some (int (length (ent_data e)))"
    using i small len
    by (auto simp: efs_inode_item_data_size_def it ty sz ent_inline_def ent_data_def to_ulong_small Let_def of_nat_diff)
  moreover have "to_long (int (length (ent_data e))) = int (length (ent_data e))"
    using small len by (intro to_long_small) (auto simp: ent_data_def)
  ultimately show ?thesis using i by (auto simp: efs_inode_size_def it ty ent_inline_def)
qed

lemma efs_read_inline_ok:
  assumes wf: "efs_entry_wf e" and i: "ent_inline e" and d: "it_dirent (f_it f) = e @ t"
    and o: "0 \<le> off" "0 \<le> sz" and b: "length (take (nat sz) (drop (nat off) (ent_data e))) \<le> length buffer"
  shows "efs_read rd ctx f buffer off sz =
    (let bs = take (nat sz) (drop (nat off) (ent_data e)) in Some (int (length bs), blit 0 bs buffer))"
proof -
  define h where "h = ent_item e + 1 + (if e ! ent_item e = EFS_INODE_ITEM_INLINE then 2 else 8)"
  define bs where "bs = take (nat sz) (drop (nat off) (ent_data e))"
  have dat: "ent_data e = drop h e" by (simp add: ent_data_def h_def)
  have len: "length e = ent_item e + de_inode_item_size e"
    using wf by (simp add: efs_entry_wf_def efs_dir_entry_size_def ent_item_def)
  have hl: "h \<le> length e" using i len by (auto simp: h_def ent_inline_def)
  have "length e < 2 ^ 31" using len de_size_less [of e] by (simp add: ent_item_def)
  then have small: "length (ent_data e) < 2 ^ 31" by (simp add: dat)
  define o' where "o' = min off (int (length (ent_data e)))"
  define s' where "s' = min sz (int (length (ent_data e)) - o')"
  have o': "0 \<le> o'" "0 \<le> s'" "int h + o' + s' \<le> int (length e)"
    using o hl by (auto simp: o'_def s'_def dat)
  have "chunk (nat (int h + o')) (nat s') (e @ t) = chunk (h + nat o') (nat s') e"
    using o' by (subst chunk_append_left) (auto simp: nat_add_distrib)
  also have "\<dots> = take (nat s') (drop (nat o') (ent_data e))" by (simp add: chunk_def dat add.commute)
  also have "\<dots> = bs"
    using o unfolding bs_def by (cases "off \<le> int (length (ent_data e))") (auto simp: o'_def s'_def min_def)
  finally have ch: "chunk (nat (int h + o')) (nat s') (e @ t) = bs" .
  have ls: "s' = int (length bs)"
    using o by (auto simp: bs_def o'_def s'_def min_def)
  have inl: "efs_read_inline (e @ t) h (int (length (ent_data e))) buffer off sz = Some (int (length bs), blit 0 bs buffer)"
  proof -
    have "to_int s' = s'" using o' small ls unfolding to_int_def Let_def by (auto simp: s'_def o'_def)
    moreover have "\<not> (s' < 0 \<or> int h + o' < 0 \<or> int (length (e @ t)) < int h + o' + s' \<or> int (length buffer) < s')"
      using o' b unfolding ls bs_def [symmetric] by (simp del: length_take length_drop)
    ultimately show ?thesis
      unfolding efs_read_inline_def Let_def o'_def [symmetric] s'_def [symmetric] using ls ch by (simp only: if_False)
  qed
  have it: "efs_dir_entry_inode_item (e @ t) = Some (ent_item e)"
    and ty: "(e @ t) ! ent_item e = e ! ent_item e"
    using efs_entry_item [OF wf] efs_entry_item_type [OF wf] by simp_all
  from i consider "e ! ent_item e = EFS_INODE_ITEM_INLINE" | "e ! ent_item e = EFS_INODE_ITEM_INLINE_EXT"
    by (auto simp: ent_inline_def)
  then have "efs_read rd ctx f buffer off sz = Some (int (length bs), blit 0 bs buffer)"
  proof cases
    case 1
    then have "h = ent_item e + 1 + sizeof_efs_inode_item_inline" by (simp add: h_def)
    with 1 inl show ?thesis
      by (simp add: efs_read_def efs_iterator_dir_entry_def d it ty efs_inline_size [OF wf i])
  next
    case 2
    then have "h = ent_item e + 1 + sizeof_efs_inode_item_inline_ext" by (simp add: h_def)
    with 2 inl show ?thesis
      by (simp add: efs_read_def efs_iterator_dir_entry_def d it ty efs_inline_size [OF wf i])
  qed
  then show ?thesis by (simp add: bs_def Let_def)
qed

lemma efs_open_read_inline_lemma:
  assumes dev: "efs_device rd img" and db: "efs_database img ctx ns"
    and root: "(s0, p0, e0) \<in> set (efs_entries ns)" "ent_self (inode_root ctx) e0"
    and path: "path = EFS_PATH_SEPARATOR # path'"
    and found: "efs_lookup (efs_entries ns) (inode_root ctx)
      (path_pieces [] (dropWhile (\<lambda>c. c = EFS_PATH_SEPARATOR) path)) = Some (s, p, e)"
    and wf: "efs_entry_wf e" and i: "ent_inline e" and mem: "malloc_ok h 4312"
  shows "\<exists>f. efs_open h rd ctx path = Some (0, Some f) \<and>
    (\<forall>off sz buffer. 0 \<le> off \<and> 0 \<le> sz \<and> length (take (nat sz) (drop (nat off) (ent_data e))) \<le> length buffer \<longrightarrow>
       efs_read rd ctx f buffer off sz =
         (let bs = take (nat sz) (drop (nat off) (ent_data e)) in Some (int (length bs), blit 0 bs buffer)))"
proof -
  obtain it0 where it0: "efs_iterator_root rd ctx efs_iterator_zero = Some (0, it0)" "efs_place img ctx it0 (efs_entries ns)"
    using efs_device.root_place [OF dev db, of efs_iterator_zero] by (auto simp: efs_iterator_zero_def)
  obtain it where it: "efs_resolve_path rd ctx path it0 = Some (0, it)" "efs_on it s (p, e)"
    using efs_resolve_path_lemma [OF dev db root efs_place_node [OF it0(2)] path] found by auto
  obtain t where t: "it_dirent it = e @ t" using it(2) by (auto simp: efs_on_def)
  have item: "efs_dir_entry_inode_item (e @ t) = Some (ent_item e)"
    and ty: "(e @ t) ! ent_item e = e ! ent_item e"
    using efs_entry_item [OF wf] efs_entry_item_type [OF wf] by simp_all
  have nref: "e ! ent_item e \<noteq> EFS_INODE_ITEM_REF" using i by (auto simp: ent_inline_def)
  have nd: "efs_dir_entry_is_directory rd ctx (e @ t) = Some False"
    using nref by (simp add: efs_dir_entry_is_directory_def item ty)
  have "\<exists>f. efs_open h rd ctx path = Some (0, Some f) \<and> f_it f = it"
    using i nref it0(1) it(1) nd mem
    by (auto simp: efs_open_def efs_iterator_dir_entry_def t item ty ent_inline_def Let_def)
  then obtain f where f: "efs_open h rd ctx path = Some (0, Some f)" "f_it f = it" by blast
  have "it_dirent (f_it f) = e @ t" using f(2) t by simp
  with f(1) show ?thesis using efs_read_inline_ok [OF wf i] by blast
qed

text \<open>C18: opening an absolute path that leads to an entry with inline data succeeds when memory is available, and
  reading the file then returns the bytes of the data from the offset on, at most as many as asked for.\<close>

theorem efs_open_read_inline:
  assumes dev: "efs_device rd img" and db: "efs_database img ctx ns"
    and root: "(s0, p0, e0) \<in> set (efs_entries ns)" "ent_self (inode_root ctx) e0"
    and path: "path = EFS_PATH_SEPARATOR # path'"
    and found: "efs_lookup (efs_entries ns) (inode_root ctx)
      (path_pieces [] (dropWhile (\<lambda>c. c = EFS_PATH_SEPARATOR) path)) = Some (s, p, e)"
    and wf: "efs_entry_wf e" and i: "ent_inline e" and mem: "malloc_ok h 4312"
  shows "\<exists>f. efs_open h rd ctx path = Some (0, Some f) \<and>
    (\<forall>off sz buffer. 0 \<le> off \<and> 0 \<le> sz \<and> length (take (nat sz) (drop (nat off) (ent_data e))) \<le> length buffer \<longrightarrow>
       efs_read rd ctx f buffer off sz =
         (let bs = take (nat sz) (drop (nat off) (ent_data e)) in Some (int (length bs), blit 0 bs buffer)))"
  using efs_open_read_inline_lemma [OF dev db root path found wf i mem] .

context efs_device
begin

lemma find_superblock:
  "en \<le> length img \<Longrightarrow> length sb = sizeof_efs_superblock \<Longrightarrow>
    (case efs_first_super img off en of
       None \<Rightarrow> fst (efs_find_superblock rd sb off en) = EFS_ERROR_GENERIC
     | Some p \<Rightarrow> efs_find_superblock rd sb off en = (int p, chunk p sizeof_efs_superblock img))"
proof (induction "en + 1 - off" arbitrary: off sb rule: less_induct)
  case less
  show ?case
  proof (cases "off + sizeof_efs_superblock \<le> en")
    case False
    then have "efs_first_super img off en = None" by (simp add: efs_first_super_def)
    with False show ?thesis by (subst efs_find_superblock.simps) simp
  next
    case True
    let ?sb = "chunk off sizeof_efs_superblock img"
    have l: "off + sizeof_efs_superblock \<le> length img" using True less.prems(1) by simp
    have r: "rd_into rd (int off) sizeof_efs_superblock sb = (int sizeof_efs_superblock, ?sb)"
      using rd_into_serves [OF l] less.prems(2) l by (simp add: blit_def)
    have f: "le_field 0 4 ?sb = le_field off 4 img" "chunk 8 8 ?sb = chunk (off + 8) 8 img"
      by (simp_all add: le_field_def chunk_chunk)
    have up: "[off..<en + 1 - sizeof_efs_superblock] = off # [Suc off..<en + 1 - sizeof_efs_superblock]"
      using True by (simp add: upt_conv_Cons)
    show ?thesis
    proof (cases "efs_super_at img off")
      case True': True
      then have "efs_first_super img off en = Some off" unfolding efs_first_super_def up by simp
      moreover have "efs_find_superblock rd sb off en = (int off, ?sb)"
        using True True' r f by (subst efs_find_superblock.simps) (simp add: efs_super_at_def)
      ultimately show ?thesis by simp
    next
      case False
      then have e1: "efs_first_super img off en = efs_first_super img (Suc off) en"
        unfolding efs_first_super_def up by simp
      have e2: "efs_find_superblock rd sb off en = efs_find_superblock rd ?sb (Suc off) en"
        using True False r f by (subst efs_find_superblock.simps) (auto simp: efs_super_at_def)
      show ?thesis unfolding e1 e2 by (rule less.hyps) (use True less.prems l in auto)
    qed
  qed
qed

end

text \<open>C20: an image is mounted only when it has the boot header of a RAM file system backup and the header of a
  golden EFS image; the context then describes the first super block of the image after the headers.\<close>

theorem efs_mount_super:
  assumes dev: "efs_device rd img" and l: "61 \<le> length img" "le_field 16 4 img \<le> length img"
    and m: "efs_mount rd = Some (0, ctx)"
  shows "le_field 0 4 img = MBN_IMAGE_ID_BACKUP_RAMFS \<and> strneq (chunk 40 6 img) EFS_IMAGE_HEADER 6 \<and>
    img ! 46 = EFS_IMAGE_TYPE_GOLD \<and>
    (\<exists>so. efs_first_super img 61 (le_field 16 4 img) = Some so \<and> superblock_offset ctx = int so \<and>
      sector_size ctx = int (le_field (so + 22) 4 img) \<and> sector_count ctx = int (le_field (so + 26) 4 img) \<and>
      sectors_per_block ctx = int (le_field (so + 34) 4 img) \<and> database_root ctx = int (le_field (so + 188) 4 img))"
proof -
  let ?en = "le_field 16 4 img"
  have b: "rd_into rd 0 40 (replicate 40 0) = (40, chunk 0 40 img)"
    using efs_device.rd_into_serves [OF dev, of 0 40] l by (simp add: blit_def)
  have hd: "rd_into rd 40 21 (replicate 21 0) = (21, chunk 40 21 img)"
    using efs_device.rd_into_serves [OF dev, of 40 21] l by (simp add: blit_def)
  have f: "le_field 0 4 (chunk 0 40 img) = le_field 0 4 img" "le_field 16 4 (chunk 0 40 img) = ?en"
    "chunk 0 6 (chunk 40 21 img) = chunk 40 6 img" "chunk 40 21 img ! 6 = img ! 46"
    using l by (simp_all add: le_field_def chunk_chunk nth_chunk)
  define sb where "sb = efs_find_superblock rd (replicate 416 0) 61 ?en"
  have fs: "case efs_first_super img 61 ?en of None \<Rightarrow> fst sb = EFS_ERROR_GENERIC
      | Some p \<Rightarrow> sb = (int p, chunk p sizeof_efs_superblock img)"
    unfolding sb_def using efs_device.find_superblock [OF dev l(2), of "replicate 416 0" 61] by simp
  have cs: "fst sb = - 1 \<or> 0 \<le> fst sb" using fs by (auto split: option.splits)
  have ok: "le_field 0 4 img = MBN_IMAGE_ID_BACKUP_RAMFS" "strneq (chunk 40 6 img) EFS_IMAGE_HEADER 6"
    "img ! 46 = EFS_IMAGE_TYPE_GOLD" "0 \<le> fst sb"
    using m b hd f cs unfolding efs_mount_def sb_def by (auto split: if_splits prod.splits option.splits simp: Let_def to_int_def)
  from fs obtain so where so: "efs_first_super img 61 ?en = Some so" "sb = (int so, chunk so 416 img)"
    using ok(4) by (auto split: option.splits)
  have g: "le_field i 4 (chunk so 416 img) = le_field (so + i) 4 img" if "i + 4 \<le> 416" for i
    using that by (simp add: le_field_def chunk_chunk)
  have "superblock_offset ctx = int so \<and>
      sector_size ctx = int (le_field (so + 22) 4 img) \<and> sector_count ctx = int (le_field (so + 26) 4 img) \<and>
      sectors_per_block ctx = int (le_field (so + 34) 4 img) \<and> database_root ctx = int (le_field (so + 188) 4 img)"
    using m b hd f ok so(2) unfolding efs_mount_def sb_def
    by (auto split: if_splits prod.splits option.splits simp: Let_def g to_int_def)
  with ok so(1) show ?thesis by blast
qed

lemma efs_ex_device: "efs_device (efs_img_rd efs_ex_img) efs_ex_img"
  by (rule efs_img_device) (simp add: efs_ex_img_def efs_ex_node_def efs_ex_root_def efs_ex_file_def)

lemma efs_ex_lookup:
  "efs_lookup (efs_entries efs_ex_nodes) (inode_root efs_ex_ctx)
     (path_pieces [] (dropWhile (\<lambda>c. c = EFS_PATH_SEPARATOR) (bytes_of_string ''/a''))) = Some (0, 30, efs_ex_file)"
  by code_simp

lemma efs_ex_path: "bytes_of_string ''/a'' = EFS_PATH_SEPARATOR # bytes_of_string ''a''"
  by code_simp

lemma efs_ex_root_self: "(0, 18, efs_ex_root) \<in> set (efs_entries efs_ex_nodes)" "ent_self (inode_root efs_ex_ctx) efs_ex_root"
  by code_simp+

theorem efs_resolve_path_finds_witness:
  "\<exists>it'. efs_resolve_path (efs_img_rd efs_ex_img) efs_ex_ctx (bytes_of_string ''/a'') efs_iterator_zero = Some (0, it') \<and>
     efs_on it' 0 (30, efs_ex_file)"
  using efs_resolve_path_finds [OF efs_ex_device efs_ex_database efs_ex_root_self, of efs_iterator_zero, OF _ efs_ex_path]
  unfolding efs_ex_lookup by (simp add: efs_iterator_zero_def)

theorem efs_open_read_inline_witness:
  "\<exists>f. efs_open heap_ok (efs_img_rd efs_ex_img) efs_ex_ctx (bytes_of_string ''/a'') = Some (0, Some f) \<and>
     efs_read (efs_img_rd efs_ex_img) efs_ex_ctx f [7, 7] 0 2 = Some (1, [42, 7])"
proof -
  have "ent_inline efs_ex_file" "ent_data efs_ex_file = [42]" by code_simp+
  moreover have "malloc_ok heap_ok 4312" by (simp add: heap_ok_def)
  ultimately obtain f where "efs_open heap_ok (efs_img_rd efs_ex_img) efs_ex_ctx (bytes_of_string ''/a'') = Some (0, Some f)"
    "\<forall>off sz buffer. 0 \<le> off \<and> 0 \<le> sz \<and> length (take (nat sz) (drop (nat off) [42 :: byte])) \<le> length buffer \<longrightarrow>
       efs_read (efs_img_rd efs_ex_img) efs_ex_ctx f buffer off sz =
         (let bs = take (nat sz) (drop (nat off) [42]) in Some (int (length bs), blit 0 bs buffer))"
    using efs_open_read_inline [OF efs_ex_device efs_ex_database efs_ex_root_self efs_ex_path efs_ex_lookup efs_ex_entries_wf(2)]
    by metis
  moreover have "blit 0 [42] [7, 7] = [42, 7 :: byte]" by code_simp
  ultimately show ?thesis by (intro exI [of _ f]) simp
qed

lemma efs_good_0: "efs_needed_good img ctx ks 0" "efs_indirect_good img ctx ks 0"
  by (cases ks; simp)+

theorem efs_inode_read_start_witness:
  "efs_inode_read (efs_img_rd efs_ex_data) efs_ex_ctx efs_ex_inode [1, 1, 1, 1] 0 3 = Some (3, [9, 9, 9, 1])"
proof -
  have dev: "efs_device (efs_img_rd efs_ex_data) efs_ex_data"
    by (rule efs_img_device) (simp add: efs_ex_data_def)
  have "efs_context_ok efs_ex_ctx" by (simp add: efs_context_ok_def efs_ex_ctx_def)
  moreover have size: "inode_size efs_ex_inode = 40" by code_simp
  moreover have parts: "inode_sector efs_ex_inode 0 = 0" "efs_sector_good efs_ex_data efs_ex_ctx 0"
    "take 3 (efs_sector_data efs_ex_data efs_ex_ctx 0) = [9, 9, 9]" "3 - nat (sector_size efs_ex_ctx) = 0" by code_simp+
  moreover have "efs_file_good efs_ex_data efs_ex_ctx efs_ex_inode 3"
    using parts efs_good_0 by (simp add: efs_file_good_def upt_conv_Cons efs_gather_Cons)
  moreover have "efs_gather efs_ex_data efs_ex_ctx (efs_file_sectors efs_ex_data efs_ex_ctx efs_ex_inode) 3 = [9, 9, 9]"
    using parts by (simp add: efs_file_sectors_def upt_conv_Cons efs_gather_Cons)
  moreover have "blit 0 [9, 9, 9] [1, 1, 1, 1] = [9, 9, 9, 1 :: byte]" by code_simp
  ultimately show ?thesis
    using efs_inode_read_start [OF dev, of efs_ex_ctx 3 3 efs_ex_inode "[1, 1, 1, 1]"] by simp
qed

theorem efs_inode_read_offset_fails_witness:
  "efs_inode_read (efs_img_rd efs_ex_data) efs_ex_ctx efs_ex_inode [1, 1, 1, 1] 13 3 = Some (EFS_ERROR_EOF, [1, 1, 1, 1])"
proof -
  have "sector_size efs_ex_ctx = 64" by (simp add: efs_ex_ctx_def)
  moreover have "inode_size efs_ex_inode = 40" by code_simp
  moreover have "\<not> efs_sector_valid efs_ex_ctx (inode_sector_indirect efs_ex_inode 0)"
    by (simp add: efs_sector_valid_def inode_sector_indirect_def efs_ex_inode_def le_field_def chunk_def efs_ex_ctx_def)
  ultimately show ?thesis
    using efs_inode_read_offset_fails [of efs_ex_ctx 13 efs_ex_inode 3] by simp
qed

lemma efs_ex_partition_length: "length efs_ex_partition = 536"
  by (simp add: efs_ex_partition_def efs_ex_boot_def efs_ex_header_def efs_ex_super_def efs_ex_group_def bytes_of_string_def)

lemma efs_ex_partition_device: "efs_device (efs_img_rd efs_ex_partition) efs_ex_partition"
  by (rule efs_img_device) (simp add: efs_ex_partition_length)

lemma efs_ex_partition_parts:
  "chunk 0 40 efs_ex_partition = efs_ex_boot" "chunk 40 21 efs_ex_partition = efs_ex_header"
  "chunk 61 416 efs_ex_partition = efs_ex_super" "chunk 512 24 efs_ex_partition = efs_ex_group"
  by (simp_all add: chunk_def efs_ex_partition_def efs_ex_boot_def efs_ex_header_def efs_ex_super_def efs_ex_group_def
      bytes_of_string_def)

lemma efs_ex_lengths:
  "length efs_ex_boot = 40" "length efs_ex_header = 21" "length efs_ex_super = 416" "length efs_ex_group = 24"
  by (simp_all add: efs_ex_boot_def efs_ex_header_def efs_ex_super_def efs_ex_group_def bytes_of_string_def)

lemma efs_ex_partition_reads:
  "rd_into (efs_img_rd efs_ex_partition) 0 40 (replicate 40 0) = (40, efs_ex_boot)"
  "rd_into (efs_img_rd efs_ex_partition) 40 21 (replicate 21 0) = (21, efs_ex_header)"
  "rd_into (efs_img_rd efs_ex_partition) 61 416 (replicate 416 0) = (416, efs_ex_super)"
  "rd_into (efs_img_rd efs_ex_partition) 512 24 (replicate 24 0) = (24, efs_ex_group)"
  using efs_ex_partition_parts
  by (simp_all add: rd_into_def efs_img_rd_def efs_ex_partition_length blit_def efs_ex_lengths)

lemma efs_ex_fields:
  "le_field 0 4 efs_ex_boot = 20" "le_field 16 4 efs_ex_boot = 477"
  "efs_ex_header ! 6 = EFS_IMAGE_TYPE_GOLD" "le_field 0 4 efs_ex_super = EFS_SUPER_BLOCK_HEADER"
  "le_field 22 4 efs_ex_super = 512"
  "le_field 26 4 efs_ex_super = 8" "le_field 34 4 efs_ex_super = 1" "le_field 0 4 efs_ex_group = EFS_GROUP_DESCRIPTOR_HEADER"
  by (simp_all add: efs_ex_boot_def efs_ex_header_def efs_ex_super_def efs_ex_group_def le_field_def chunk_def bytes_of_string_def)

lemma efs_ex_magic:
  "strneq (chunk 0 6 efs_ex_header) EFS_IMAGE_HEADER 6" "strneq (chunk 8 8 efs_ex_super) EFS_SUPER_BLOCK_MAGIC 8"
  by code_simp+

theorem efs_mount_super_witness:
  "\<exists>ctx. efs_mount (efs_img_rd efs_ex_partition) = Some (0, ctx) \<and> superblock_offset ctx = 61 \<and> sector_size ctx = 512"
proof -
  let ?rd = "efs_img_rd efs_ex_partition"
  have sup: "efs_find_superblock ?rd (replicate 416 0) 61 477 = (61, efs_ex_super)"
    by (subst efs_find_superblock.simps) (simp add: efs_ex_partition_reads efs_ex_fields efs_ex_magic)
  have grp: "efs_find_group_from ?rd ctx (replicate 24 0) 1 = (512, efs_ex_group)"
    if "sector_size ctx = 512" "sector_count ctx = 8" for ctx
    using that by (subst efs_find_group_from.simps)
      (simp add: efs_raw_sector_to_offset_def to_long_small efs_ex_partition_reads efs_ex_fields)
  obtain ctx where ctx: "efs_mount ?rd = Some (0, ctx)"
    unfolding efs_mount_def
    by (simp add: efs_ex_partition_reads efs_ex_fields efs_ex_magic sup Let_def efs_find_group_descriptor_def
        efs_block_to_offset_def to_long_small to_ulong_small grp)
  have "le_field 16 4 efs_ex_partition = le_field 16 4 (chunk 0 40 efs_ex_partition)"
    by (simp add: le_field_def chunk_chunk)
  then have en: "le_field 16 4 efs_ex_partition = 477" by (simp add: efs_ex_partition_parts efs_ex_fields)
  have "le_field (61 + 22) 4 efs_ex_partition = le_field 22 4 (chunk 61 416 efs_ex_partition)"
    by (simp add: le_field_def chunk_chunk)
  then have ss: "le_field (61 + 22) 4 efs_ex_partition = 512" by (simp add: efs_ex_partition_parts efs_ex_fields)
  have fs: "efs_first_super efs_ex_partition 61 477 = Some so \<Longrightarrow> so = 61" for so
    unfolding efs_first_super_def by (auto simp: find_Some_iff upt_rec split: if_splits)
  have "61 \<le> length efs_ex_partition" "le_field 16 4 efs_ex_partition \<le> length efs_ex_partition"
    using en by (simp_all add: efs_ex_partition_length)
  from efs_mount_super [OF efs_ex_partition_device this ctx]
  obtain so where so: "efs_first_super efs_ex_partition 61 477 = Some so" "superblock_offset ctx = int so"
    "sector_size ctx = int (le_field (so + 22) 4 efs_ex_partition)" unfolding en by auto
  have "so = 61" using fs so(1) .
  then show ?thesis using so ctx ss by simp
qed

end
