(* ===== verification/Qsort.thy ===== *)
theory Qsort
  imports Prelude "HOL-Library.Multiset"
begin

text \<open>
  The Shell sort of \<open>lib/qsort.c\<close> on an array whose first \<open>nel\<close> elements are sorted. Positions and
  gaps count elements; the code counts bytes, a fixed multiple of them. The comparison function is
  a parameter, with a negative, zero or positive result. The theorems: the result is a permutation of the array, the elements behind the
  first \<open>nel\<close> stay, and the first \<open>nel\<close> elements are ordered by any transitive relation the
  comparison decides.
\<close>

subsection \<open>The sort\<close>

type_synonym 'a compar = "'a \<Rightarrow> 'a \<Rightarrow> int"

function first_gap :: "nat \<Rightarrow> nat \<Rightarrow> nat" where
  "first_gap nel wgap = (let wgap' = 3 * wgap + 1 in if wgap' < (nel - 1) div 3 then first_gap nel wgap' else wgap')"
  by auto

termination first_gap
  by (relation "measure (\<lambda>(nel, wgap). nel - wgap)") auto

declare first_gap.simps [simp del]

text \<open>
  The innermost loop, entered with \<open>j \<ge> wgap\<close>: the element at \<open>j\<close> moves down in steps of the gap while it is
  smaller than the element one gap below.
\<close>

function sift :: "'a compar \<Rightarrow> nat \<Rightarrow> 'a list \<Rightarrow> nat \<Rightarrow> 'a list" where
  "sift cmp wgap base j =
     (if 0 < wgap \<and> wgap \<le> j then
        (let a = j - wgap in
         if cmp (base ! a) (base ! j) \<le> 0 then base
         else sift cmp wgap (base[a := base ! j, j := base ! a]) a)
      else base)"
  by auto

termination sift
  by (relation "measure (\<lambda>(cmp, wgap, base, j). j)") auto

declare sift.simps [simp del]

definition sort_pass :: "'a compar \<Rightarrow> nat \<Rightarrow> nat \<Rightarrow> 'a list \<Rightarrow> 'a list" where
  "sort_pass cmp nel wgap base = foldl (sift cmp wgap) base [wgap..<nel]"

function sort_passes :: "'a compar \<Rightarrow> nat \<Rightarrow> nat \<Rightarrow> 'a list \<Rightarrow> 'a list" where
  "sort_passes cmp nel wgap base =
     (let base' = sort_pass cmp nel wgap base; wgap' = (wgap - 1) div 3
      in if wgap' \<noteq> 0 then sort_passes cmp nel wgap' base' else base')"
  by auto

termination sort_passes
  by (relation "measure (\<lambda>(cmp, nel, wgap, base). wgap)") auto

declare sort_passes.simps [simp del]

definition qsort :: "'a list \<Rightarrow> nat \<Rightarrow> 'a compar \<Rightarrow> 'a list" where
  "qsort base nel cmp = (if nel > 1 then sort_passes cmp nel (first_gap nel 0) base else base)"

subsection \<open>Specification\<close>

definition keeps :: "nat \<Rightarrow> 'a list \<Rightarrow> 'a list \<Rightarrow> bool" where
  "keeps n xs ys = (length ys = length xs \<and> mset ys = mset xs \<and> drop n ys = drop n xs)"

text \<open>The comparison decides a transitive relation on the elements.\<close>

definition decides :: "('a \<Rightarrow> 'a \<Rightarrow> bool) \<Rightarrow> 'a compar \<Rightarrow> 'a set \<Rightarrow> bool" where
  "decides P cmp A = ((\<forall>a \<in> A. \<forall>b \<in> A. if cmp a b \<le> 0 then P a b else P b a) \<and>
     (\<forall>a \<in> A. \<forall>b \<in> A. \<forall>c \<in> A. P a b \<longrightarrow> P b c \<longrightarrow> P a c))"

text \<open>Ordered below \<open>n\<close>, apart from the element at \<open>j\<close> and those below it.\<close>

definition ordered_but :: "('a \<Rightarrow> 'a \<Rightarrow> bool) \<Rightarrow> nat \<Rightarrow> nat \<Rightarrow> 'a list \<Rightarrow> bool" where
  "ordered_but P n j xs = (\<forall>p q. p < q \<and> q < n \<and> q \<noteq> j \<longrightarrow> P (xs ! p) (xs ! q))"

text \<open>Gaps are of the form 1, 4, 13, 40 and so on, so the last one is 1 and a division by 3 leaves no remainder, in elements or in bytes.\<close>

inductive shell_gap :: "nat \<Rightarrow> bool" where
  one: "shell_gap 1"
| step: "shell_gap g \<Longrightarrow> shell_gap (3 * g + 1)"

subsection \<open>The elements are permuted\<close>

lemma swap_mset: "i < length xs \<Longrightarrow> j < length xs \<Longrightarrow> mset (xs[i := xs ! j, j := xs ! i]) = mset xs"
  by (cases "i = j") (simp_all add: mset_swap)

lemma keeps_refl [simp]: "keeps n xs xs"
  by (simp add: keeps_def)

lemma keeps_trans: "keeps n xs ys \<Longrightarrow> keeps n ys zs \<Longrightarrow> keeps n xs zs"
  by (simp add: keeps_def)

lemma keeps_length: "keeps n xs ys \<Longrightarrow> length ys = length xs"
  by (simp add: keeps_def)

lemma keeps_take_mset: "keeps n xs ys \<Longrightarrow> mset (take n ys) = mset (take n xs)"
  unfolding keeps_def by (metis append_take_drop_id mset_append add_right_cancel)

lemma keeps_set: "keeps n xs ys \<Longrightarrow> set ys = set xs"
  by (metis keeps_def set_mset_mset)

lemma sift_keeps:
  "j < n \<Longrightarrow> n \<le> length base \<Longrightarrow> keeps n base (sift cmp wgap base j)"
proof (induction cmp wgap base j rule: sift.induct)
  case (1 cmp wgap base j)
  let ?a = "j - wgap" and ?b = "base[j - wgap := base ! j, j := base ! (j - wgap)]"
  have swap: "keeps n base ?b"
    using 1(2,3) swap_mset [of ?a base j] by (simp add: keeps_def)
  show ?case
  proof (cases "0 < wgap \<and> wgap \<le> j \<and> \<not> cmp (base ! ?a) (base ! j) \<le> 0")
    case True
    with 1 have "keeps n ?b (sift cmp wgap ?b ?a)" by auto
    with keeps_trans [OF swap] True show ?thesis by (simp add: sift.simps [of cmp wgap base j] Let_def)
  qed (auto simp: sift.simps [of cmp wgap base j] Let_def)
qed

lemma foldl_sift_keeps:
  "\<forall>i \<in> set is. i < n \<Longrightarrow> n \<le> length base \<Longrightarrow> keeps n base (foldl (sift cmp wgap) base is)"
proof (induction "is" arbitrary: base)
  case (Cons i "is")
  have s: "keeps n base (sift cmp wgap base i)" using Cons.prems by (intro sift_keeps) auto
  with Cons.IH [of "sift cmp wgap base i"] Cons.prems keeps_trans [OF s] keeps_length [OF s] show ?case by simp
qed simp

lemma sort_pass_keeps: "n \<le> length base \<Longrightarrow> keeps n base (sort_pass cmp n wgap base)"
  by (simp add: sort_pass_def foldl_sift_keeps)

lemma sort_passes_keeps: "n \<le> length base \<Longrightarrow> keeps n base (sort_passes cmp n wgap base)"
proof (induction cmp n wgap base rule: sort_passes.induct)
  case (1 cmp n wgap base)
  note p = sort_pass_keeps [OF 1(2), of cmp wgap]
  show ?case
  proof (cases "(wgap - 1) div 3 = 0")
    case False
    then have "keeps n (sort_pass cmp n wgap base) (sort_passes cmp n ((wgap - 1) div 3) (sort_pass cmp n wgap base))"
      using 1 keeps_length [OF p] by simp
    with keeps_trans [OF p] False show ?thesis by (simp add: sort_passes.simps [of cmp n wgap] Let_def)
  qed (simp add: sort_passes.simps [of cmp n wgap] Let_def p)
qed

lemma qsort_keeps: "n \<le> length base \<Longrightarrow> keeps n base (qsort base n cmp)"
  by (simp add: qsort_def sort_passes_keeps)

subsection \<open>The last pass is an insertion sort\<close>

lemma decides_le: "decides P cmp A \<Longrightarrow> a \<in> A \<Longrightarrow> b \<in> A \<Longrightarrow> cmp a b \<le> 0 \<Longrightarrow> P a b"
  unfolding decides_def by metis

lemma decides_gt: "decides P cmp A \<Longrightarrow> a \<in> A \<Longrightarrow> b \<in> A \<Longrightarrow> \<not> cmp a b \<le> 0 \<Longrightarrow> P b a"
  unfolding decides_def by metis

lemma decides_trans: "decides P cmp A \<Longrightarrow> a \<in> A \<Longrightarrow> b \<in> A \<Longrightarrow> c \<in> A \<Longrightarrow> P a b \<Longrightarrow> P b c \<Longrightarrow> P a c"
  unfolding decides_def by blast

lemma ordered_but_0: "ordered_but P n 0 xs \<longleftrightarrow> (\<forall>q < n. \<forall>p < q. P (xs ! p) (xs ! q))"
  by (auto simp: ordered_but_def)

lemma ordered_but_swap:
  assumes "ordered_but P n (Suc a) xs" and "Suc a < n" and "n \<le> length xs" and "P (xs ! Suc a) (xs ! a)"
  shows "ordered_but P n a (xs[a := xs ! Suc a, Suc a := xs ! a])"
  unfolding ordered_but_def
proof (intro allI impI, elim conjE)
  fix p q assume pq: "p < q" "q < n" "q \<noteq> a"
  let ?ys = "xs[a := xs ! Suc a, Suc a := xs ! a]"
  have o: "\<And>p q. p < q \<Longrightarrow> q < n \<Longrightarrow> q \<noteq> Suc a \<Longrightarrow> P (xs ! p) (xs ! q)"
    using assms(1) by (simp add: ordered_but_def)
  consider "q < a" | "q = Suc a" "p = a" | "q = Suc a" "p < a" | "Suc a < q"
    using pq by linarith
  then show "P (?ys ! p) (?ys ! q)"
  proof cases
    case 4
    then show ?thesis using o pq assms by (cases "p = a"; cases "p = Suc a") (auto simp: nth_list_update)
  qed (use o pq assms in \<open>auto simp: nth_list_update\<close>)
qed

lemma sift_ordered:
  assumes "decides P cmp (set base)"
  shows "ordered_but P n j base \<Longrightarrow> j < n \<Longrightarrow> n \<le> length base \<Longrightarrow> ordered_but P n 0 (sift cmp 1 base j)"
  using assms
proof (induction cmp "1 :: nat" base j rule: sift.induct)
  case (1 cmp base j)
  show ?case
  proof (cases j)
    case 0
    then show ?thesis using 1(2) by (simp add: sift.simps [of cmp "Suc 0" base])
  next
    case (Suc a)
    have A: "base ! a \<in> set base" "base ! j \<in> set base" using 1(3,4) Suc by auto
    show ?thesis
    proof (cases "cmp (base ! a) (base ! j) \<le> 0")
      case True
      have aj: "P (base ! a) (base ! j)" using decides_le [OF 1(5) A True] .
      have "P (base ! p) (base ! j)" if p: "p < j" for p
      proof (cases "p = a")
        case False
        then have "P (base ! p) (base ! a)" using 1(2,3) p Suc by (simp add: ordered_but_def)
        with decides_trans [OF 1(5) _ A] aj p 1(3,4) show ?thesis by simp
      qed (use aj in simp)
      with 1(2) have "ordered_but P n 0 base" unfolding ordered_but_def by blast
      with True Suc show ?thesis by (simp add: sift.simps [of cmp "Suc 0" base])
    next
      case False
      let ?b = "base[a := base ! j, j := base ! a]"
      have "ordered_but P n a ?b"
        using ordered_but_swap [of P n a base] 1(2-4) Suc decides_gt [OF 1(5) A False] by simp
      moreover have sb: "set ?b = set base"
        using swap_mset [of a base j] 1(3,4) Suc by (metis Suc_lessD mset_eq_setD order_less_le_trans)
      moreover have "decides P cmp (set ?b)" unfolding sb by (rule 1(5))
      ultimately have "ordered_but P n 0 (sift cmp 1 ?b a)"
        using Suc False 1(3,4) by (intro 1(1)) (simp_all del: set_update_distinct)
      with False Suc show ?thesis by (simp add: sift.simps [of cmp "Suc 0" base])
    qed
  qed
qed

lemma foldl_sift_ordered:
  "decides P cmp (set base) \<Longrightarrow> ordered_but P m 0 base \<Longrightarrow> 0 < m \<Longrightarrow> m + k \<le> length base \<Longrightarrow>
   ordered_but P (m + k) 0 (foldl (sift cmp 1) base [m..<m + k])"
proof (induction k)
  case (Suc k)
  let ?b = "foldl (sift cmp 1) base [m..<m + k]"
  have kp: "keeps (m + k) base ?b" using Suc.prems by (intro foldl_sift_keeps) auto
  have "ordered_but P (m + k) 0 ?b" using Suc by simp
  then have "ordered_but P (Suc (m + k)) (m + k) ?b" using Suc.prems(3) unfolding ordered_but_def
    by (metis less_SucE less_antisym not_less_zero)
  then have "ordered_but P (Suc (m + k)) 0 (sift cmp 1 ?b (m + k))"
    using sift_ordered [of P cmp ?b "Suc (m + k)" "m + k"] Suc.prems keeps_set [OF kp] keeps_length [OF kp] by simp
  then show ?case by simp
qed simp

lemma sort_pass_ordered:
  assumes "decides P cmp (set base)" and "n \<le> length base" and "0 < n"
  shows "ordered_but P n 0 (sort_pass cmp n 1 base)"
proof -
  have "ordered_but P 1 0 base" by (simp add: ordered_but_def)
  from foldl_sift_ordered [OF assms(1) this, of "n - 1"] assms(2,3) show ?thesis by (simp add: sort_pass_def)
qed

inductive_cases shell_gapE: "shell_gap g"

lemma shell_gap_bytes: "shell_gap g \<Longrightarrow> (g * width - width) div 3 = (g - 1) div 3 * width"
proof (induction g rule: shell_gap.induct)
  case (step g)
  have "(3 * g + 1) * width - width = 3 * (g * width)" by (simp add: algebra_simps)
  then show ?case by simp
qed simp

lemma first_gap_shell: "wgap = 0 \<or> shell_gap wgap \<Longrightarrow> shell_gap (first_gap nel wgap)"
proof (induction nel wgap rule: first_gap.induct)
  case (1 nel wgap)
  then have "shell_gap (3 * wgap + 1)" using shell_gap.intros by auto
  with 1 show ?case by (simp add: first_gap.simps [of nel wgap] Let_def)
qed

lemma sort_passes_ordered:
  "shell_gap wgap \<Longrightarrow> decides P cmp (set base) \<Longrightarrow> n \<le> length base \<Longrightarrow> 0 < n \<Longrightarrow>
   ordered_but P n 0 (sort_passes cmp n wgap base)"
proof (induction wgap arbitrary: base rule: shell_gap.induct)
  case one
  then show ?case by (simp add: sort_passes.simps [of cmp n "Suc 0"] sort_pass_ordered [simplified])
next
  case (step g)
  have k: "keeps n base (sort_pass cmp n (3 * g + 1) base)" using step.prems by (intro sort_pass_keeps) auto
  have "0 < g" using step.hyps by (auto elim: shell_gapE)
  with step.IH [of "sort_pass cmp n (3 * g + 1) base"] step.prems keeps_set [OF k] keeps_length [OF k] show ?case
    by (simp add: sort_passes.simps [of cmp n "Suc (3 * g)"] Let_def)
qed

lemma qsort_ordered:
  assumes "decides P cmp (set base)" and "n \<le> length base" and "p < q" and "q < n"
  shows "P (qsort base n cmp ! p) (qsort base n cmp ! q)"
  using sort_passes_ordered [OF first_gap_shell assms(1,2), of 0 n] assms(3,4)
  by (simp add: qsort_def ordered_but_0)

text \<open>C27: sorting permutes the first \<open>nel\<close> elements into an order by any transitive relation the comparison decides and
  leaves the others.\<close>

theorem qsort_sorts:
  assumes "decides P cmp (set base)" and "nel \<le> length base"
  shows "mset (take nel (qsort base nel cmp)) = mset (take nel base) \<and>
    drop nel (qsort base nel cmp) = drop nel base \<and> sorted_wrt P (take nel (qsort base nel cmp))"
  using keeps_take_mset [OF qsort_keeps [OF assms(2), of cmp]] qsort_keeps [OF assms(2), of cmp] qsort_ordered [OF assms]
  by (simp add: keeps_def sorted_wrt_iff_nth_less)

theorem qsort_sorts_witness:
  "sorted_wrt (\<le>) (take 3 (qsort [5, 1, 3, 2 :: int] 3 (-)))"
  using qsort_sorts [of "(\<le>)" "(-)" "[5, 1, 3, 2 :: int]" 3] by (simp add: decides_def)

end
