(* ===== verification/Env.thy ===== *)
theory Env
  imports Prelude
begin

text \<open>
  Environment variables: \<open>env_set\<close>, \<open>env_do_env_set\<close> and \<open>env_get\<close> of env/common.c, with the checks of env/flags.c that
  \<open>hsearch_r\<close> and \<open>hdelete_r\<close> of lib/hashtable.c make before they change a variable.

  The hash table appears as the variables it holds, each with its value and its flags, and the number of entries in
  use; the places of the entries in the table are not modelled. The flags and the callback of a variable come from lists
  in other variables and in the configuration, so \<open>en_new_flags\<close> gives the flags \<open>env_flags_init\<close> finds for a new
  variable and \<open>en_callback\<close> what its callback returns, 0 for none. \<open>en_default\<close> is the default environment and
  \<open>en_early\<close> what \<open>env_get_f\<close> finds before the import. The names do not begin with a dash, which \<open>env_do_env_set\<close> takes for
  an option. A function that leaves an entry without a key or without data behind has the value \<^const>\<open>None\<close>.
\<close>

datatype env_op = env_op_create | env_op_delete | env_op_overwrite

record env =
  en_ready :: bool
  en_id :: nat
  en_vars :: "string \<Rightarrow> (string \<times> nat) option"
  en_filled :: nat
  en_size :: nat
  en_heap :: c_heap
  en_new_flags :: "string \<Rightarrow> nat"
  en_callback :: "string \<Rightarrow> string option \<Rightarrow> env_op \<Rightarrow> int"
  en_default :: "string \<Rightarrow> string option"
  en_early :: "string \<Rightarrow> string option"

subsection \<open>Types of values (env/flags.c)\<close>

definition is_hex_prefix :: "string \<Rightarrow> bool" where
  "is_hex_prefix value \<longleftrightarrow> take 2 value = ''0x'' \<or> take 2 value = ''0X''"

definition c_isdigit :: "char \<Rightarrow> bool" where
  "c_isdigit c \<longleftrightarrow> c \<in> set ''0123456789''"

definition c_isxdigit :: "char \<Rightarrow> bool" where
  "c_isxdigit c \<longleftrightarrow> c \<in> set ''0123456789abcdefABCDEF''"

fun skip_digits :: "bool \<Rightarrow> string \<Rightarrow> int \<Rightarrow> string" where
  "skip_digits hex [] i = []"
| "skip_digits hex (c # cs) i =
     (if i = 0 then c # cs
      else if hex \<and> \<not> c_isxdigit c then c # cs
      else if \<not> hex \<and> \<not> c_isdigit c then c # cs
      else skip_digits hex cs (i - 1))"

text \<open>The rest of the string at \<open>*end\<close>.\<close>

definition skip_num :: "bool \<Rightarrow> string \<Rightarrow> int \<Rightarrow> string" where
  "skip_num hex value max_digits =
     skip_digits hex (if hex \<and> is_hex_prefix value then drop 2 value else value) max_digits"

text \<open>The loop over the fields of an Ethernet address, of which \<open>n\<close> are left; whether it returns 0.\<close>

fun eth_validate_loop :: "nat \<Rightarrow> string \<Rightarrow> bool" where
  "eth_validate_loop 0 cur = True"
| "eth_validate_loop (Suc n) cur =
     (let end' = skip_num True cur 2 in
      if end' = cur then False
      else if length cur = length end' + 2 \<and> is_hex_prefix cur then False
      else if n \<noteq> 0 \<and> take 1 end' \<noteq> '':'' then False
      else if n = 0 \<and> end' \<noteq> [] then False
      else eth_validate_loop n (drop 1 end'))"

definition eth_validate_ethaddr_str :: "string \<Rightarrow> bool" where
  "eth_validate_ethaddr_str addr = eth_validate_loop 6 addr"

fun ipaddr_validate_loop :: "nat \<Rightarrow> string \<Rightarrow> bool" where
  "ipaddr_validate_loop 0 cur = True"
| "ipaddr_validate_loop (Suc n) cur =
     (let end' = skip_num False cur 3 in
      if cur = end' then False
      else if n \<noteq> 0 \<and> take 1 end' \<noteq> ''.'' then False
      else if n = 0 \<and> end' \<noteq> [] then False
      else ipaddr_validate_loop n (drop 1 end'))"

text \<open>Whether \<open>_env_flags_validate_type\<close> returns 0, with \<open>CONFIG_NET\<close>; a type of 7 has no case in the source.\<close>

definition env_flags_validate_type :: "string \<Rightarrow> nat \<Rightarrow> bool" where
  "env_flags_validate_type value type =
     (if type = 1 then skip_num False value (- 1) = []
      else if type = 2 then
        skip_num True value (- 1) = [] \<and> \<not> (length value = length (skip_num True value (- 1)) + 2 \<and> is_hex_prefix value)
      else if type = 3 then length value = 1 \<and> value ! 0 \<in> set ''1ytYT0nfNF''
      else if type = 4 then ipaddr_validate_loop 4 value
      else if type = 5 then eth_validate_ethaddr_str value
      else type \<noteq> 6)"

subsection \<open>Access to variables (env/flags.c)\<close>

definition ENV_FLAGS_VARTYPE_BIN_MASK :: nat where "ENV_FLAGS_VARTYPE_BIN_MASK = 0x07"
definition ENV_FLAGS_VARACCESS_PREVENT_DELETE :: nat where "ENV_FLAGS_VARACCESS_PREVENT_DELETE = 0x08"
definition ENV_FLAGS_VARACCESS_PREVENT_CREATE :: nat where "ENV_FLAGS_VARACCESS_PREVENT_CREATE = 0x10"
definition ENV_FLAGS_VARACCESS_PREVENT_OVERWR :: nat where "ENV_FLAGS_VARACCESS_PREVENT_OVERWR = 0x20"
definition ENV_FLAGS_VARACCESS_PREVENT_NONDEF_OVERWR :: nat where "ENV_FLAGS_VARACCESS_PREVENT_NONDEF_OVERWR = 0x40"

text \<open>The flags of the access mode \<open>o\<close>, write-once, of a string: those of \<open>serial#\<close> in \<open>ENV_FLAGS_LIST_STATIC\<close>.\<close>

definition env_flags_once :: nat where
  "env_flags_once = ENV_FLAGS_VARACCESS_PREVENT_DELETE OR ENV_FLAGS_VARACCESS_PREVENT_OVERWR"

text \<open>\<open>env_flags_validate\<close> for the flag \<open>H_PROGRAMMATIC\<close>; \<open>oldval\<close> is the value of the entry, \<open>flags\<close> its flags.\<close>

definition env_flags_validate :: "env \<Rightarrow> string \<Rightarrow> string \<Rightarrow> nat \<Rightarrow> string \<Rightarrow> env_op \<Rightarrow> int" where
  "env_flags_validate e name oldval flags newval op =
     (if op \<noteq> env_op_delete \<and> \<not> env_flags_validate_type newval (ENV_FLAGS_VARTYPE_BIN_MASK AND flags) then - 1
      else
        case op of
          env_op_delete \<Rightarrow> if flags AND ENV_FLAGS_VARACCESS_PREVENT_DELETE \<noteq> 0 then 1 else 0
        | env_op_overwrite \<Rightarrow>
            if flags AND ENV_FLAGS_VARACCESS_PREVENT_OVERWR \<noteq> 0 then 1
            else if flags AND ENV_FLAGS_VARACCESS_PREVENT_NONDEF_OVERWR \<noteq> 0 then
              (if oldval \<noteq> (case en_default e name of None \<Rightarrow> '''' | Some defval \<Rightarrow> defval) then 1 else 0)
            else 0
        | env_op_create \<Rightarrow> if flags AND ENV_FLAGS_VARACCESS_PREVENT_CREATE \<noteq> 0 then 1 else 0)"

subsection \<open>The hash table as a map (lib/hashtable.c)\<close>

text \<open>The C string with this text allocates one byte more.\<close>

definition str_ok :: "env \<Rightarrow> string \<Rightarrow> bool" where
  "str_ok e s = malloc_ok (en_heap e) (length s + 1)"

text \<open>Whether the entry is returned, and the environment: for an entry with the key, and for a new one.\<close>

definition overwrite_entry :: "string \<Rightarrow> string \<Rightarrow> nat \<Rightarrow> string \<Rightarrow> env \<Rightarrow> (bool \<times> env) option" where
  "overwrite_entry name oldval flags value e =
     (if env_flags_validate e name oldval flags value env_op_overwrite \<noteq> 0 then Some (False, e)
      else if en_callback e name (Some value) env_op_overwrite \<noteq> 0 then Some (False, e)
      else if \<not> str_ok e value then None
      else Some (True, e\<lparr>en_vars := (en_vars e)(name \<mapsto> (value, flags))\<rparr>))"

definition create_entry :: "string \<Rightarrow> string \<Rightarrow> env \<Rightarrow> (bool \<times> env) option" where
  "create_entry name value e =
     (if en_filled e = en_size e then Some (False, e)
      else if \<not> str_ok e name \<or> \<not> str_ok e value then None
      else if env_flags_validate e name value (en_new_flags e name) value env_op_create \<noteq> 0 then Some (False, e)
      else if en_callback e name (Some value) env_op_create \<noteq> 0 then Some (False, e)
      else Some (True, e\<lparr>en_vars := (en_vars e)(name \<mapsto> (value, en_new_flags e name)), en_filled := en_filled e + 1\<rparr>))"

text \<open>\<open>hsearch_r\<close> with \<open>ENV_ENTER\<close>; the search for the place of the key is the look-up of the name.\<close>

definition hsearch_enter :: "string \<Rightarrow> string \<Rightarrow> env \<Rightarrow> (bool \<times> env) option" where
  "hsearch_enter name value e =
     (case en_vars e name of
        Some (oldval, flags) \<Rightarrow> overwrite_entry name oldval flags value e
      | None \<Rightarrow> create_entry name value e)"

definition EPERM :: int where [simp]: "EPERM = 1"

definition hdelete_r :: "string \<Rightarrow> env \<Rightarrow> int \<times> env" where
  "hdelete_r name e =
     (case en_vars e name of
        None \<Rightarrow> (- ENOENT, e)
      | Some (oldval, flags) \<Rightarrow>
          if env_flags_validate e name oldval flags '''' env_op_delete \<noteq> 0 then (- EPERM, e)
          else if en_callback e name None env_op_delete \<noteq> 0 then (- EINVAL, e)
          else (0, e\<lparr>en_vars := (en_vars e)(name := None), en_filled := en_filled e - 1\<rparr>))"

subsection \<open>Setting and reading variables (env/common.c)\<close>

text \<open>A value of \<^const>\<open>None\<close> deletes the variable. The value is first joined in a buffer of its length.\<close>

definition env_do_env_set :: "string \<Rightarrow> string option \<Rightarrow> env \<Rightarrow> (int \<times> env) option" where
  "env_do_env_set name val e =
     (if CHR ''='' \<in> set name then Some (1, e)
      else
        (let e = e\<lparr>en_id := en_id e + 1\<rparr> in
         case val of
           None \<Rightarrow> (case hdelete_r name e of (rc, e) \<Rightarrow> Some (if rc \<noteq> 0 \<and> rc \<noteq> - ENOENT then 1 else 0, e))
         | Some value \<Rightarrow>
             if \<not> str_ok e value then Some (1, e)
             else (case hsearch_enter name value e of
                     None \<Rightarrow> None
                   | Some (found, e) \<Rightarrow> Some (if found then 0 else 1, e))))"

definition env_set :: "string \<Rightarrow> string option \<Rightarrow> env \<Rightarrow> (int \<times> env) option" where
  "env_set varname varvalue e =
     (if \<not> en_ready e then Some (1, e)
      else if varvalue = None \<or> varvalue = Some '''' then env_do_env_set varname None e
      else env_do_env_set varname varvalue e)"

definition env_get :: "string \<Rightarrow> env \<Rightarrow> string option" where
  "env_get name e = (if en_ready e then map_option fst (en_vars e name) else en_early e name)"

subsection \<open>Specification\<close>

text \<open>The flags that decide about setting a variable: those of its entry or of a new one.\<close>

definition env_flags_of :: "env \<Rightarrow> string \<Rightarrow> nat" where
  "env_flags_of e name = (case en_vars e name of Some (_, flags) \<Rightarrow> flags | None \<Rightarrow> en_new_flags e name)"

text \<open>The environment is imported, memory and \<open>n\<close> entries of the table are left, and the callback does not object.\<close>

definition env_usable :: "env \<Rightarrow> nat \<Rightarrow> string \<Rightarrow> bool" where
  "env_usable e n name \<longleftrightarrow>
     en_ready e \<and> (\<forall>k. malloc_ok (en_heap e) k) \<and> en_filled e + n \<le> en_size e \<and> CHR ''='' \<notin> set name \<and>
     (\<forall>v op. en_callback e name v op = 0)"

definition env_put :: "string \<Rightarrow> string \<Rightarrow> env \<Rightarrow> env" where
  "env_put name value e =
     e\<lparr>en_id := en_id e + 1, en_vars := (en_vars e)(name \<mapsto> (value, env_flags_of e name)),
       en_filled := en_filled e + (if en_vars e name = None then 1 else 0)\<rparr>"

subsection \<open>Lemmas\<close>

lemma validate_type_string [simp]: "env_flags_validate_type v 0"
  by (simp add: env_flags_validate_type_def)

text \<open>A variable without restrictions is set.\<close>

lemma env_set_free:
  assumes "env_usable e (Suc n) name" "env_flags_of e name = 0" "value \<noteq> ''''"
  shows "env_set name (Some value) e = Some (0, env_put name value e)"
  using assms
  by (auto simp: env_set_def env_do_env_set_def env_usable_def str_ok_def hsearch_enter_def overwrite_entry_def create_entry_def env_flags_of_def env_put_def
      env_flags_validate_def split: option.splits)

text \<open>A write-once variable is set when it has no value, and keeps its value otherwise.\<close>

lemma env_set_once:
  assumes "env_usable e (Suc n) name" "env_flags_of e name = env_flags_once" "value \<noteq> ''''"
  shows "env_set name (Some value) e =
    (if en_vars e name = None then Some (0, env_put name value e) else Some (1, e\<lparr>en_id := en_id e + 1\<rparr>))"
proof -
  have "ENV_FLAGS_VARTYPE_BIN_MASK AND env_flags_once = 0" "env_flags_once AND ENV_FLAGS_VARACCESS_PREVENT_CREATE = 0"
    "env_flags_once AND ENV_FLAGS_VARACCESS_PREVENT_OVERWR \<noteq> 0"
    by (simp_all add: env_flags_once_def ENV_FLAGS_VARTYPE_BIN_MASK_def ENV_FLAGS_VARACCESS_PREVENT_CREATE_def
        ENV_FLAGS_VARACCESS_PREVENT_OVERWR_def ENV_FLAGS_VARACCESS_PREVENT_DELETE_def)
  then show ?thesis using assms
    by (auto simp: env_set_def env_do_env_set_def env_usable_def str_ok_def hsearch_enter_def overwrite_entry_def create_entry_def env_flags_of_def env_put_def
        env_flags_validate_def split: option.splits)
qed

lemma env_put_usable: "env_usable e (Suc n) name' \<Longrightarrow> env_usable (env_put name value e) n name'"
  by (auto simp: env_usable_def env_put_def)

lemma env_put_flags [simp]: "env_flags_of (env_put name value e) name' = env_flags_of e name'"
  by (auto simp: env_flags_of_def env_put_def split: option.splits)

lemma env_put_get [simp]:
  "en_ready e \<Longrightarrow> env_get name' (env_put name value e) = (if name' = name then Some value else env_get name' e)"
  "en_ready (env_put name value e) = en_ready e"
  by (simp_all add: env_get_def env_put_def)

end
