(* ===== verification/Board.thy ===== *)
theory Board
  imports Qsort Env "HOL-Library.Sublist"
begin

text \<open>
  The memory set-up of a Snapdragon board: the RAM banks from shared memory
  (\<open>board/particle/tachyon/qcom_dram.c\<close>, \<open>board_early_init_f\<close> of \<open>tachyon.c\<close>) or from the
  device tree, their order, the memory map and the carve-out of reserved memory, and the variables \<open>configure_env\<close> sets
  (\<open>arch/arm/mach-snapdragon/board.c\<close>). What the code reads from the device tree and from shared
  memory is an argument: a property or table, or \<^const>\<open>None\<close> where there is none.
\<close>

subsection \<open>Memory banks\<close>

definition CONFIG_NR_DRAM_BANKS :: nat where [simp]: "CONFIG_NR_DRAM_BANKS = 24"

record qcom_mem_bank =
  bk_start :: u64
  bk_size :: u64

definition ddr_bank_cmp :: "qcom_mem_bank \<Rightarrow> qcom_mem_bank \<Rightarrow> int" where
  "ddr_bank_cmp res1 res2 =
     (if bk_size res1 = 0 then 1
      else if bk_size res2 = 0 then - 1
      else to_int (uint (drop_bit 24 (bk_start res1) - drop_bit 24 (bk_start res2))))"

definition qcom_sort_memory_banks :: "qcom_mem_bank list \<Rightarrow> nat \<Rightarrow> qcom_mem_bank list" where
  "qcom_sort_memory_banks banks sz = qsort banks sz ddr_bank_cmp"

text \<open>The state the functions change: \<open>prevbl_ddr_banks\<close>, \<open>gd->ram_base\<close> and \<open>gd->ram_size\<close>.\<close>

record dram_state =
  prevbl_ddr_banks :: "qcom_mem_bank list"
  ram_base :: u64
  ram_size :: u64

definition dram_state_initial :: dram_state where
  "dram_state_initial = \<lparr>prevbl_ddr_banks = replicate CONFIG_NR_DRAM_BANKS \<lparr>bk_start = 0, bk_size = 0\<rparr>, ram_base = 0, ram_size = 0\<rparr>"

subsection \<open>Banks from shared memory\<close>

definition RAM_NUM_PART_ENTRIES :: nat where [simp]: "RAM_NUM_PART_ENTRIES = 32"
definition RAM_PART_NAME_LENGTH :: nat where [simp]: "RAM_PART_NAME_LENGTH = 16"
definition CATEGORY_SDRAM :: u32 where [simp]: "CATEGORY_SDRAM = 0x0E"
definition TYPE_SYSMEM :: u32 where [simp]: "TYPE_SYSMEM = 0x01"

record smem_ram_ptn =
  pt_name :: buf
  pt_start :: u64
  pt_size :: u64
  pt_attr :: u32
  pt_category :: u32
  pt_domain :: u32
  pt_type :: u32
  pt_num_partitions :: u32

text \<open>The result of looking for the shared memory device, and the partitions of the table found there.\<close>

type_synonym smem = "int \<times> smem_ram_ptn list option"

fun smem_scan :: "nat \<Rightarrow> smem_ram_ptn list \<Rightarrow> qcom_mem_bank list \<Rightarrow> nat \<Rightarrow> qcom_mem_bank list \<times> nat" where
  "smem_scan nbanks [] banks j = (banks, j)"
| "smem_scan nbanks (p # ps) banks j =
     (if \<not> (j < CONFIG_NR_DRAM_BANKS \<and> j < nbanks) then (banks, j)
      else if pt_category p \<noteq> CATEGORY_SDRAM \<or> pt_type p \<noteq> TYPE_SYSMEM then smem_scan nbanks ps banks j
      else if pt_size p = 0 \<and> pt_start p = 0 then (banks, j)
      else smem_scan nbanks ps (banks[j := \<lparr>bk_start = pt_start p, bk_size = pt_size p\<rparr>]) (j + 1))"

definition qcom_parse_memory_smem :: "smem \<Rightarrow> qcom_mem_bank list option \<Rightarrow> nat \<Rightarrow> int \<times> qcom_mem_bank list option" where
  "qcom_parse_memory_smem sm banks nbanks =
     (case banks of
        None \<Rightarrow> (- EINVAL, None)
      | Some bs \<Rightarrow>
          if fst sm \<noteq> 0 then (fst sm, banks)
          else
            (case snd sm of
               None \<Rightarrow> (- ENODEV, banks)
             | Some parts \<Rightarrow>
                 (case smem_scan nbanks (take RAM_NUM_PART_ENTRIES parts) bs 0 of
                    (bs', j) \<Rightarrow> (int j, Some (qcom_sort_memory_banks bs' j)))))"

fun smem_find :: "smem_ram_ptn list \<Rightarrow> buf \<Rightarrow> smem_ram_ptn option" where
  "smem_find [] name = None"
| "smem_find (p # ps) name = (if strneq (pt_name p) name RAM_PART_NAME_LENGTH then Some p else smem_find ps name)"

definition qcom_find_smem_region :: "smem \<Rightarrow> buf option \<Rightarrow> qcom_mem_bank option \<Rightarrow> int \<times> qcom_mem_bank option" where
  "qcom_find_smem_region sm name bank =
     (case (name, bank) of
        (Some nm, Some b) \<Rightarrow>
          if fst sm \<noteq> 0 then (fst sm, bank)
          else
            (case snd sm of
               None \<Rightarrow> (- ENODEV, bank)
             | Some parts \<Rightarrow>
                 (case smem_find (take RAM_NUM_PART_ENTRIES parts) nm of
                    None \<Rightarrow> (- ENOENT, bank)
                  | Some p \<Rightarrow> (0, Some \<lparr>bk_start = pt_start p, bk_size = pt_size p\<rparr>)))
      | _ \<Rightarrow> (- EINVAL, bank))"

definition board_early_init_f :: "smem \<Rightarrow> dram_state \<Rightarrow> int \<times> dram_state" where
  "board_early_init_f sm st =
     (case qcom_parse_memory_smem sm (Some (replicate CONFIG_NR_DRAM_BANKS \<lparr>bk_start = 0, bk_size = 0\<rparr>)) CONFIG_NR_DRAM_BANKS of
        (num, Some banks) \<Rightarrow>
          if num > 0 then
            (let n = nat num;
                 ram_end = foldl (\<lambda>e b. max e (bk_start b + bk_size b)) 0 (take n banks);
                 base = bk_start (banks ! 0)
             in (0, st\<lparr>prevbl_ddr_banks := take n banks @ replicate (CONFIG_NR_DRAM_BANKS - n) \<lparr>bk_start = 0, bk_size = 0\<rparr>,
                       ram_base := base, ram_size := ram_end - base\<rparr>))
          else (0, st)
      | (num, None) \<Rightarrow> (0, st))"

subsection \<open>Banks from the device tree\<close>

definition get_unaligned_be64 :: "buf \<Rightarrow> nat \<Rightarrow> u64" where
  "get_unaligned_be64 p off = of_nat (le_nat (rev (chunk off 8 p)))"

text \<open>The loop over \<open>k\<close> pairs of numbers, \<open>i\<close> the number of the first.\<close>

fun parse_banks :: "buf \<Rightarrow> nat \<Rightarrow> nat \<Rightarrow> nat \<Rightarrow> qcom_mem_bank list \<Rightarrow> u64 \<Rightarrow> qcom_mem_bank list \<times> u64" where
  "parse_banks memory 0 i j banks ram_end = (banks, ram_end)"
| "parse_banks memory (Suc k) i j banks ram_end =
     (let b = \<lparr>bk_start = get_unaligned_be64 memory (8 * i), bk_size = get_unaligned_be64 memory (8 * (i + 1))\<rparr>;
          banks' = banks[j := b]
      in if bk_size b = 0 then parse_banks memory k (i + 2) j banks' ram_end
         else parse_banks memory k (i + 2) (j + 1) banks' (max ram_end (bk_start b + bk_size b)))"

text \<open>The argument is the \<open>reg\<close> property of the memory node, if there is a node and the property.\<close>

definition qcom_parse_memory :: "buf option option \<Rightarrow> dram_state \<Rightarrow> dram_state" where
  "qcom_parse_memory node st =
     (case node of
        None \<Rightarrow> st
      | Some None \<Rightarrow> st
      | Some (Some memory) \<Rightarrow>
          (let n = min (length memory div 16) CONFIG_NR_DRAM_BANKS in
           case parse_banks memory n 0 0 (prevbl_ddr_banks st) 0 of (banks, ram_end) \<Rightarrow>
             (let sorted = qcom_sort_memory_banks banks n; base = bk_start (sorted ! 0)
              in st\<lparr>prevbl_ddr_banks := sorted, ram_base := base, ram_size := ram_end - base\<rparr>)))"

text \<open>The banks of \<open>gd->bd->bi_dram\<close>.\<close>

definition qcom_configure_bi_dram :: "dram_state \<Rightarrow> qcom_mem_bank list" where
  "qcom_configure_bi_dram st = map (\<lambda>i. prevbl_ddr_banks st ! i) [0..<CONFIG_NR_DRAM_BANKS]"

subsection \<open>The memory map\<close>

record mm_region =
  mm_virt :: u64
  mm_phys :: u64
  mm_size :: u64
  mm_attrs :: u64

definition mm_region_zero :: mm_region where
  "mm_region_zero = \<lparr>mm_virt = 0, mm_phys = 0, mm_size = 0, mm_attrs = 0\<rparr>"

definition PTE_TYPE_FAULT :: u64 where [simp]: "PTE_TYPE_FAULT = 0"
definition PTE_TYPE_VALID :: u64 where [simp]: "PTE_TYPE_VALID = 1"
definition PTE_BLOCK_MEMTYPE :: "u64 \<Rightarrow> u64" where [simp]: "PTE_BLOCK_MEMTYPE x = push_bit 2 x"
definition MT_DEVICE_NGNRNE :: u64 where [simp]: "MT_DEVICE_NGNRNE = 0"
definition MT_NORMAL_NC :: u64 where [simp]: "MT_NORMAL_NC = 3"
definition MT_NORMAL :: u64 where [simp]: "MT_NORMAL = 4"
definition PTE_BLOCK_NON_SHARE :: u64 where [simp]: "PTE_BLOCK_NON_SHARE = 0"
definition PTE_BLOCK_INNER_SHARE :: u64 where [simp]: "PTE_BLOCK_INNER_SHARE = 0x300"
definition PTE_BLOCK_PXN :: u64 where [simp]: "PTE_BLOCK_PXN = push_bit 53 1"
definition PTE_BLOCK_UXN :: u64 where [simp]: "PTE_BLOCK_UXN = push_bit 54 1"

text \<open>The loop with \<open>i = j + 1\<close>: the banks up to the first empty one.\<close>

fun map_banks :: "qcom_mem_bank list \<Rightarrow> nat \<Rightarrow> mm_region list \<Rightarrow> nat \<times> mm_region list" where
  "map_banks [] i mm = (i, mm)"
| "map_banks (b # bs) i mm =
     (if i < length mm - 1 \<and> bk_size b \<noteq> 0
      then map_banks bs (i + 1) (mm[i := \<lparr>mm_virt = bk_start b, mm_phys = bk_start b, mm_size = bk_size b,
             mm_attrs = PTE_BLOCK_MEMTYPE MT_NORMAL OR PTE_BLOCK_INNER_SHARE\<rparr>])
      else (i, mm))"

definition build_mem_map :: "qcom_mem_bank list \<Rightarrow> mm_region list \<Rightarrow> mm_region list" where
  "build_mem_map bi_dram mm =
     (let first = \<lparr>mm_virt = 0x1000, mm_phys = 0x1000, mm_size = bk_start (bi_dram ! 0) - 0x1000,
            mm_attrs = PTE_BLOCK_MEMTYPE MT_DEVICE_NGNRNE OR PTE_BLOCK_NON_SHARE OR PTE_BLOCK_PXN OR PTE_BLOCK_UXN\<rparr>
      in case map_banks bi_dram 1 (mm[0 := first]) of
           (i, mm') \<Rightarrow> mm'[i := (mm' ! i)\<lparr>mm_phys := - 1, mm_size := 0\<rparr>])"

subsection \<open>Reserved memory\<close>

record fdt_resource =
  res_start :: u64
  res_end :: u64

definition fdt_cmp_res :: "fdt_resource \<Rightarrow> fdt_resource \<Rightarrow> int" where
  "fdt_cmp_res res1 res2 =
     (if res_start res1 < res_start res2 then - 1 else if res_start res1 > res_start res2 then 1 else 0)"

definition N_RESERVED_REGIONS :: nat where [simp]: "N_RESERVED_REGIONS = 64"
definition SZ_2M :: u64 where [simp]: "SZ_2M = 0x200000"

text \<open>A node below \<open>/reserved-memory\<close>: whether it has \<open>no-map\<close>, and the four cells of its \<open>reg\<close> property.\<close>

record rmem_node =
  no_map :: bool
  rm_reg :: "(u32 \<times> u32 \<times> u32 \<times> u32) option"

fun collect_reserved :: "bool \<Rightarrow> u64 \<Rightarrow> rmem_node list \<Rightarrow> fdt_resource list \<Rightarrow> nat \<Rightarrow> fdt_resource list \<times> nat" where
  "collect_reserved noncacheable dram [] res i = (res, i)"
| "collect_reserved noncacheable dram (rmem # rmems) res i =
     (if \<not> no_map rmem then collect_reserved noncacheable dram rmems res i
      else if i = N_RESERVED_REGIONS then (res, i)
      else
        (case rm_reg rmem of
           None \<Rightarrow> collect_reserved noncacheable dram rmems res i
         | Some (c0, c1, c2, c3) \<Rightarrow>
             (let r = \<lparr>res_start = ucast c1, res_end = ucast c1 + ucast c3\<rparr> in
              collect_reserved noncacheable dram rmems (res[i := r])
                (if \<not> noncacheable \<or> res_start r \<ge> dram then i + 1 else i))))"

text \<open>The calls of \<open>mmu_change_region_attr\<close>, with the regions not yet looked at.\<close>

fun carve_ranges :: "fdt_resource list \<Rightarrow> u64 \<Rightarrow> u64 \<Rightarrow> (u64 \<times> u64) list" where
  "carve_ranges [] start sz = [(start, sz)]"
| "carve_ranges (r # rs) start sz =
     (if start + sz < res_start r - SZ_2M
      then (start, sz) #
        (let start' = align_down (res_start r) SZ_2M in carve_ranges rs start' (align_up (res_end r - start') SZ_2M))
      else carve_ranges rs start (align_up (res_end r - start) SZ_2M))"

definition carve_sorted :: "fdt_resource list \<Rightarrow> (u64 \<times> u64) list" where
  "carve_sorted rs =
     (case rs of
        [] \<Rightarrow> []
      | r # rs' \<Rightarrow>
          (let start = align_down (res_start r) SZ_2M in carve_ranges rs' start (align_up (res_end r - start) SZ_2M)))"

text \<open>The ranges and attributes set, for the nodes below \<open>/reserved-memory\<close> if there is such a node.\<close>

definition carve_out_reserved_memory ::
  "rmem_node list option \<Rightarrow> u64 \<Rightarrow> fdt_resource list \<Rightarrow> bool \<Rightarrow> (u64 \<times> u64 \<times> u64) list" where
  "carve_out_reserved_memory parent dram res noncacheable =
     (case parent of
        None \<Rightarrow> []
      | Some rmems \<Rightarrow>
          (case collect_reserved noncacheable dram rmems res 0 of (res', n) \<Rightarrow>
             map (\<lambda>(start, sz). (start, sz,
               if noncacheable then PTE_TYPE_VALID OR PTE_BLOCK_MEMTYPE MT_NORMAL_NC OR PTE_BLOCK_PXN OR PTE_BLOCK_UXN
               else PTE_TYPE_FAULT))
             (carve_sorted (take n (qsort res' n fdt_cmp_res)))))"

subsection \<open>Environment variables\<close>

fun strstr :: "string \<Rightarrow> string \<Rightarrow> string option" where
  "strstr [] key = (if key = [] then Some [] else None)"
| "strstr (c # cs) key = (if take (length key) (c # cs) = key then Some (c # cs) else strstr cs key)"

text \<open>The result and the new contents of \<open>out\<close>; \<^const>\<open>None\<close> is a store outside of \<open>out\<close>.\<close>

definition get_cmdline_option :: "string \<Rightarrow> string \<Rightarrow> string \<Rightarrow> nat \<Rightarrow> (int \<times> string) option" where
  "get_cmdline_option cmdline key out out_len =
     (case strstr cmdline key of
        None \<Rightarrow> Some (- ENOENT, out)
      | Some p0 \<Rightarrow>
          (let p = drop (length key) p0 in
           case strstr p '' '' of
             None \<Rightarrow> Some (- ENOENT, out)
           | Some p_end \<Rightarrow>
               (let len0 = length p - length p_end; len = (if len0 > out_len then out_len else len0)
                in if len < length out then Some (0, blit 0 (take len p @ [CHR 0x00]) out) else None)))"

text \<open>\<open>serial\<close> is the contents of the local array; a string without a NUL in it is read beyond its end. The result of \<open>env_set\<close> is dropped.\<close>

definition qcom_set_serialno :: "string option \<Rightarrow> string \<Rightarrow> env \<Rightarrow> env option" where
  "qcom_set_serialno cmdline serial e =
     (case cmdline of
        None \<Rightarrow> Some e
      | Some cl \<Rightarrow>
          (case get_cmdline_option cl ''androidboot.serialno='' serial (length serial) of
             None \<Rightarrow> None
           | Some (_, s) \<Rightarrow>
               if CHR 0x00 \<notin> set s then None
               else if s ! 0 \<noteq> CHR 0x00
               then map_option snd (env_set ''serial#'' (Some (takeWhile (\<lambda>c. c \<noteq> CHR 0x00) s)) e)
               else Some e))"

text \<open>\<open>strsep\<close> of one separator: the token and the rest of the string, if there is a separator.\<close>

definition strsep :: "string \<Rightarrow> char \<Rightarrow> string \<times> string option" where
  "strsep s c = (takeWhile (\<lambda>x. x \<noteq> c) s, if c \<in> set s then Some (tl (dropWhile (\<lambda>x. x \<noteq> c) s)) else None)"

definition str_or_null :: "string option \<Rightarrow> string" where
  "str_or_null s = (case s of None \<Rightarrow> ''<NULL>'' | Some v \<Rightarrow> v)"

text \<open>The board part of the first compatible string; \<^const>\<open>None\<close> is a store through a bad pointer.\<close>

definition board_name :: "string \<Rightarrow> string option option" where
  "board_name buffer =
     (if take 4 buffer = ''qcom'' then Some (snd (strsep buffer (CHR ''-'')))
      else
        (case strsep buffer (CHR '','') of
           (vendor, tmp) \<Rightarrow>
             if take 11 vendor = ''thundercomm'' then Some tmp
             else (case tmp of None \<Rightarrow> None | Some t \<Rightarrow> Some (Some (vendor @ ''-'' @ t)))))"

text \<open>
  The strings of the property are given; the path is built from what \<open>env_get\<close> returns. Before the import of the
  environment both calls of \<open>env_get\<close> return the same buffer, but no variable is set then.
\<close>

definition configure_env :: "string list \<Rightarrow> string option \<Rightarrow> string \<Rightarrow> env \<Rightarrow> env option" where
  "configure_env compatible cmdline serial e =
     (if length compatible < 2 then Some e
      else
        Option.bind (map_option snd (env_set ''soc'' (snd (strsep (take 30 (last compatible)) (CHR '',''))) e)) (\<lambda>e.
        Option.bind (board_name (take 30 (hd compatible))) (\<lambda>tmp.
        Option.bind (map_option snd (env_set ''board'' tmp e)) (\<lambda>e.
        let dt_path = take 63 (''qcom/'' @ str_or_null (env_get ''soc'' e) @ ''-'' @ str_or_null (env_get ''board'' e) @ ''.dtb'') in
        Option.bind (map_option snd (env_set ''fdtfile'' (Some dt_path) e)) (\<lambda>e.
        qcom_set_serialno cmdline serial e)))))"

subsection \<open>Specification\<close>

text \<open>The system memory of the partition table: up to the first entry without start and size.\<close>

definition bank_of :: "smem_ram_ptn \<Rightarrow> qcom_mem_bank" where
  "bank_of p = \<lparr>bk_start = pt_start p, bk_size = pt_size p\<rparr>"

definition smem_banks :: "smem_ram_ptn list \<Rightarrow> qcom_mem_bank list" where
  "smem_banks parts = map bank_of (takeWhile (\<lambda>p. pt_size p \<noteq> 0 \<or> pt_start p \<noteq> 0)
     (filter (\<lambda>p. pt_category p = CATEGORY_SDRAM \<and> pt_type p = TYPE_SYSMEM) parts))"

text \<open>Banks that are not empty, at addresses for which the comparison does not overflow.\<close>

definition bank_ok :: "qcom_mem_bank \<Rightarrow> bool" where
  "bank_ok b = (0 < bk_size b \<and> unat (bk_start b) + unat (bk_size b) \<le> 2 ^ 54)"

definition bank_le :: "qcom_mem_bank \<Rightarrow> qcom_mem_bank \<Rightarrow> bool" where
  "bank_le a b = (bk_size b = 0 \<or> bk_size a \<noteq> 0 \<and> unat (bk_start a) div 2 ^ 24 \<le> unat (bk_start b) div 2 ^ 24)"

definition bank_region :: "qcom_mem_bank \<Rightarrow> mm_region" where
  "bank_region b = \<lparr>mm_virt = bk_start b, mm_phys = bk_start b, mm_size = bk_size b,
     mm_attrs = PTE_BLOCK_MEMTYPE MT_NORMAL OR PTE_BLOCK_INNER_SHARE\<rparr>"

definition smem_ex_part :: "u64 \<Rightarrow> u64 \<Rightarrow> smem_ram_ptn" where
  "smem_ex_part a n = \<lparr>pt_name = [], pt_start = a, pt_size = n, pt_attr = 0, pt_category = 14, pt_domain = 0, pt_type = 1,
     pt_num_partitions = 0\<rparr>"

definition res_of :: "u32 \<times> u32 \<times> u32 \<times> u32 \<Rightarrow> fdt_resource" where
  "res_of reg = (case reg of (c0, c1, c2, c3) \<Rightarrow> \<lparr>res_start = ucast c1, res_end = ucast c1 + ucast c3\<rparr>)"

text \<open>The regions of the nodes to carve out.\<close>

fun rmem_wanted :: "bool \<Rightarrow> u64 \<Rightarrow> rmem_node list \<Rightarrow> fdt_resource list" where
  "rmem_wanted nc dram [] = []"
| "rmem_wanted nc dram (x # xs) =
     (case rm_reg x of
        None \<Rightarrow> rmem_wanted nc dram xs
      | Some reg \<Rightarrow>
          if no_map x \<and> (nc \<longrightarrow> dram \<le> res_start (res_of reg)) then res_of reg # rmem_wanted nc dram xs
          else rmem_wanted nc dram xs)"

definition in_range :: "u64 \<times> u64 \<Rightarrow> nat \<Rightarrow> bool" where
  "in_range p a = (unat (fst p) \<le> a \<and> a < unat (fst p) + unat (snd p))"

definition res_before :: "fdt_resource \<Rightarrow> fdt_resource \<Rightarrow> bool" where
  "res_before a b = (unat (res_start a) \<le> unat (res_start b) \<and> unat (res_end a) \<le> unat (res_end b))"

definition rmem_ex :: "u32 \<Rightarrow> u32 \<Rightarrow> rmem_node" where
  "rmem_ex a n = \<lparr>no_map = True, rm_reg = Some (0, a, 0, n)\<rparr>"

text \<open>An imported environment without variables, in which \<open>serial#\<close> is write-once.\<close>

definition env_ex :: env where
  "env_ex = \<lparr>en_ready = True, en_id = 1, en_vars = (\<lambda>_. None), en_filled = 0, en_size = 100, en_heap = heap_ok,
     en_new_flags = (\<lambda>name. if name = ''serial#'' then env_flags_once else 0), en_callback = (\<lambda>_ _ _. 0),
     en_default = (\<lambda>_. None), en_early = (\<lambda>_. None)\<rparr>"

subsection \<open>Lemmas\<close>

lemma smem_scan_banks:
  "n = min CONFIG_NR_DRAM_BANKS nbanks \<Longrightarrow> n \<le> length banks \<Longrightarrow> j \<le> n \<Longrightarrow>
   smem_scan nbanks parts banks j =
     (blit j (take (n - j) (smem_banks parts)) banks, j + length (take (n - j) (smem_banks parts)))"
proof (induction parts arbitrary: banks j)
  case Nil
  then show ?case by (simp add: smem_banks_def)
next
  case (Cons p ps)
  show ?case
  proof (cases "j < n \<and> pt_category p = CATEGORY_SDRAM \<and> pt_type p = TYPE_SYSMEM \<and> (pt_size p \<noteq> 0 \<or> pt_start p \<noteq> 0)")
    case True
    let ?b = "bank_of p" and ?bs = "smem_banks ps"
    have m: "n - j = Suc (n - Suc j)" and j: "j < length banks" using True Cons.prems by auto
    have e: "blit (Suc j) ys (banks[j := ?b]) = blit j (?b # ys) banks" for ys
      using blit_adjacent [of j "[?b]" banks ys] j by (simp add: blit_def upd_conv_take_nth_drop)
    have s: "smem_scan nbanks (p # ps) banks j = smem_scan nbanks ps (banks[j := ?b]) (j + 1)"
      using True Cons.prems by (auto simp: bank_of_def)
    have t: "smem_banks (p # ps) = ?b # ?bs" using True by (auto simp: smem_banks_def)
    show ?thesis unfolding s t m using Cons.IH [of "banks[j := ?b]" "j + 1"] Cons.prems True e by simp
  next
    case False
    then show ?thesis using Cons by (auto simp: smem_banks_def)
  qed
qed

lemma to_int_small: "- 2147483648 \<le> x \<Longrightarrow> x < 2147483648 \<Longrightarrow> to_int x = x"
proof (cases "0 \<le> x")
  case False
  assume a: "- 2147483648 \<le> x"
  have "x mod 2 ^ 32 = (x + 2 ^ 32) mod 2 ^ 32" by simp
  also have "\<dots> = x + 2 ^ 32" using False a by (intro mod_pos_pos_trivial) auto
  finally show ?thesis using False a by (simp add: to_int_def)
qed (simp add: to_int_def)

lemma to_int_mod: "to_int (x mod 2 ^ 64) = to_int x"
  by (simp add: to_int_def mod_mod_cancel)

lemma ddr_bank_cmp_le:
  assumes "unat (bk_start a) \<le> 2 ^ 54" and "unat (bk_start b) \<le> 2 ^ 54" and "bk_size a \<noteq> 0" "bk_size b \<noteq> 0"
  shows "ddr_bank_cmp a b \<le> 0 \<longleftrightarrow> unat (bk_start a) div 2 ^ 24 \<le> unat (bk_start b) div 2 ^ 24"
proof -
  let ?x = "drop_bit 24 (bk_start a)" and ?y = "drop_bit 24 (bk_start b)"
  have x: "unat ?x \<le> 1073741824" "unat ?y \<le> 1073741824"
    using div_le_mono [OF assms(1), of "2 ^ 24"] div_le_mono [OF assms(2), of "2 ^ 24"] by (simp_all add: unat_drop_bit)
  have u: "uint ?x = int (unat ?x)" "uint ?y = int (unat ?y)" by simp_all
  have d: "- 2147483648 \<le> uint ?x - uint ?y" "uint ?x - uint ?y < 2147483648"
    using x unfolding u by linarith+
  have "uint (?x - ?y) = (uint ?x - uint ?y) mod 2 ^ 64" by (simp add: uint_word_ariths)
  then have "to_int (uint (?x - ?y)) = to_int (uint ?x - uint ?y)" by (simp only: to_int_mod)
  also have "\<dots> = uint ?x - uint ?y" using to_int_small [OF d] .
  finally have "ddr_bank_cmp a b = int (unat ?x) - int (unat ?y)" using assms(3,4) unfolding u by (simp add: ddr_bank_cmp_def)
  then show ?thesis unfolding unat_drop_bit [symmetric] by linarith
qed

lemma ddr_bank_cmp_decides:
  assumes "\<forall>b \<in> A. unat (bk_start b) \<le> 2 ^ 54"
  shows "decides bank_le ddr_bank_cmp A"
  unfolding decides_def
proof (intro conjI ballI impI)
  fix a b assume "a \<in> A" "b \<in> A"
  then have s: "unat (bk_start a) \<le> 2 ^ 54" "unat (bk_start b) \<le> 2 ^ 54" using assms by auto
  show "if ddr_bank_cmp a b \<le> 0 then bank_le a b else bank_le b a"
  proof (cases "bk_size a = 0 \<or> bk_size b = 0")
    case True
    then show ?thesis by (auto simp: ddr_bank_cmp_def bank_le_def)
  next
    case False
    then show ?thesis using ddr_bank_cmp_le [OF s] by (auto simp: bank_le_def)
  qed
next
  fix a b c assume "bank_le a b" "bank_le b c"
  then show "bank_le a c" by (auto simp: bank_le_def)
qed

lemma qcom_sort_memory_banks_sorted:
  assumes "\<forall>b \<in> set banks. unat (bk_start b) \<le> 2 ^ 54" and "n \<le> length banks"
  shows "mset (take n (qcom_sort_memory_banks banks n)) = mset (take n banks)"
    and "length (qcom_sort_memory_banks banks n) = length banks"
    and "sorted_wrt bank_le (take n (qcom_sort_memory_banks banks n))"
  using keeps_take_mset [OF qsort_keeps [OF assms(2), of ddr_bank_cmp]] keeps_length [OF qsort_keeps [OF assms(2), of ddr_bank_cmp]]
    qsort_ordered [OF ddr_bank_cmp_decides [OF assms(1)] assms(2)] assms(2)
  by (simp_all add: qcom_sort_memory_banks_def sorted_wrt_iff_nth_less)

lemma foldl_max_ge: "e \<le> foldl (\<lambda>e b. max e (f b)) e bs \<and> (\<forall>b \<in> set bs. f b \<le> foldl (\<lambda>e b. max e (f b)) (e :: u64) bs)"
proof (induction bs arbitrary: e)
  case (Cons b bs)
  show ?case using Cons [of "max e (f b)"] by (auto intro: order_trans)
qed simp

lemma foldl_max_in: "bs \<noteq> [] \<Longrightarrow> foldl (\<lambda>e b. max e (f b)) (0 :: u64) bs \<in> f ` set bs"
proof (induction bs rule: rev_induct)
  case (snoc b bs)
  then show ?case by (cases "bs = []") (auto simp: max_def)
qed simp

text \<open>What the early initialisation leaves for a table of system memory banks.\<close>

lemma board_early_init_f_banks:
  assumes "smem_banks (take 32 parts) = bs" and "bs \<noteq> []" and "length bs \<le> 24" and "\<forall>b \<in> set bs. bank_ok b"
  obtains cs where "mset cs = mset bs" and "sorted_wrt bank_le cs"
    and "board_early_init_f (0, Some parts) st = (0, st\<lparr>prevbl_ddr_banks := cs @ replicate (24 - length bs) \<lparr>bk_start = 0, bk_size = 0\<rparr>,
      ram_base := bk_start (hd cs), ram_size := foldl (\<lambda>e b. max e (bk_start b + bk_size b)) 0 cs - bk_start (hd cs)\<rparr>)"
proof -
  let ?z = "replicate 24 \<lparr>bk_start = 0, bk_size = 0\<rparr> :: qcom_mem_bank list" and ?n = "length bs"
  let ?b = "blit 0 bs ?z" and ?s = "qcom_sort_memory_banks (blit 0 bs ?z) (length bs)"
  have sc: "smem_scan 24 (take 32 parts) ?z 0 = (?b, ?n)"
    using smem_scan_banks [of 24 24 ?z 0 "take 32 parts"] assms(1,3) by simp
  have b: "?b = bs @ replicate (24 - ?n) \<lparr>bk_start = 0, bk_size = 0\<rparr>" by (simp add: blit_def)
  have "\<forall>b \<in> set ?b. unat (bk_start b) \<le> 2 ^ 54" using assms(4) unfolding b by (auto simp: bank_ok_def)
  note q = qcom_sort_memory_banks_sorted [OF this, of ?n]
  have l: "?n \<le> length ?b" using assms(3) by (simp add: b)
  have ne: "0 < ?n" using assms(2) by simp
  have h: "?s ! 0 = hd (take ?n ?s)" using q(2) [OF l] l ne by (subst hd_conv_nth) auto
  show ?thesis
  proof (rule that [of "take ?n ?s"])
    show "mset (take ?n ?s) = mset bs" using q(1) [OF l] unfolding b by simp
    show "sorted_wrt bank_le (take ?n ?s)" using q(3) [OF l] .
    show "board_early_init_f (0, Some parts) st = (0, st\<lparr>
        prevbl_ddr_banks := take ?n ?s @ replicate (24 - length bs) \<lparr>bk_start = 0, bk_size = 0\<rparr>,
        ram_base := bk_start (hd (take ?n ?s)),
        ram_size := foldl (\<lambda>e b. max e (bk_start b + bk_size b)) 0 (take ?n ?s) - bk_start (hd (take ?n ?s))\<rparr>)"
      using sc ne h by (simp add: board_early_init_f_def qcom_parse_memory_smem_def Let_def del: hd_take)
  qed
qed

lemma board_ram_range:
  assumes "cs \<noteq> []" and "sorted_wrt bank_le cs" and "\<forall>b \<in> set cs. bank_ok b" and "b \<in> set cs"
    and "base = bk_start (hd cs)" and "sz = foldl (\<lambda>e b. max e (bk_start b + bk_size b)) 0 cs - base"
  shows "unat base div 2 ^ 24 \<le> unat (bk_start b) div 2 ^ 24"
    and "unat (bk_start b) + unat (bk_size b) \<le> unat base + unat sz"
proof -
  let ?f = "\<lambda>b. bk_start b + bk_size b" and ?e = "foldl (\<lambda>e b. max e (bk_start b + bk_size b)) 0 cs"
  have ok: "unat (?f b) = unat (bk_start b) + unat (bk_size b)" if "b \<in> set cs" for b
    using assms(3) that by (subst unat_plus_if') (auto simp: bank_ok_def)
  have "hd cs \<in> set cs" using assms(1) by simp
  have le: "unat (bk_start b) + unat (bk_size b) \<le> unat ?e" if "b \<in> set cs" for b
    using foldl_max_ge [of 0 ?f cs] that unfolding ok [OF that, symmetric] by (simp add: word_le_nat_alt)
  have "unat base \<le> unat ?e" using le [OF \<open>hd cs \<in> set cs\<close>] assms(5) by simp
  then have "unat base + unat sz = unat ?e" using assms(6) by (simp add: unat_sub word_le_nat_alt)
  with le [OF assms(4)] show "unat (bk_start b) + unat (bk_size b) \<le> unat base + unat sz" by simp
  have "b = hd cs \<or> bank_le (hd cs) b" using assms(1,2,4) by (cases cs) auto
  then show "unat base div 2 ^ 24 \<le> unat (bk_start b) div 2 ^ 24"
    using assms(3-5) by (auto simp: bank_le_def bank_ok_def)
qed

text \<open>C28: for a table of system memory banks that are not empty, the early initialisation records all of them, \<open>gd->ram_base\<close> is
  not above the 16 MiB block of any bank, and not above any bank when the banks start at multiples of 16 MiB; all banks   below \<open>gd->ram_base + gd->ram_size\<close>.\<close>

theorem board_ram_covers:
  assumes "smem_banks (take 32 parts) = bs" and "bs \<noteq> []" and "length bs \<le> 24" and "\<forall>b \<in> set bs. bank_ok b"
  shows "\<exists>st'. board_early_init_f (0, Some parts) st = (0, st') \<and>
    mset (filter (\<lambda>b. bk_size b \<noteq> 0) (prevbl_ddr_banks st')) = mset bs \<and>
    (\<forall>b \<in> set bs. unat (ram_base st') div 2 ^ 24 \<le> unat (bk_start b) div 2 ^ 24 \<and>
       ((\<forall>b \<in> set bs. 2 ^ 24 dvd unat (bk_start b)) \<longrightarrow> ram_base st' \<le> bk_start b) \<and>
       unat (bk_start b) + unat (bk_size b) \<le> unat (ram_base st') + unat (ram_size st'))"
proof -
  obtain cs where cs: "mset cs = mset bs" "sorted_wrt bank_le cs"
    "board_early_init_f (0, Some parts) st = (0, st\<lparr>prevbl_ddr_banks := cs @ replicate (24 - length bs) \<lparr>bk_start = 0, bk_size = 0\<rparr>,
      ram_base := bk_start (hd cs), ram_size := foldl (\<lambda>e b. max e (bk_start b + bk_size b)) 0 cs - bk_start (hd cs)\<rparr>)"
    by (rule board_early_init_f_banks [OF assms])
  have s: "set cs = set bs" using cs(1) by (rule mset_eq_setD)
  have ne: "cs \<noteq> []" using cs(1) assms(2) by auto
  have ok: "\<forall>b \<in> set cs. bank_ok b" using assms(4) s by simp
  note r = board_ram_range [OF ne cs(2) ok _ refl refl]
  have f: "filter (\<lambda>b. bk_size b \<noteq> 0) (cs @ replicate (24 - length bs) \<lparr>bk_start = 0, bk_size = 0\<rparr>) = cs"
    using ok by (simp add: bank_ok_def word_gt_0)
  have "bk_start (hd cs) \<le> bk_start b" if "b \<in> set bs" "\<forall>b \<in> set bs. 2 ^ 24 dvd unat (bk_start b)" for b
  proof -
    have "hd cs \<in> set bs" using hd_in_set [OF ne] unfolding s .
    then have d: "2 ^ 24 dvd unat (bk_start (hd cs))" "2 ^ 24 dvd unat (bk_start b)" using that by simp_all
    have "unat (bk_start (hd cs)) div 2 ^ 24 * 2 ^ 24 \<le> unat (bk_start b) div 2 ^ 24 * 2 ^ 24"
      using mult_le_mono1 [OF r(1) [of b]] that(1) unfolding s by blast
    then show ?thesis unfolding dvd_div_mult_self [OF d(1)] dvd_div_mult_self [OF d(2)] word_le_nat_alt .
  qed
  with cs(1) r s f show ?thesis unfolding cs(3) by (simp del: filter_append mset_filter)
qed

lemma qsort_two: "qsort (a # b # zs) 2 cmp = (if cmp a b \<le> 0 then a # b # zs else b # a # zs)"
proof -
  have "first_gap 2 0 = 1" by (simp add: first_gap.simps)
  moreover have "sort_passes cmp 2 1 (a # b # zs) = sift cmp 1 (a # b # zs) 1"
    by (simp add: sort_passes.simps [of cmp 2 "Suc 0"] sort_pass_def upt_rec Let_def)
  moreover have "sift cmp 1 (a # b # zs) 1 = (if cmp a b \<le> 0 then a # b # zs else b # a # zs)"
    by (simp add: sift.simps [of cmp "Suc 0" _ "Suc 0"] sift.simps [of cmp "Suc 0" _ 0] Let_def)
  ultimately show ?thesis by (simp add: qsort_def)
qed

text \<open>C29: of two banks in the same 16 MiB, the one that comes first in the table becomes \<open>gd->ram_base\<close>, also when the
  other one starts below it.\<close>

theorem board_ram_base_too_high:
  assumes "smem_banks (take 32 parts) = [b1, b2]" and "bank_ok b1" "bank_ok b2"
    and "bk_start b2 < bk_start b1" and "unat (bk_start b1) div 2 ^ 24 = unat (bk_start b2) div 2 ^ 24"
  shows "ram_base (snd (board_early_init_f (0, Some parts) st)) = bk_start b1"
proof -
  let ?z = "replicate 24 \<lparr>bk_start = 0, bk_size = 0\<rparr> :: qcom_mem_bank list"
  have sc: "smem_scan 24 (take 32 parts) ?z 0 = (blit 0 [b1, b2] ?z, 2)"
    using smem_scan_banks [of 24 24 ?z 0 "take 32 parts"] assms(1) by simp
  have "ddr_bank_cmp b1 b2 \<le> 0" using ddr_bank_cmp_le [of b1 b2] assms(2,3,5) by (auto simp: bank_ok_def)
  then have "qcom_sort_memory_banks (blit 0 [b1, b2] ?z) 2 ! 0 = b1"
    by (simp add: qcom_sort_memory_banks_def blit_def qsort_two)
  then show ?thesis using sc
    by (simp add: board_early_init_f_def qcom_parse_memory_smem_def Let_def)
qed

lemma map_banks_regions:
  "\<forall>b \<in> set cs. bk_size b \<noteq> 0 \<Longrightarrow> \<forall>b \<in> set zs. bk_size b = 0 \<Longrightarrow> i + length cs < length mm \<Longrightarrow>
   map_banks (cs @ zs) i mm = (i + length cs, blit i (map bank_region cs) mm)"
proof (induction cs arbitrary: i mm)
  case Nil
  then show ?case by (cases zs) auto
next
  case (Cons c cs)
  have "blit (Suc i) (map bank_region cs) (mm[i := bank_region c]) = blit i (bank_region c # map bank_region cs) mm"
    using blit_adjacent [of i "[bank_region c]" mm "map bank_region cs"] Cons.prems(3)
    by (simp add: blit_def upd_conv_take_nth_drop)
  moreover have "map_banks ((c # cs) @ zs) i mm = map_banks (cs @ zs) (i + 1) (mm[i := bank_region c])"
  proof -
    have "i < length mm - 1" "bk_size c \<noteq> 0" using Cons.prems by auto
    then show ?thesis by (simp add: bank_region_def)
  qed
  ultimately show ?case using Cons by simp
qed

text \<open>C30: the memory map built from the recorded banks holds the device region below the first bank, then each bank
  once as normal memory, and then its end marker.\<close>

theorem board_mem_map:
  assumes "smem_banks (take 32 parts) = bs" and "bs \<noteq> []" and "length bs \<le> 24" and "\<forall>b \<in> set bs. bank_ok b"
  shows "\<exists>d cs t rest. build_mem_map (qcom_configure_bi_dram (snd (board_early_init_f (0, Some parts) st))) (replicate 26 mm_region_zero) =
      d # map bank_region cs @ t # rest \<and> mset cs = mset bs \<and> sorted_wrt bank_le cs \<and>
    mm_phys d = 0x1000 \<and> mm_phys d + mm_size d = bk_start (hd cs) \<and> mm_size t = 0"
proof -
  let ?zs = "replicate (24 - length bs) \<lparr>bk_start = 0, bk_size = 0\<rparr> :: qcom_mem_bank list"
  obtain cs where cs: "mset cs = mset bs" "sorted_wrt bank_le cs"
    "board_early_init_f (0, Some parts) st = (0, st\<lparr>prevbl_ddr_banks := cs @ ?zs,
      ram_base := bk_start (hd cs), ram_size := foldl (\<lambda>e b. max e (bk_start b + bk_size b)) 0 cs - bk_start (hd cs)\<rparr>)"
    by (rule board_early_init_f_banks [OF assms])
  have l: "length cs = length bs" using cs(1) by (rule mset_eq_length)
  have ne: "cs \<noteq> []" using cs(1) assms(2) by auto
  have nz: "\<forall>b \<in> set cs. bk_size b \<noteq> 0" using assms(4) mset_eq_setD [OF cs(1)] by (auto simp: bank_ok_def)
  let ?d = "\<lparr>mm_virt = 0x1000, mm_phys = 0x1000, mm_size = bk_start (hd cs) - 0x1000,
            mm_attrs = PTE_BLOCK_MEMTYPE MT_DEVICE_NGNRNE OR PTE_BLOCK_NON_SHARE OR PTE_BLOCK_PXN OR PTE_BLOCK_UXN\<rparr>"
  let ?mm = "(replicate 26 mm_region_zero)[0 := ?d]"
  let ?t = "(blit 1 (map bank_region cs) ?mm ! (1 + length cs))\<lparr>mm_phys := - 1, mm_size := 0\<rparr>"
  have bi: "qcom_configure_bi_dram (snd (board_early_init_f (0, Some parts) st)) = cs @ ?zs"
    unfolding cs(3) qcom_configure_bi_dram_def using l assms(3) map_nth [of "cs @ ?zs"] by simp
  have mb: "map_banks (cs @ ?zs) 1 ?mm = (1 + length cs, blit 1 (map bank_region cs) ?mm)"
    using nz l assms(3) by (intro map_banks_regions) auto
  have "(cs @ ?zs) ! 0 = hd cs" using ne by (simp add: hd_conv_nth nth_append)
  then have m: "build_mem_map (cs @ ?zs) (replicate 26 mm_region_zero) = (blit 1 (map bank_region cs) ?mm)[1 + length cs := ?t]"
    using mb unfolding build_mem_map_def by (simp del: replicate.simps add: Let_def)
  have r: "?mm = ?d # replicate 25 mm_region_zero" by (simp add: numeral_eq_Suc)
  have x: "blit 1 (map bank_region cs) ?mm = (?d # map bank_region cs) @ replicate (25 - length cs) mm_region_zero"
    unfolding r by (simp add: blit_def)
  have "replicate (25 - length cs) mm_region_zero = mm_region_zero # replicate (24 - length cs) mm_region_zero"
    using l assms(3) by (metis Suc_diff_le add_Suc_right replicate_Suc eval_nat_numeral(3) numeral_eq_Suc pred_numeral_simps(3))
  with x have y: "blit 1 (map bank_region cs) ?mm = (?d # map bank_region cs) @ mm_region_zero # replicate (24 - length cs) mm_region_zero"
    by simp
  have "(blit 1 (map bank_region cs) ?mm)[1 + length cs := ?t] = (?d # map bank_region cs) @ ?t # replicate (24 - length cs) mm_region_zero"
    unfolding y by (simp add: list_update_append)
  then have "build_mem_map (qcom_configure_bi_dram (snd (board_early_init_f (0, Some parts) st))) (replicate 26 mm_region_zero) =
      ?d # map bank_region cs @ ?t # replicate (24 - length cs) mm_region_zero"
    unfolding bi m by simp
  moreover have "mm_phys ?d = 0x1000" "mm_phys ?d + mm_size ?d = bk_start (hd cs)" "mm_size ?t = 0" by simp_all
  ultimately show ?thesis using cs(1,2) by blast
qed

lemma smem_ex_banks:
  "smem_banks (take 32 [smem_ex_part 0x180000000 0x80000000, smem_ex_part 0x80000000 0x3a800000]) =
     [\<lparr>bk_start = 0x180000000, bk_size = 0x80000000\<rparr>, \<lparr>bk_start = 0x80000000, bk_size = 0x3a800000\<rparr>]"
  by (simp add: smem_banks_def smem_ex_part_def bank_of_def)

theorem board_ram_covers_witness:
  "\<exists>st'. board_early_init_f (0, Some [smem_ex_part 0x180000000 0x80000000, smem_ex_part 0x80000000 0x3a800000]) dram_state_initial =
      (0, st') \<and> ram_base st' \<le> 0x80000000 \<and> 0x200000000 \<le> unat (ram_base st') + unat (ram_size st')"
proof -
  have "2 ^ 24 dvd (0x180000000 :: nat)" "2 ^ 24 dvd (0x80000000 :: nat)"
    using dvdI [of "0x180000000 :: nat" "2 ^ 24" 384] dvdI [of "0x80000000 :: nat" "2 ^ 24" 128] by simp_all
  with board_ram_covers [OF smem_ex_banks, of dram_state_initial] show ?thesis by (auto simp: bank_ok_def)
qed

theorem board_ram_base_too_high_witness:
  "ram_base (snd (board_early_init_f (0, Some [smem_ex_part 0x80800000 0x800000, smem_ex_part 0x80000000 0x800000]) dram_state_initial)) =
    0x80800000"
  using board_ram_base_too_high [of "[smem_ex_part 0x80800000 0x800000, smem_ex_part 0x80000000 0x800000]"
    "\<lparr>bk_start = 0x80800000, bk_size = 0x800000\<rparr>" "\<lparr>bk_start = 0x80000000, bk_size = 0x800000\<rparr>" dram_state_initial]
  by (simp add: smem_banks_def smem_ex_part_def bank_of_def bank_ok_def)

theorem board_mem_map_witness:
  "\<exists>d cs t rest. build_mem_map (qcom_configure_bi_dram (snd (board_early_init_f
      (0, Some [smem_ex_part 0x180000000 0x80000000, smem_ex_part 0x80000000 0x3a800000]) dram_state_initial)))
      (replicate 26 mm_region_zero) = d # map bank_region cs @ t # rest \<and> length cs = 2"
proof -
  let ?bs = "[\<lparr>bk_start = 0x180000000, bk_size = 0x80000000\<rparr>, \<lparr>bk_start = 0x80000000, bk_size = 0x3a800000\<rparr>]"
  have "?bs \<noteq> []" "length ?bs \<le> 24" "\<forall>b \<in> set ?bs. bank_ok b" by (simp_all add: bank_ok_def)
  then obtain d cs t rest where m: "build_mem_map (qcom_configure_bi_dram (snd (board_early_init_f
      (0, Some [smem_ex_part 0x180000000 0x80000000, smem_ex_part 0x80000000 0x3a800000]) dram_state_initial)))
      (replicate 26 mm_region_zero) = d # map bank_region cs @ t # rest" and c: "mset cs = mset ?bs"
    using board_mem_map [OF smem_ex_banks, of dram_state_initial] by blast
  have "length cs = 2" using mset_eq_length [OF c] by simp
  with m show ?thesis by blast
qed

lemma res_of_bounds:
  "unat (res_start (res_of reg)) \<le> unat (res_end (res_of reg))" "unat (res_end (res_of reg)) \<le> 2 ^ 33"
proof -
  obtain c0 c1 c2 c3 where r: "reg = (c0, c1, c2, c3)" by (cases reg) auto
  have u: "unat (ucast c :: u64) = unat c" for c :: u32
    using unat_u32_less [of c] by (simp add: unsigned_ucast_eq take_bit_nat_eq_self)
  have "unat (ucast c1 + ucast c3 :: u64) = unat c1 + unat c3"
    using unat_u32_less [of c1] unat_u32_less [of c3] u by (subst unat_plus_if') simp
  then show "unat (res_start (res_of reg)) \<le> unat (res_end (res_of reg))" "unat (res_end (res_of reg)) \<le> 2 ^ 33"
    using unat_u32_less [of c1] unat_u32_less [of c3] u by (simp_all add: r res_of_def)
qed

lemma rmem_wanted_bounds:
  "r \<in> set (rmem_wanted nc dram xs) \<Longrightarrow> unat (res_start r) \<le> unat (res_end r) \<and> unat (res_end r) \<le> 2 ^ 33"
  using res_of_bounds by (induction xs) (auto split: option.splits if_splits)

lemma collect_reserved_wanted:
  "length res = 64 \<Longrightarrow> i + length (rmem_wanted nc dram xs) \<le> 64 \<Longrightarrow>
   \<exists>res'. collect_reserved nc dram xs res i = (res', i + length (rmem_wanted nc dram xs)) \<and> length res' = 64 \<and>
     take (i + length (rmem_wanted nc dram xs)) res' = take i res @ rmem_wanted nc dram xs"
proof (induction xs arbitrary: res i)
  case (Cons x xs)
  show ?case
  proof (cases "no_map x \<and> rm_reg x \<noteq> None \<and> i \<noteq> 64")
    case True
    then obtain reg where reg: "rm_reg x = Some reg" by blast
    let ?r = "res[i := res_of reg]" and ?w = "no_map x \<and> (nc \<longrightarrow> dram \<le> res_start (res_of reg))"
    let ?j = "if ?w then i + 1 else i"
    have s: "collect_reserved nc dram (x # xs) res i = collect_reserved nc dram xs ?r ?j"
      using True reg by (cases reg) (auto simp: res_of_def Let_def)
    have "take ?j ?r = take i res @ (if ?w then [res_of reg] else [])"
      using True Cons.prems by (auto simp: take_Suc_conv_app_nth)
    with Cons.IH [of ?r ?j] Cons.prems s reg show ?thesis by (auto split: if_splits)
  next
    case False
    have w: "i = 64 \<and> no_map x \<Longrightarrow> rmem_wanted nc dram (x # xs) = []" using Cons.prems(2) by simp
    show ?thesis
    proof (cases "i = 64 \<and> no_map x")
      case True
      with w [OF True] Cons.prems(1) show ?thesis by simp
    next
      case 2: False
      with False have "rmem_wanted nc dram (x # xs) = rmem_wanted nc dram xs"
        "collect_reserved nc dram (x # xs) res i = collect_reserved nc dram xs res i" by (auto split: option.splits)
      then show ?thesis using Cons by simp
    qed
  qed
qed simp

lemma carve_size:
  assumes "unat s \<le> unat e" and "unat e \<le> 2 ^ 33"
  shows "unat e \<le> unat s + unat (align_up (e - s) SZ_2M)" and "unat (align_up (e - s) SZ_2M) < unat e - unat s + 2 ^ 21"
proof -
  have m: "unat (e - s) = unat e - unat s" using assms(1) by (simp add: unat_sub word_le_nat_alt)
  have "(21 :: nat) < 64" "unat (e - s) + 2 ^ 21 \<le> 2 ^ 64" using m assms(2) by simp_all
  from align_up_pow [OF this] have u: "unat (align_up (e - s) SZ_2M) = (unat e - unat s + 2 ^ 21 - 1) div 2 ^ 21 * 2 ^ 21"
    using m by simp
  show "unat e \<le> unat s + unat (align_up (e - s) SZ_2M)" "unat (align_up (e - s) SZ_2M) < unat e - unat s + 2 ^ 21"
    unfolding u using div_up_bounds [of "2 ^ 21 :: nat" "unat e - unat s", OF zero_less_power [OF zero_less_numeral]] assms(1)
    by linarith+
qed

lemma align_down_SZ_2M: "unat (align_down x SZ_2M) \<le> unat x"
  using align_down_le [of x SZ_2M] by (simp only: word_le_nat_alt)

lemma carve_ranges_covers:
  assumes "unat start \<le> hi" "hi \<le> unat start + unat sz"
    and "\<forall>r \<in> set rs. unat (res_start r) \<le> unat (res_end r) \<and> unat (res_end r) \<le> 2 ^ 33 \<and> unat start \<le> unat (res_start r) \<and> hi \<le> unat (res_end r)"
    and "sorted_wrt res_before rs"
    and "unat start \<le> a \<and> a < hi \<or> (\<exists>r \<in> set rs. unat (res_start r) \<le> a \<and> a < unat (res_end r))"
  shows "\<exists>p \<in> set (carve_ranges rs start sz). in_range p a"
  using assms
proof (induction rs arbitrary: start sz hi)
  case Nil
  then show ?case by (auto simp: in_range_def)
next
  case (Cons r rs)
  have r: "unat (res_start r) \<le> unat (res_end r)" "unat (res_end r) \<le> 2 ^ 33" "unat start \<le> unat (res_start r)" "hi \<le> unat (res_end r)"
    using Cons.prems(3) by auto
  have rest: "\<forall>x \<in> set rs. unat (res_start x) \<le> unat (res_end x) \<and> unat (res_end x) \<le> 2 ^ 33 \<and>
      unat (res_start r) \<le> unat (res_start x) \<and> unat (res_end r) \<le> unat (res_end x)"
    using Cons.prems(3,4) by (auto simp: res_before_def)
  have sorted: "sorted_wrt res_before rs" using Cons.prems(4) by simp
  show ?case
  proof (cases "start + sz < res_start r - SZ_2M")
    case True
    let ?s = "align_down (res_start r) SZ_2M"
    have s: "unat ?s \<le> unat (res_start r)" by (rule align_down_SZ_2M)
    show ?thesis
    proof (cases "unat start \<le> a \<and> a < hi")
      case h: True
      then have "in_range (start, sz) a" using Cons.prems(2) by (simp add: in_range_def)
      with True show ?thesis by simp
    next
      case False
      have "\<exists>p \<in> set (carve_ranges rs ?s (align_up (res_end r - ?s) SZ_2M)). in_range p a"
        using carve_size(1) [of ?s "res_end r"] r s rest sorted False Cons.prems(5)
        by (intro Cons.IH [where hi = "unat (res_end r)"]) (auto intro: order_trans)
      with True show ?thesis by (simp add: Let_def)
    qed
  next
    case False
    have "\<exists>p \<in> set (carve_ranges rs start (align_up (res_end r - start) SZ_2M)). in_range p a"
      using carve_size(1) [of start "res_end r"] r rest sorted Cons.prems(5)
      by (intro Cons.IH [where hi = "unat (res_end r)"]) (auto intro: order_trans)
    with False show ?thesis by simp
  qed
qed

lemma carve_sorted_covers:
  assumes "\<forall>r \<in> set rs. unat (res_start r) \<le> unat (res_end r) \<and> unat (res_end r) \<le> 2 ^ 33" and "sorted_wrt res_before rs"
    and "r \<in> set rs" "unat (res_start r) \<le> a" "a < unat (res_end r)"
  shows "\<exists>p \<in> set (carve_sorted rs). in_range p a"
proof (cases rs)
  case (Cons x xs)
  let ?s = "align_down (res_start x) SZ_2M"
  have s: "unat ?s \<le> unat (res_start x)" by (rule align_down_SZ_2M)
  have "\<exists>p \<in> set (carve_ranges xs ?s (align_up (res_end x - ?s) SZ_2M)). in_range p a"
    using carve_size(1) [of ?s "res_end x"] s assms Cons
    by (intro carve_ranges_covers [where hi = "unat (res_end x)"]) (auto simp: res_before_def intro: order_trans)
  then show ?thesis by (simp add: carve_sorted_def Cons Let_def)
qed (use assms(3) in simp)

lemma fdt_cmp_res_decides: "decides (\<lambda>a b. res_start a \<le> res_start b) fdt_cmp_res A"
  unfolding decides_def by (auto simp: fdt_cmp_res_def split: if_splits)

text \<open>C31: every address of a region to carve out lies in one of the ranges whose attributes are set, when there are at most 64 such
  regions and a region that starts later does not end earlier than another.\<close>

theorem carve_out_covers:
  assumes "rmem_wanted nc dram rmems = w" and "length w \<le> 64" and "length res = 64"
    and "\<forall>r1 \<in> set w. \<forall>r2 \<in> set w. res_start r1 \<le> res_start r2 \<longrightarrow> unat (res_end r1) \<le> unat (res_end r2)"
    and "r \<in> set w" and "unat (res_start r) \<le> a" and "a < unat (res_end r)"
  shows "\<exists>(s, z, attr) \<in> set (carve_out_reserved_memory (Some rmems) dram res nc).
    unat s \<le> a \<and> a < unat s + unat z \<and>
    attr = (if nc then PTE_TYPE_VALID OR PTE_BLOCK_MEMTYPE MT_NORMAL_NC OR PTE_BLOCK_PXN OR PTE_BLOCK_UXN else PTE_TYPE_FAULT)"
proof -
  obtain res' where c: "collect_reserved nc dram rmems res 0 = (res', length w)" "length res' = 64" "take (length w) res' = w"
    using collect_reserved_wanted [OF assms(3), of 0 nc dram rmems] assms(1,2) by auto
  let ?s = "take (length w) (qsort res' (length w) fdt_cmp_res)"
  have l: "length w \<le> length res'" using c(2) assms(2) by simp
  have st: "set ?s = set w"
    using keeps_take_mset [OF qsort_keeps [OF l, of fdt_cmp_res]] c(3) by (metis mset_eq_setD)
  have len: "length (qsort res' (length w) fdt_cmp_res) = 64" using keeps_length [OF qsort_keeps [OF l, of fdt_cmp_res]] c(2) by simp
  have "sorted_wrt (\<lambda>a b. res_start a \<le> res_start b) ?s"
    using qsort_ordered [OF fdt_cmp_res_decides l] len assms(2) by (simp add: sorted_wrt_iff_nth_less)
  then have so: "sorted_wrt res_before ?s"
    by (rule sorted_wrt_mono_rel [rotated]) (use assms(4) st in \<open>auto simp: res_before_def word_le_nat_alt\<close>)
  have "\<forall>r \<in> set ?s. unat (res_start r) \<le> unat (res_end r) \<and> unat (res_end r) \<le> 2 ^ 33"
    using rmem_wanted_bounds [of _ nc dram rmems] assms(1) st by auto
  from carve_sorted_covers [OF this so, of r a] assms(5-7) st
  obtain s z where "(s, z) \<in> set (carve_sorted ?s)" "in_range (s, z) a" by auto
  then show ?thesis unfolding carve_out_reserved_memory_def using c(1)
    by (auto simp: in_range_def intro!: bexI [of _ "(s, z)"])
qed

text \<open>C32: the end of a region is not carved out when another region begins in it and ends at least 2 MiB below its end: the size of
  the range is computed again from the end of the inner region.\<close>

theorem carve_out_nested:
  assumes "rmem_wanted nc dram rmems = [r1, r2]" and "length res = 64" and "2 ^ 21 dvd unat (res_start r1)"
    and "2 ^ 21 \<le> unat (res_start r2)" and "unat (res_start r1) \<le> unat (res_start r2)" and "unat (res_end r2) + 2 ^ 21 \<le> unat (res_end r1)"
  shows "\<forall>(s, z, attr) \<in> set (carve_out_reserved_memory (Some rmems) dram res nc). \<not> (unat s \<le> unat (res_end r1) - 1 \<and>
    unat (res_end r1) - 1 < unat s + unat z)"
proof -
  obtain res' where c: "collect_reserved nc dram rmems res 0 = (res', 2)" "length res' = 64" "take 2 res' = [r1, r2]"
    using collect_reserved_wanted [OF assms(2), of 0 nc dram rmems] assms(1) by (auto simp: numeral_2_eq_2)
  obtain zs where z: "res' = r1 # r2 # zs" using c(3) by (metis append_Cons append_Nil append_take_drop_id)
  have b: "unat (res_start r1) \<le> unat (res_end r1)" "unat (res_end r1) \<le> 2 ^ 33" "unat (res_start r2) \<le> unat (res_end r2)" "unat (res_end r2) \<le> 2 ^ 33"
    using rmem_wanted_bounds [of _ nc dram rmems] assms(1) by auto
  have "fdt_cmp_res r1 r2 \<le> 0" using assms(5) by (simp add: fdt_cmp_res_def word_less_nat_alt)
  then have q: "take 2 (qsort res' 2 fdt_cmp_res) = [r1, r2]" by (simp add: z qsort_two)
  have s: "align_down (res_start r1) SZ_2M = res_start r1"
    using align_down_pow [of 21 "res_start r1"] dvd_div_mult_self [OF assms(3)] by (simp add: word_unat_eq_iff)
  let ?z1 = "align_up (res_end r1 - res_start r1) SZ_2M" and ?z2 = "align_up (res_end r2 - res_start r1) SZ_2M"
  have "unat (res_start r1 + ?z1) = unat (res_start r1) + unat ?z1"
    using carve_size(2) [OF b(1,2)] b by (subst unat_plus_if') simp
  moreover have "unat (res_start r2 - SZ_2M) = unat (res_start r2) - 2 ^ 21"
    using assms(4) by (simp add: unat_sub word_le_nat_alt)
  ultimately have "\<not> res_start r1 + ?z1 < res_start r2 - SZ_2M"
    using carve_size(1) [OF b(1,2)] assms(6) b(3) by (simp add: word_less_nat_alt)
  then have v: "carve_sorted [r1, r2] = [(res_start r1, ?z2)]" by (simp add: carve_sorted_def s Let_def del: SZ_2M_def)
  have "unat (res_start r1) \<le> unat (res_end r2)" using assms(5) b(3) by simp
  from carve_size(2) [OF this b(4)] have "unat (res_start r1) + unat ?z2 < unat (res_end r2) + 2 ^ 21"
    using \<open>unat (res_start r1) \<le> unat (res_end r2)\<close> by linarith
  then have "\<not> unat (res_end r1) - 1 < unat (res_start r1) + unat ?z2" using assms(6) by linarith
  then show ?thesis unfolding carve_out_reserved_memory_def using c(1) q v by (simp del: SZ_2M_def One_nat_def)
qed

theorem carve_out_covers_witness:
  "\<exists>(s, z, attr) \<in> set (carve_out_reserved_memory (Some [rmem_ex 0x86000000 0x200000, rmem_ex 0x80000000 0x600000]) 0
      (replicate 64 \<lparr>res_start = 0, res_end = 0\<rparr>) False). unat s \<le> 0x80500000 \<and> 0x80500000 < unat s + unat z"
proof -
  have "rmem_wanted False 0 [rmem_ex 0x86000000 0x200000, rmem_ex 0x80000000 0x600000] =
      [\<lparr>res_start = 0x86000000, res_end = 0x86200000\<rparr>, \<lparr>res_start = 0x80000000, res_end = 0x80600000\<rparr>]"
    by (simp add: rmem_ex_def res_of_def)
  from carve_out_covers [OF this, of "replicate 64 \<lparr>res_start = 0, res_end = 0\<rparr>" "\<lparr>res_start = 0x80000000, res_end = 0x80600000\<rparr>" "0x80500000"]
  show ?thesis by (auto simp del: replicate.simps split: prod.splits)
qed

theorem carve_out_nested_witness:
  "\<not> list_ex (\<lambda>(s, z, attr). unat s \<le> 0x80ffffff \<and> 0x80ffffff < unat s + unat z)
      (carve_out_reserved_memory (Some [rmem_ex 0x80000000 0x1000000, rmem_ex 0x80200000 0x100000]) 0
        (replicate 64 \<lparr>res_start = 0, res_end = 0\<rparr>) False)"
proof -
  let ?r1 = "\<lparr>res_start = 0x80000000, res_end = 0x81000000\<rparr>" and ?r2 = "\<lparr>res_start = 0x80200000, res_end = 0x80300000\<rparr>"
  have w: "rmem_wanted False 0 [rmem_ex 0x80000000 0x1000000, rmem_ex 0x80200000 0x100000] = [?r1, ?r2]"
    by (simp add: rmem_ex_def res_of_def)
  have d: "2 ^ 21 dvd unat (res_start ?r1)" using dvdI [of "0x80000000 :: nat" "2 ^ 21" 1024] by simp
  have "unat (res_end ?r1) - 1 = 0x80ffffff" by simp
  with carve_out_nested [OF w length_replicate d, of "\<lparr>res_start = 0, res_end = 0\<rparr>"] show ?thesis
    unfolding list_ex_iff by fastforce
qed

lemma strstr_here: "strstr (key @ s) key = Some (key @ s)"
  by (cases key; cases s) auto

text \<open>The first occurrence: the key ends nowhere before it.\<close>

lemma strstr_first: "\<not> sublist key (pre @ butlast key) \<Longrightarrow> strstr (pre @ key @ s) key = Some (key @ s)"
proof (induction pre)
  case Nil
  then show ?case by (simp add: strstr_here)
next
  case (Cons c pre)
  have "take (length key) (c # pre @ key @ s) \<noteq> key"
  proof
    assume k: "take (length key) (c # pre @ key @ s) = key"
    have ne: "key \<noteq> []" using Cons.prems by auto
    then have "c # pre @ key @ s = (c # pre @ butlast key) @ last key # s" "length key \<le> length (c # pre @ butlast key)" by simp_all
    then have "take (length key) (c # pre @ butlast key) = key" using k by (metis take_append diff_is_0_eq take0 append_Nil2)
    then have "prefix key (c # pre @ butlast key)" by (metis take_is_prefix)
    then show False using Cons.prems by (simp add: prefix_imp_sublist)
  qed
  moreover have "\<not> sublist key (pre @ butlast key)" using Cons.prems by (auto simp: sublist_Cons_right)
  ultimately show ?case using Cons.IH by simp
qed

lemma strstr_char: "c \<notin> set v \<Longrightarrow> strstr (v @ [c] @ s) [c] = Some ([c] @ s)"
  by (induction v) auto

lemma takeWhile_sep: "c \<notin> set v \<Longrightarrow> takeWhile (\<lambda>x. x \<noteq> c) (v @ c # s) = v"
  by (induction v) auto

lemma dropWhile_sep: "c \<notin> set v \<Longrightarrow> dropWhile (\<lambda>x. x \<noteq> c) (v @ c # s) = c # s"
  by (induction v) auto

text \<open>C34: for the first occurrence of \<open>androidboot.serialno\<close> in the command line, with a value that a space ends: a value shorter than the
  array becomes that of \<open>serial#\<close>, if the variable has none; it is write-once and keeps a value it has. A value that fills the array or is
  longer makes the terminating NUL go beyond its end. The environment is imported and has room for a variable.\<close>

theorem qcom_set_serialno_value:
  assumes "\<not> sublist ''androidboot.serialno='' (pre @ butlast ''androidboot.serialno='')"
    and "CHR '' '' \<notin> set v" and "CHR 0x00 \<notin> set v" and "v \<noteq> []" and "length serial = 32"
    and e: "env_usable e 1 ''serial#''" "env_flags_of e ''serial#'' = env_flags_once"
  shows "qcom_set_serialno (Some (pre @ ''androidboot.serialno='' @ v @ '' '' @ s)) serial e =
    (if length v \<ge> 32 then None
     else if env_get ''serial#'' e = None then Some (env_put ''serial#'' v e)
     else Some (e\<lparr>en_id := en_id e + 1\<rparr>))"
proof -
  let ?key = "''androidboot.serialno=''"
  let ?cl = "pre @ ?key @ v @ '' '' @ s"
  have k: "strstr ?cl ?key = Some (?key @ v @ '' '' @ s)" by (rule strstr_first [OF assms(1)])
  have p: "drop (length ?key) (?key @ v @ '' '' @ s) = v @ '' '' @ s" by (rule append_eq_conv_conj [THEN iffD1, OF refl, THEN conjunct2, symmetric])
  have g: "get_cmdline_option ?cl ?key serial (length serial) =
      (if length v < 32 then Some (0, (v @ [CHR 0x00]) @ drop (length v + 1) serial) else None)"
    unfolding get_cmdline_option_def k option.case Let_def p strstr_char [OF assms(2)]
    using assms(5) by (simp add: blit_def)
  have t: "takeWhile (\<lambda>c. c \<noteq> CHR 0x00) ((v @ [CHR 0x00]) @ zs) = v" for zs
    using assms(3) by (simp add: takeWhile_sep)
  have h: "((v @ [CHR 0x00]) @ zs) ! 0 \<noteq> CHR 0x00" for zs using assms(3,4) by (cases v) auto
  have "env_get ''serial#'' e = None \<longleftrightarrow> en_vars e ''serial#'' = None" using e(1) by (simp add: env_get_def env_usable_def)
  then have "map_option snd (env_set ''serial#'' (Some v) e) =
      (if env_get ''serial#'' e = None then Some (env_put ''serial#'' v e) else Some (e\<lparr>en_id := en_id e + 1\<rparr>))"
    using env_set_once [of e 0, OF _ e(2) assms(4)] e(1) by simp
  then show ?thesis using t h assms(4) by (simp only: qcom_set_serialno_def option.case g) auto
qed

lemma strsep_at: "c \<notin> set v \<Longrightarrow> strsep (v @ [c] @ s) c = (v, Some s)"
  by (simp add: strsep_def takeWhile_sep dropWhile_sep)

text \<open>C33: for the compatible strings \<open>vendor,board\<close> and \<open>maker,soc\<close> of a board that is neither a Qualcomm nor a Thundercomm one, the variables \<open>soc\<close>,
  \<open>board\<close> and \<open>fdtfile\<close> are set to \<open>soc\<close>, \<open>vendor-board\<close> and \<open>qcom/soc-vendor-board.dtb\<close> before the serial number is set from the command
  line. The environment is imported, has room for three variables and does not restrict these.\<close>

theorem configure_env_fdtfile:
  assumes "hd compatible = v @ '','' @ b" and "last compatible = q @ '','' @ soc" and "length compatible \<ge> 2"
    and "CHR '','' \<notin> set v" and "CHR '','' \<notin> set q" and "soc \<noteq> []"
    and "length v + length b < 30" and "length q + length soc < 30"
    and "take 4 (v @ '','' @ b) \<noteq> ''qcom''" and "take 11 v \<noteq> ''thundercomm''"
    and e: "list_all (\<lambda>name. env_usable e 3 name \<and> env_flags_of e name = 0) [''soc'', ''board'', ''fdtfile'']"
  shows "configure_env compatible cmdline serial e =
    qcom_set_serialno cmdline serial (env_put ''fdtfile'' (take 63 (''qcom/'' @ soc @ ''-'' @ v @ ''-'' @ b @ ''.dtb''))
      (env_put ''board'' (v @ ''-'' @ b) (env_put ''soc'' soc e)))"
proof -
  let ?e1 = "env_put ''soc'' soc e"
  let ?e2 = "env_put ''board'' (v @ ''-'' @ b) ?e1"
  have t: "take 30 (v @ '','' @ b) = v @ '','' @ b" "take 30 (q @ '','' @ soc) = q @ '','' @ soc" using assms(7,8) by auto
  have n: "board_name (v @ '','' @ b) = Some (Some (v @ ''-'' @ b))"
    using assms(9,10) strsep_at [OF assms(4), of b] by (simp add: board_name_def)
  have s: "snd (strsep (q @ '','' @ soc) (CHR '','')) = Some soc" using strsep_at [OF assms(5), of soc] by simp
  have u: "env_usable e (Suc (Suc (Suc 0))) name" "env_flags_of e name = 0" if "name \<in> {''soc'', ''board'', ''fdtfile''}" for name
    using e that by (auto simp: numeral_3_eq_3)
  have r: "en_ready e" using u(1) [of "''soc''"] by (simp add: env_usable_def)
  have "env_set ''soc'' (Some soc) e = Some (0, ?e1)" using u assms(6) by (intro env_set_free [of _ "Suc (Suc 0)"]) simp_all
  moreover have "env_set ''board'' (Some (v @ ''-'' @ b)) ?e1 = Some (0, ?e2)"
    using u by (intro env_set_free [of _ "Suc 0"] env_put_usable) simp_all
  moreover have "env_set ''fdtfile'' (Some (take 63 (''qcom/'' @ x))) ?e2 = Some (0, env_put ''fdtfile'' (take 63 (''qcom/'' @ x)) ?e2)" for x
    using u by (intro env_set_free [of _ 0] env_put_usable) simp_all
  ultimately show ?thesis using assms(3) r unfolding configure_env_def assms(1,2) t n s
    by (simp add: Let_def str_or_null_def del: take_append)
qed

theorem qcom_set_serialno_value_witness:
  "qcom_set_serialno (Some ''quiet androidboot.serialno=42 ro'') (replicate 32 (CHR 0x00)) env_ex = Some (env_put ''serial#'' ''42'' env_ex) \<and>
   qcom_set_serialno (Some ''quiet androidboot.serialno=42 ro'') (replicate 32 (CHR 0x00)) (env_put ''serial#'' ''7'' env_ex) =
     Some ((env_put ''serial#'' ''7'' env_ex)\<lparr>en_id := 3\<rparr>)"
proof -
  have s: "\<not> sublist ''androidboot.serialno='' (''quiet '' @ butlast ''androidboot.serialno='')" by code_simp
  have u: "env_usable env_ex 2 ''serial#''" "env_flags_of env_ex ''serial#'' = env_flags_once" "env_get ''serial#'' env_ex = None"
    by (simp_all add: env_usable_def env_flags_of_def env_get_def env_ex_def heap_ok_def)
  have u': "env_usable env_ex 1 ''serial#''" "env_usable (env_put ''serial#'' ''7'' env_ex) 1 ''serial#''" "en_ready env_ex"
    "en_id (env_put ''serial#'' ''7'' env_ex) = 2"
    by (simp_all add: env_usable_def env_put_def env_ex_def heap_ok_def)
  note t = qcom_set_serialno_value [OF s, of "''42''" "replicate 32 (CHR 0x00)" _ "''ro''"]
  show ?thesis using t [of env_ex] t [of "env_put ''serial#'' ''7'' env_ex"] u u' by simp
qed

theorem configure_env_fdtfile_witness:
  "configure_env [''particle,tachyon'', ''qcom,qcm6490''] None [] env_ex =
     Some (env_put ''fdtfile'' ''qcom/qcm6490-particle-tachyon.dtb'' (env_put ''board'' ''particle-tachyon'' (env_put ''soc'' ''qcm6490'' env_ex)))"
  using configure_env_fdtfile [of "[''particle,tachyon'', ''qcom,qcm6490'']" "''particle''" "''tachyon''" "''qcom''" "''qcm6490''" env_ex None "[]"]
  by (simp add: env_usable_def env_flags_of_def env_ex_def heap_ok_def qcom_set_serialno_def)

end
