(* ===== verification/Tachyon.thy ===== *)
theory Tachyon
  imports Scsi Efs_File Board
begin

text \<open>
  The board code of the Particle Tachyon (\<open>board/particle/tachyon/tachyon.c\<close>): reading the EFS partition through the block
  layer, the MAC addresses kept there, device tree overlays and the OS type in the PMIC. The disk is a
  list of bytes behind the operations of a block driver; the partition tables, the file system with the
  overlays, the device tree library and the PMIC are parameters. \<^const>\<open>None\<close> is a fault.
\<close>

subsection \<open>Partitions\<close>

record disk_partition =
  dp_start :: u64
  dp_size :: u64
  dp_blksz :: u64
  dp_name :: string

text \<open>The partition driver of a device: the number of entries, and what reading an entry returns.\<close>

record part_driver =
  max_entries :: nat
  get_info :: "(nat \<Rightarrow> disk_partition \<Rightarrow> int \<times> disk_partition) option"

fun part_scan :: "(nat \<Rightarrow> disk_partition \<Rightarrow> int \<times> disk_partition) \<Rightarrow> string \<Rightarrow> nat \<Rightarrow> nat \<Rightarrow> disk_partition \<Rightarrow> int \<times> disk_partition" where
  "part_scan gi name 0 i info = (- ENOENT, info)"
| "part_scan gi name (Suc k) i info =
     (case gi i info of (ret, info') \<Rightarrow>
        if ret \<noteq> 0 then part_scan gi name k (i + 1) info'
        else if name = dp_name info' then (int i, info')
        else part_scan gi name k (i + 1) info')"

definition part_get_info_by_name :: "part_driver option \<Rightarrow> string \<Rightarrow> disk_partition \<Rightarrow> int \<times> disk_partition" where
  "part_get_info_by_name drv name info =
     (case drv of
        None \<Rightarrow> (- 1, info)
      | Some d \<Rightarrow> (case get_info d of None \<Rightarrow> (- ENOSYS, info) | Some gi \<Rightarrow> part_scan gi name (max_entries d - 1) 1 info))"

definition PART_TYPE_UNKNOWN :: u8 where [simp]: "PART_TYPE_UNKNOWN = 0"

text \<open>A block device: whether it is one of the class, its description and the driver of its partition table.\<close>

type_synonym blk_dev = "bool \<times> (blk_desc \<times> part_driver option) option"

fun tachyon_find_partition ::
  "blk_dev list \<Rightarrow> string \<Rightarrow> disk_partition \<Rightarrow> int \<times> blk_desc option \<times> disk_partition" where
  "tachyon_find_partition [] name info = (- ENOENT, None, info)"
| "tachyon_find_partition ((is_blk, plat) # devs) name info =
     (case plat of
        None \<Rightarrow> tachyon_find_partition devs name info
      | Some (desc, drv) \<Rightarrow>
          if \<not> is_blk \<or> d_part_type desc = PART_TYPE_UNKNOWN then tachyon_find_partition devs name info
          else
            (case part_get_info_by_name drv name info of (partnum, info') \<Rightarrow>
               if partnum \<ge> 0 then (partnum, Some desc, info') else tachyon_find_partition devs name info'))"

subsection \<open>Reading the EFS partition\<close>

record blkdev_context =
  bx_desc :: "blk_desc option"
  bx_info :: disk_partition
  bx_mounted :: bool

text \<open>The result, the buffer and the block cache. \<^const>\<open>None\<close>: no device, a block size of 0, or a fault below.\<close>

definition fsg_read ::
  "c_heap \<Rightarrow> blk_ops \<Rightarrow> buf \<Rightarrow> block_cache \<Rightarrow> blkdev_context \<Rightarrow> buf \<Rightarrow> int \<Rightarrow> int \<Rightarrow> (int \<times> buf \<times> block_cache) option" where
  "fsg_read h ops dev c blk buffer offset sz =
     (if sz \<le> 0 then Some (0, buffer, c)
      else
        (case bx_desc blk of
           None \<Rightarrow> None
         | Some desc \<Rightarrow>
             (let block_size = uint (d_blksz desc) in
              if block_size = 0 then None
              else
                (let start_block = to_ulong offset div block_size;
                     skip_bytes = to_ulong offset mod block_size;
                     block_count = to_ulong (sz + skip_bytes + block_size - 1) div block_size
                 in case c_malloc h (nat (to_ulong (block_size * block_count))) of
                      None \<Rightarrow> Some (- ENOMEM, buffer, c)
                    | Some block_buf \<Rightarrow>
                        (case blk_dread h ops desc dev c (dp_start (bx_info blk) + word_of_int start_block)
                                (word_of_int block_count) block_buf of
                           None \<Rightarrow> None
                         | Some (r, block_buf', c') \<Rightarrow>
                             if r = block_count then
                               (if length block_buf' < nat (skip_bytes + sz) \<or> length buffer < nat sz then None
                                else Some (sz, blit 0 (chunk (nat skip_bytes) (nat sz) block_buf') buffer, c'))
                             else Some (- 1, buffer, c'))))))"

text \<open>
  The read operation as the EFS functions call it, with a given state of the block cache: the result and the bytes stored. A fault
  is shown as an error.
\<close>

definition fsg_rd :: "c_heap \<Rightarrow> blk_ops \<Rightarrow> buf \<Rightarrow> block_cache \<Rightarrow> blkdev_context \<Rightarrow> efs_rd" where
  "fsg_rd h ops dev c blk offset sz =
     (case fsg_read h ops dev c blk (replicate (nat sz) 0) offset sz of
        None \<Rightarrow> (- 1, [])
      | Some (r, b, _) \<Rightarrow> (r, if r > 0 then b else []))"

record tachyon_state =
  s_efs :: efs_context
  s_efs_blk :: blkdev_context

definition tachyon_setup_efs ::
  "blk_dev list \<Rightarrow> (blkdev_context \<Rightarrow> efs_rd) \<Rightarrow> tachyon_state \<Rightarrow> (int \<times> tachyon_state) option" where
  "tachyon_setup_efs devs rd st =
     (let mounted = bx_mounted (s_efs_blk st); st0 = st\<lparr>s_efs_blk := (s_efs_blk st)\<lparr>bx_mounted := False\<rparr>\<rparr> in
      case tachyon_find_partition devs ''fsg'' \<lparr>dp_start = 0, dp_size = 0, dp_blksz = 0, dp_name = ''''\<rparr> of
        (partnum, desc, info) \<Rightarrow>
          if partnum < 0 then Some (partnum, st0)
          else
            (let blk = \<lparr>bx_desc = desc, bx_info = info, bx_mounted = False\<rparr> in
             if mounted then Some (0, st0\<lparr>s_efs_blk := blk\<lparr>bx_mounted := True\<rparr>\<rparr>)
             else
               (case efs_mount (rd blk) of
                  None \<Rightarrow> None
                | Some (r, ctx) \<Rightarrow> Some (r, \<lparr>s_efs = ctx, s_efs_blk = blk\<lparr>bx_mounted := (r = 0)\<rparr>\<rparr>))))"

definition efs_read_file :: "c_heap \<Rightarrow> efs_rd \<Rightarrow> efs_context \<Rightarrow> buf \<Rightarrow> buf \<Rightarrow> int \<Rightarrow> (int \<times> buf) option" where
  "efs_read_file h rd ctx filename buffer sz =
     (case efs_open h rd ctx filename of
        None \<Rightarrow> None
      | Some (r, f) \<Rightarrow>
          if r < 0 then Some (r, buffer)
          else (case f of None \<Rightarrow> None | Some f \<Rightarrow> efs_read rd ctx f buffer 0 sz))"

subsection \<open>MAC addresses\<close>

text \<open>
  \<open>enet\<close> is \<open>eth_env_get_enetaddr\<close>: whether the variable holds an address, and the array afterwards;
  \<open>get_alias\<close> is \<open>fdt_get_alias\<close>. The result has the fix-ups of the device tree: path, property and value.
\<close>

definition ARP_HLEN :: nat where [simp]: "ARP_HLEN = 6"

definition wifi_setup ::
  "c_heap \<Rightarrow> efs_rd \<Rightarrow> efs_context \<Rightarrow> (string \<Rightarrow> buf \<Rightarrow> bool \<times> buf) \<Rightarrow> (string \<Rightarrow> string option) \<Rightarrow> buf \<Rightarrow>
   (buf \<times> (string \<times> string \<times> buf) list) option" where
  "wifi_setup h rd ctx enet get_alias mac =
     (case enet ''wlanaddr'' mac of (found, mac1) \<Rightarrow>
        if found then Some (mac1, [])
        else
          (case efs_read_file h rd ctx (bytes_of_string ''/nvm/num/4678'') mac1 (int ARP_HLEN) of
             None \<Rightarrow> None
           | Some (r, mac2) \<Rightarrow>
               Some (mac2, if r = int ARP_HLEN then
                             (case get_alias ''wlan'' of
                                None \<Rightarrow> []
                              | Some path \<Rightarrow> [(path, ''local-mac-address'', mac2), (path, ''mac-address'', mac2)])
                           else [])))"

definition bluetooth_setup ::
  "c_heap \<Rightarrow> efs_rd \<Rightarrow> efs_context \<Rightarrow> (string \<Rightarrow> buf \<Rightarrow> bool \<times> buf) \<Rightarrow> (string \<Rightarrow> string option) \<Rightarrow> buf \<Rightarrow>
   (buf \<times> (string \<times> string \<times> buf) list) option" where
  "bluetooth_setup h rd ctx enet get_alias mac =
     (case enet ''btaddr'' mac of (found, mac1) \<Rightarrow>
        if found then Some (mac1, [])
        else
          (case efs_read_file h rd ctx (bytes_of_string ''/nvm/num/447'') mac1 (int ARP_HLEN) of
             None \<Rightarrow> None
           | Some (r, mac2) \<Rightarrow>
               Some (mac2, if r = int ARP_HLEN then
                             (case get_alias ''bluetooth'' of None \<Rightarrow> [] | Some path \<Rightarrow> [(path, ''local-bd-address'', mac2)])
                           else [])))"

definition tachyon_system_setup ::
  "c_heap \<Rightarrow> blk_dev list \<Rightarrow> (blkdev_context \<Rightarrow> efs_rd) \<Rightarrow> (string \<Rightarrow> buf \<Rightarrow> bool \<times> buf) \<Rightarrow> (string \<Rightarrow> string option) \<Rightarrow>
   tachyon_state \<Rightarrow> (int \<times> (string \<times> string \<times> buf) list \<times> tachyon_state) option" where
  "tachyon_system_setup h devs rd enet get_alias st =
     (case tachyon_setup_efs devs rd st of
        None \<Rightarrow> None
      | Some (r, st') \<Rightarrow>
          if r < 0 then Some (r, [], st')
          else
            (let rdf = rd (s_efs_blk st') in
             case wifi_setup h rdf (s_efs st') enet get_alias (replicate ARP_HLEN 0) of
               None \<Rightarrow> None
             | Some (mac, fx) \<Rightarrow>
                 (case bluetooth_setup h rdf (s_efs st') enet get_alias mac of
                    None \<Rightarrow> None
                  | Some (_, fx') \<Rightarrow> Some (0, fx @ fx', st'))))"

subsection \<open>Overlays\<close>

definition c_isspace :: "char \<Rightarrow> bool" where
  "c_isspace c = ((of_char c :: nat) \<in> set [9, 10, 11, 12, 13, 32, 160])"

text \<open>The names the loop passes to the callback.\<close>

function overlay_names :: "string \<Rightarrow> string list" where
  "overlay_names p =
     (let name = dropWhile c_isspace p in
      if name = [] then []
      else takeWhile (\<lambda>c. \<not> c_isspace c) name # overlay_names (drop 1 (dropWhile (\<lambda>c. \<not> c_isspace c) name)))"
  by auto

termination overlay_names
proof (relation "measure length")
  fix p name :: string
  assume x: "name = dropWhile c_isspace p" "name \<noteq> []"
  have "length (dropWhile (\<lambda>c. \<not> c_isspace c) name) \<le> length name" by (rule length_dropWhile_le)
  moreover have "length name \<le> length p" using length_dropWhile_le [of c_isspace p] x by simp
  moreover have "0 < length name" using x(2) by simp
  ultimately show "(drop 1 (dropWhile (\<lambda>c. \<not> c_isspace c) name), p) \<in> measure length"
    unfolding in_measure length_drop by linarith
qed simp

declare overlay_names.simps [simp del]

definition parse_overlay_list :: "string option \<Rightarrow> (string \<Rightarrow> 'c \<Rightarrow> int \<times> 'c) option \<Rightarrow> 'c \<Rightarrow> int \<times> 'c" where
  "parse_overlay_list buffer cb ctx =
     (case (buffer, cb) of
        (Some b, Some f) \<Rightarrow>
          (let p = (case strstr b ''overlays='' of None \<Rightarrow> b | Some eq \<Rightarrow> drop 9 eq);
               q = map (\<lambda>c. if c = CHR 0x0D \<or> c = CHR 0x0A \<or> c = CHR 0x09 then CHR '' '' else c) p
           in (0, foldl (\<lambda>x name. snd (f name x)) ctx (overlay_names q)))
      | _ \<Rightarrow> (- EINVAL, ctx))"

text \<open>
  The file system and the device tree library: selecting the partition, the size and the bytes of a
  file, the test of a header, and the operations on the tree.
\<close>

record 'f overlay_ops =
  fs_set_dev :: int
  fs_size_of :: "string \<Rightarrow> int \<times> int"
  fs_read_file :: "string \<Rightarrow> int \<times> buf"
  fdt_check :: "buf \<Rightarrow> int"
  fdt_grow :: "'f \<Rightarrow> int \<Rightarrow> int \<times> 'f"
  fdt_pack_tree :: "'f \<Rightarrow> 'f"
  fdt_apply :: "'f \<Rightarrow> buf \<Rightarrow> int \<times> 'f"

definition FDT_ERR_NOSPACE :: int where [simp]: "FDT_ERR_NOSPACE = 3"

definition tachyon_apply_overlay :: "c_heap \<Rightarrow> 'f overlay_ops \<Rightarrow> string \<Rightarrow> 'f \<Rightarrow> int \<times> 'f" where
  "tachyon_apply_overlay h ops name fdt =
     (let path = take (EFS_MAX_PATH - 1) (''/boot/'' @ name) in
      if fs_set_dev ops < 0 then (fs_set_dev ops, fdt)
      else
        (case fs_size_of ops path of (r, sz) \<Rightarrow>
         if r < 0 then (r, fdt)
         else if \<not> malloc_ok h (nat (to_ulong sz)) then (- ENOMEM, fdt)
         else
           (case fs_read_file ops path of (ret, overlay) \<Rightarrow>
            if ret < 0 then (ret, fdt)
            else if fdt_check ops overlay \<noteq> 0 then (- EINVAL, fdt)
            else
              (let grow = sz + 0x1000 in
               case fdt_grow ops fdt grow of (r1, fdt1) \<Rightarrow>
                 (case (if r1 = - FDT_ERR_NOSPACE then fdt_grow ops (fdt_pack_tree ops fdt1) grow else (r1, fdt1)) of (r2, fdt2) \<Rightarrow>
                    if r2 \<ge> 0 then (0, snd (fdt_apply ops fdt2 overlay)) else (0, fdt2))))))"

definition tachyon_load_overlays :: "c_heap \<Rightarrow> blk_dev list \<Rightarrow> 'f overlay_ops \<Rightarrow> 'f \<Rightarrow> int \<times> 'f" where
  "tachyon_load_overlays h devs ops fdt =
     (case tachyon_find_partition devs ''userdata'' \<lparr>dp_start = 0, dp_size = 0, dp_blksz = 0, dp_name = ''''\<rparr> of
        (partnum, _, _) \<Rightarrow>
          if partnum < 0 then (partnum, fdt)
          else if fs_set_dev ops < 0 then (fs_set_dev ops, fdt)
          else
            (case fs_size_of ops ''/boot/overlays.txt'' of (r, sz) \<Rightarrow>
             if r < 0 then (r, fdt)
             else if \<not> malloc_ok h (nat (to_ulong (sz + 1))) then (- ENOMEM, fdt)
             else
               (case fs_read_file ops ''/boot/overlays.txt'' of (r, bs) \<Rightarrow>
                if r < 0 then (r, fdt)
                else
                  (let overlay_list = map (\<lambda>b. char_of (unat b)) (takeWhile (\<lambda>b. b \<noteq> 0) (take (nat sz) bs))
                   in parse_overlay_list (Some overlay_list) (Some (tachyon_apply_overlay h ops)) fdt))))"

subsection \<open>The OS type in the PMIC\<close>

text \<open>
  A PMIC: its nodes, each with the result of reading its \<open>reg\<close> property and its subnodes, which have a name and a
  \<open>reg\<close> property of two numbers; and the operations on its registers.
\<close>

record pmic_subnode =
  sub_name :: "string option"
  sub_reg :: "int \<times> u32 \<times> u32"

record pmic_node =
  node_reg :: "int \<times> u32"
  node_subs :: "pmic_subnode list"

record pmic_dev =
  pm_nodes :: "pmic_node list"
  pm_read :: "u32 \<Rightarrow> int"
  pm_write :: "u32 \<Rightarrow> u32 \<Rightarrow> int"

definition TACHYON_OS_TYPE_HLOS :: u32 where [simp]: "TACHYON_OS_TYPE_HLOS = 1"

definition pmic_matches :: "pmic_subnode \<Rightarrow> bool" where
  "pmic_matches sub = (case sub_name sub of None \<Rightarrow> False | Some n \<Rightarrow> take 12 n = ''sdam-os-type'')"

definition pmic_set_hlos :: "pmic_dev \<Rightarrow> pmic_node \<Rightarrow> pmic_subnode \<Rightarrow> int \<times> (u32 \<times> u32) option" where
  "pmic_set_hlos dev node sub =
     (if fst (node_reg node) < 0 then (fst (node_reg node), None)
      else if fst (sub_reg sub) < 0 then (fst (sub_reg sub), None)
      else
        (let reg = snd (node_reg node) + fst (snd (sub_reg sub)); r = pm_read dev reg in
         if r < 0 then (r, None)
         else
           (let val = word_of_int r OR TACHYON_OS_TYPE_HLOS; w = pm_write dev reg val in
            (if w < 0 then w else 0, Some (reg, val)))))"

text \<open>The result and the register written, for the first subnode that matches.\<close>

definition tachyon_pmic_configure :: "pmic_dev list \<Rightarrow> int \<times> (u32 \<times> u32) option" where
  "tachyon_pmic_configure devs =
     (case [(dev, node, sub). dev \<leftarrow> devs, node \<leftarrow> pm_nodes dev, sub \<leftarrow> node_subs node, pmic_matches sub] of
        [] \<Rightarrow> (- ENOENT, None)
      | (dev, node, sub) # _ \<Rightarrow> pmic_set_hlos dev node sub)"

definition ft_system_setup ::
  "c_heap \<Rightarrow> blk_dev list \<Rightarrow> (blkdev_context \<Rightarrow> efs_rd) \<Rightarrow> (string \<Rightarrow> buf \<Rightarrow> bool \<times> buf) \<Rightarrow> (string \<Rightarrow> string option) \<Rightarrow>
   'f overlay_ops \<Rightarrow> ('f \<Rightarrow> string \<times> string \<times> buf \<Rightarrow> 'f) \<Rightarrow> tachyon_state \<Rightarrow> 'f \<Rightarrow> (int \<times> 'f \<times> tachyon_state) option" where
  "ft_system_setup h devs rd enet get_alias ops fixup st fdt =
     (case tachyon_system_setup h devs rd enet get_alias st of
        None \<Rightarrow> None
      | Some (_, fx, st') \<Rightarrow> Some (0, snd (tachyon_load_overlays h devs ops (foldl fixup fdt fx)), st'))"

subsection \<open>Specification\<close>

text \<open>The part of a disk that a partition covers.\<close>

definition fsg_image :: "blk_desc \<Rightarrow> disk_partition \<Rightarrow> buf \<Rightarrow> buf" where
  "fsg_image desc info dev =
     chunk (unat (dp_start info) * unat (d_blksz desc)) (unat (dp_size info) * unat (d_blksz desc)) dev"

text \<open>A disk with the partition on it, and memory for the blocks read.\<close>

definition fsg_ready :: "c_heap \<Rightarrow> blk_desc \<Rightarrow> disk_partition \<Rightarrow> buf \<Rightarrow> bool" where
  "fsg_ready h desc info dev \<longleftrightarrow> 0 < d_blksz desc \<and> length dev < 2 ^ 62 \<and> (\<forall>n. malloc_ok h n) \<and>
     (unat (dp_start info) + unat (dp_size info)) * unat (d_blksz desc) \<le> length dev"

text \<open>An example disk: the partition with the file \<open>/nvm/num/4678\<close> begins at block 3; the blocks have one byte.\<close>

definition tachyon_ex_entries :: "(nat \<times> buf) list" where
  "tachyon_ex_entries =
     [(18, [5, 5, 100, 1, 0, 0, 0, 105, 1, 0, 0, 0]),
      (30, [8, 5, 100, 1, 0, 0, 0, 110, 118, 109, 105, 2, 0, 0, 0]),
      (45, [8, 5, 100, 2, 0, 0, 0, 110, 117, 109, 105, 3, 0, 0, 0]),
      (60, [9, 9, 100, 3, 0, 0, 0, 52, 54, 55, 56, 110, 0, 0, 2, 4, 6, 8, 10, 12])]"

definition tachyon_ex_img :: buf where
  "tachyon_ex_img = replicate 128 0 @ efs_ex_node 62 @ concat (map snd tachyon_ex_entries)"

definition tachyon_ex_ctx :: efs_context where
  "tachyon_ex_ctx = \<lparr>superblock_offset = 0, sector_size = 128, sector_count = 8, sectors_per_block = 1,
     database_root = 0, inode_root = 1\<rparr>"

definition tachyon_ex_disk :: buf where
  "tachyon_ex_disk = [9, 9, 9] @ tachyon_ex_img @ [9]"

definition tachyon_ex_desc :: blk_desc where
  "tachyon_ex_desc = \<lparr>d_uclass_id = 1, d_devnum = 0, d_blksz = 1, d_bb = True, d_target = 0, d_lun = 4, d_part_type = 2\<rparr>"

definition tachyon_ex_blk :: blkdev_context where
  "tachyon_ex_blk = \<lparr>bx_desc = Some tachyon_ex_desc,
     bx_info = \<lparr>dp_start = 3, dp_size = 208, dp_blksz = 1, dp_name = ''fsg''\<rparr>, bx_mounted = True\<rparr>"

text \<open>The fields of a string between white space, as a reference for the list of overlays.\<close>

fun ws_fields :: "string \<Rightarrow> string list" where
  "ws_fields [] = [[]]"
| "ws_fields (c # cs) = (if c_isspace c then [] # ws_fields cs else (c # hd (ws_fields cs)) # tl (ws_fields cs))"

definition tachyon_ex_nodes :: "(nat \<times> (nat \<times> buf) list) list" where
  "tachyon_ex_nodes = [(0, tachyon_ex_entries)]"

subsection \<open>Lemmas\<close>

text \<open>The blocks a read touches.\<close>

lemma block_cover:
  fixes off n B sz :: nat
  assumes "0 < B" and "0 < n" and "off + n \<le> sz * B"
  defines "c \<equiv> (n + off mod B + B - 1) div B"
  shows "0 < c" and "off div B + c \<le> sz" and "off mod B + n \<le> c * B"
proof -
  have m: "off mod B + n \<le> c * B" "c * B < n + off mod B + B"
    unfolding c_def using div_up_bounds [OF assms(1), of "n + off mod B"] by (simp_all add: add.commute)
  show "off mod B + n \<le> c * B" by (rule m(1))
  show "0 < c" using m(1) assms(2) by (cases c) auto
  have "(off div B + c) * B < off + n + B" using m(2) div_mult_mod_eq [of off B] unfolding add_mult_distrib by linarith
  also have "\<dots> \<le> (sz + 1) * B" using assms(3) by simp
  finally have "off div B + c < sz + 1" by (simp only: mult_less_cancel2)
  then show "off div B + c \<le> sz" by simp
qed

lemma fsg_read_serves:
  assumes drv: "blk_driver ops rd wr good" and co: "cache_coherent m c"
    and desc: "bx_desc blk = Some desc" and dev: "m (desc_id desc) = dev" "good desc dev"
    and rdy: "fsg_ready h desc (bx_info blk) dev"
    and n: "0 < n" and fit: "off + n \<le> length (fsg_image desc (bx_info blk) dev)" and buf: "n \<le> length b"
  shows "\<exists>c'. fsg_read h ops dev c blk b (int off) (int n) =
      Some (int n, blit 0 (chunk off n (fsg_image desc (bx_info blk) dev)) b, c') \<and> cache_coherent m c'"
proof -
  define B st sz where "B = unat (d_blksz desc)" and "st = unat (dp_start (bx_info blk))" and "sz = unat (dp_size (bx_info blk))"
  define cnt where "cnt = (n + off mod B + B - 1) div B"
  have B: "0 < B" "length dev < 2 ^ 62" "\<And>k. malloc_ok h k" "(st + sz) * B \<le> length dev"
    using rdy by (auto simp: fsg_ready_def B_def st_def sz_def unat_gt_0)
  have img: "fsg_image desc (bx_info blk) dev = chunk (st * B) (sz * B) dev"
    by (simp add: fsg_image_def B_def st_def sz_def)
  have li: "length (chunk (st * B) (sz * B) dev) = sz * B" using B(4) by (simp add: add_mult_distrib)
  have ob: "off + n \<le> sz * B" using fit unfolding img li .
  note bc = block_cover [OF B(1) n ob, folded cnt_def]
  have "(st + (off div B + cnt)) * B \<le> (st + sz) * B" using bc(2) by simp
  then have e: "(st + off div B) * B + cnt * B \<le> length dev" using B(4) by (simp add: algebra_simps)
  have cB: "cnt * B < 2 ^ 62" "(st + off div B) * B < 2 ^ 62" using e B(2) by linarith+
  have "B \<le> cnt * B" using bc(1) by simp
  then have Bs: "B < 2 ^ 62" using cB(1) by linarith
  have "cnt \<le> cnt * B" "st + off div B \<le> (st + off div B) * B" using B(1) by simp_all
  then have cs: "cnt < 2 ^ 62" "st + off div B < 2 ^ 62" using cB by linarith+
  have os: "off < 2 ^ 62" "n < 2 ^ 62" using ob e B(2,4) by (auto simp: algebra_simps)
  have uB: "uint (d_blksz desc) = int B" by (simp add: B_def)
  have m: "off mod B < B" using B(1) by simp
  have ul: "to_ulong (int off) = int off" "to_ulong (int n + int (off mod B) + int B - 1) = int (n + off mod B + B - 1)"
    "to_ulong (int B * int cnt) = int (cnt * B)"
  proof -
    show "to_ulong (int off) = int off" using os by (intro to_ulong_int) simp
    have eq: "int n + int (off mod B) + int B - 1 = int (n + off mod B + B - 1)" using n by simp
    show "to_ulong (int n + int (off mod B) + int B - 1) = int (n + off mod B + B - 1)"
      unfolding eq using os m Bs by (intro to_ulong_int) simp
    have eq2: "int B * int cnt = int (cnt * B)" by simp
    show "to_ulong (int B * int cnt) = int (cnt * B)" unfolding eq2 using cB(1) by (intro to_ulong_int) simp
  qed
  let ?bb = "map (junk h) [0..<cnt * B]"
  let ?s = "dp_start (bx_info blk) + word_of_int (int (off div B)) :: u64" and ?n = "word_of_int (int cnt) :: u64"
  have us: "unat ?s = st + off div B" using cs(2) by (simp add: st_def unat_word_ariths unat_of_nat)
  have un: "unat ?n = cnt" "uint ?n = int cnt" using cs(1) by (simp_all add: unat_of_nat uint_nat)
  have pos: "0 < ?n" "0 < d_blksz desc"
    using un(1) bc(1) B(1) unfolding word_less_nat_alt B_def [symmetric] by simp_all
  have req: "blk_req_ok h desc (m (desc_id desc)) ?s ?n ?bb"
    using pos e bc(1) B cs cB Bs us un unfolding blk_req_ok_def dev B_def [symmetric] by (simp add: add_mult_distrib)
  have cl: "to_long (int cnt) = int cnt" using cs(1) by (intro to_long_small) simp_all
  obtain c' where rd: "blk_read h ops desc dev c ?s ?n ?bb = Some (int cnt,
      blit 0 (chunk ((st + off div B) * B) (cnt * B) dev) ?bb, c')" "cache_coherent m c'"
    using blk_driver.blk_read_serves [OF drv req co] dev cl unfolding us un B_def [symmetric] by auto
  let ?d = "chunk ((st + off div B) * B) (cnt * B) dev"
  have ld: "length ?d = cnt * B" using e by simp
  then have bl: "blit 0 ?d ?bb = ?d" by (simp add: blit_def)
  have "chunk (off mod B) n ?d = chunk ((st + off div B) * B + off mod B) n dev" using bc(3) by (simp add: chunk_chunk)
  also have "(st + off div B) * B + off mod B = st * B + off" by (simp add: add_mult_distrib)
  also have "chunk (st * B + off) n dev = chunk off n (fsg_image desc (bx_info blk) dev)"
    unfolding img using ob by (simp add: chunk_chunk)
  finally have data: "chunk (off mod B) n ?d = chunk off n (fsg_image desc (bx_info blk) dev)" .
  have q: "to_ulong (int off) div int B = int (off div B)" "to_ulong (int off) mod int B = int (off mod B)"
    "to_ulong (int n + int (off mod B) + int B - 1) div int B = int cnt"
    unfolding ul cnt_def by (simp_all only: zdiv_int zmod_int)
  have q4: "nat (to_ulong (int B * int cnt)) = cnt * B" unfolding ul(3) by (rule nat_int)
  have mal: "c_malloc h (cnt * B) = Some ?bb" using B(3) by (simp add: c_malloc_def)
  have "to_ulong (int cnt) = int cnt" using cs(1) by (intro to_ulong_int) simp
  then have dr: "blk_dread h ops desc dev c ?s ?n ?bb = Some (int cnt, ?d, c')"
    unfolding blk_dread_def rd(1) bl by simp
  have len: "\<not> (length ?d < nat (int (off mod B) + int n) \<or> length b < nat (int n))" using bc(3) ld buf by simp
  have "fsg_read h ops dev c blk b (int off) (int n) = Some (int n, blit 0 (chunk (off mod B) n ?d) b, c')"
    unfolding fsg_read_def desc option.case Let_def uB q q4 mal dr prod.case if_not_P [OF len] using n B(1) by simp
  then show ?thesis unfolding data using rd(2) by blast
qed

lemma fsg_device:
  assumes drv: "blk_driver ops rd wr good" and co: "cache_coherent m c"
    and desc: "bx_desc blk = Some desc" and dev: "m (desc_id desc) = dev" "good desc dev"
    and rdy: "fsg_ready h desc (bx_info blk) dev"
  shows "efs_device (fsg_rd h ops dev c blk) (fsg_image desc (bx_info blk) dev)"
proof
  fix off n :: int
  let ?img = "fsg_image desc (bx_info blk) dev"
  assume a: "0 \<le> off" "0 < n" "off + n \<le> int (length ?img)"
  obtain o' n' where eq: "off = int o'" "n = int n'" using a(1,2) by (metis less_imp_le nonneg_int_cases)
  have n': "0 < n'" and fit: "o' + n' \<le> length ?img" using a unfolding eq by linarith+
  obtain c' where r: "fsg_read h ops dev c blk (replicate n' 0) (int o') (int n') =
      Some (int n', blit 0 (chunk o' n' ?img) (replicate n' 0), c')"
    using fsg_read_serves [OF drv co desc dev rdy n' fit, of "replicate n' 0"] by auto
  have "blit 0 (chunk o' n' ?img) (replicate n' 0) = chunk o' n' ?img" using fit by (simp add: blit_def)
  with r n' show "fsg_rd h ops dev c blk off n = (n, chunk (nat off) (nat n) ?img)"
    by (simp add: fsg_rd_def eq)
next
  have "length dev < 2 ^ 62" using rdy by (simp add: fsg_ready_def)
  moreover have "length (fsg_image desc (bx_info blk) dev) \<le> length dev" by (simp add: fsg_image_def)
  ultimately show "length (fsg_image desc (bx_info blk) dev) < 2 ^ 62" by linarith
qed

lemma tachyon_ex_length: "length tachyon_ex_img = 208" "length tachyon_ex_disk = 212"
  by (simp_all add: tachyon_ex_img_def tachyon_ex_entries_def efs_ex_node_def tachyon_ex_disk_def)

lemma tachyon_ex_good: "scsi_good scsi_ex_plat tachyon_ex_desc tachyon_ex_disk"
  using tachyon_ex_length by (simp add: scsi_good_def scsi_max_blks_def scsi_ex_plat_def tachyon_ex_desc_def)

lemma tachyon_ex_ready: "fsg_ready heap_ok tachyon_ex_desc (bx_info tachyon_ex_blk) tachyon_ex_disk"
  using tachyon_ex_length by (simp add: fsg_ready_def tachyon_ex_desc_def tachyon_ex_blk_def heap_ok_def)

lemma tachyon_ex_image: "fsg_image tachyon_ex_desc (bx_info tachyon_ex_blk) tachyon_ex_disk = tachyon_ex_img"
  using tachyon_ex_length by (simp add: fsg_image_def tachyon_ex_desc_def tachyon_ex_blk_def chunk_def tachyon_ex_disk_def)

lemma tachyon_ex_device:
  "efs_device (fsg_rd heap_ok (scsi_blk_ops scsi_disk scsi_ex_plat scsi_ex_cmd None) tachyon_ex_disk block_cache_initial tachyon_ex_blk)
     tachyon_ex_img"
proof -
  have "bx_desc tachyon_ex_blk = Some tachyon_ex_desc" by (simp add: tachyon_ex_blk_def)
  from fsg_device [where m = "\<lambda>_. tachyon_ex_disk", OF scsi_blk_driver [OF scsi_disk_ok] block_cache_initial_coherent this refl
      tachyon_ex_good tachyon_ex_ready] show ?thesis unfolding tachyon_ex_image .
qed

interpretation fsg: efs_device
  "fsg_rd heap_ok (scsi_blk_ops scsi_disk scsi_ex_plat scsi_ex_cmd None) tachyon_ex_disk block_cache_initial tachyon_ex_blk"
  tachyon_ex_img
  by (rule tachyon_ex_device)

text \<open>Reading a file with inline data from an EFS image.\<close>

lemma efs_read_file_inline:
  assumes dev: "efs_device rd img" and db: "efs_database img ctx ns"
    and root: "(s0, p0, e0) \<in> set (efs_entries ns)" "ent_self (inode_root ctx) e0"
    and path: "path = EFS_PATH_SEPARATOR # path'"
    and found: "efs_lookup (efs_entries ns) (inode_root ctx)
      (path_pieces [] (dropWhile (\<lambda>c. c = EFS_PATH_SEPARATOR) path)) = Some (s, p, e)"
    and e: "efs_entry_wf e" "ent_inline e" and mem: "malloc_ok h 4312" and b: "length buffer = sz"
  shows "efs_read_file h rd ctx path buffer (int sz) =
    Some (int (min sz (length (ent_data e))), blit 0 (take sz (ent_data e)) buffer)"
proof -
  obtain f where "efs_open h rd ctx path = Some (0, Some f)"
    "efs_read rd ctx f buffer 0 (int sz) = Some (int (length (take sz (ent_data e))), blit 0 (take sz (ent_data e)) buffer)"
    using efs_open_read_inline_lemma [OF dev db root path found e mem] b by (auto simp: Let_def)
  then show ?thesis by (simp add: efs_read_file_def min.commute)
qed

lemma ws_fields_ne: "ws_fields s \<noteq> []"
  by (cases s) auto

lemma ws_fields_spaces: "filter (\<lambda>w. w \<noteq> []) (ws_fields (dropWhile c_isspace s)) = filter (\<lambda>w. w \<noteq> []) (ws_fields s)"
  by (induction s) auto

lemma ws_fields_word:
  "ws_fields s = takeWhile (\<lambda>c. \<not> c_isspace c) s #
     (case dropWhile (\<lambda>c. \<not> c_isspace c) s of [] \<Rightarrow> [] | c # cs \<Rightarrow> ws_fields cs)"
  by (induction s) auto

lemma overlay_names_fields: "overlay_names s = filter (\<lambda>w. w \<noteq> []) (ws_fields s)"
proof (induction s rule: overlay_names.induct)
  case (1 s)
  let ?t = "dropWhile c_isspace s"
  let ?r = "dropWhile (\<lambda>c. \<not> c_isspace c) ?t"
  have f: "filter (\<lambda>w. w \<noteq> []) (ws_fields s) = filter (\<lambda>w. w \<noteq> []) (ws_fields ?t)" using ws_fields_spaces by simp
  show ?case
  proof (cases "?t = []")
    case True
    show ?thesis unfolding f overlay_names.simps [of s] Let_def True by simp
  next
    case False
    then have w: "takeWhile (\<lambda>c. \<not> c_isspace c) ?t \<noteq> []"
      using hd_dropWhile [of c_isspace s] by (cases ?t) auto
    have "filter (\<lambda>w. w \<noteq> []) (case r of [] \<Rightarrow> [] | c # cs \<Rightarrow> ws_fields cs) = overlay_names (drop 1 r)"
      if "overlay_names (drop 1 r) = filter (\<lambda>w. w \<noteq> []) (ws_fields (drop 1 r))" for r
      using that by (cases r) (simp_all add: overlay_names.simps [of "[]"])
    from this [OF 1 [OF refl False]]
    have "filter (\<lambda>w. w \<noteq> []) (case ?r of [] \<Rightarrow> [] | c # cs \<Rightarrow> ws_fields cs) = overlay_names (drop 1 ?r)" .
    then show ?thesis unfolding f ws_fields_word [of ?t] using False w by (simp add: overlay_names.simps [of s] Let_def)
  qed
qed

lemma ws_fields_map:
  "map length (ws_fields (map (\<lambda>c. if c = CHR 0x0D \<or> c = CHR 0x0A \<or> c = CHR 0x09 then CHR '' '' else c) s)) = map length (ws_fields s) \<and>
   ws_fields (map (\<lambda>c. if c = CHR 0x0D \<or> c = CHR 0x0A \<or> c = CHR 0x09 then CHR '' '' else c) s) = ws_fields s"
  by (induction s) (auto simp: c_isspace_def)

text \<open>C36: the overlays named in a list that begins with the prefix are processed in order, each once: they are the fields of the
  text between white space, without the empty ones.\<close>

theorem parse_overlay_list_fields:
  "parse_overlay_list (Some (''overlays='' @ s)) (Some f) ctx =
     (0, foldl (\<lambda>x name. snd (f name x)) ctx (filter (\<lambda>w. w \<noteq> []) (ws_fields s)))"
proof -
  have "strstr (''overlays='' @ s) ''overlays='' = Some (''overlays='' @ s)" by (rule strstr_here)
  then show ?thesis unfolding parse_overlay_list_def prod.case option.case Let_def overlay_names_fields
    using ws_fields_map [of s] by simp
qed

lemma wifi_setup_mac:
  assumes "efs_read_file h rd ctx (bytes_of_string ''/nvm/num/4678'') buffer 6 = Some (6, mac)"
    and "enet ''wlanaddr'' (replicate 6 0) = (False, buffer)" and "get_alias ''wlan'' = Some path"
  shows "wifi_setup h rd ctx enet get_alias (replicate 6 0) =
    Some (mac, [(path, ''local-mac-address'', mac), (path, ''mac-address'', mac)])"
  using assms by (simp add: wifi_setup_def del: replicate.simps)

lemma tachyon_ex_entries_wf: "list_all (\<lambda>(p, e). efs_entry_wf e) tachyon_ex_entries"
  by (simp add: tachyon_ex_entries_def efs_entry_wf_def efs_dir_entry_size_def de_size_def de_inode_item_size_def de_type_def
      le_field_def chunk_def)

lemma tachyon_ex_database: "efs_database tachyon_ex_img tachyon_ex_ctx tachyon_ex_nodes"
proof -
  have n: "chunk 128 18 tachyon_ex_img = efs_ex_node 62" by (simp add: chunk_def tachyon_ex_img_def efs_ex_node_def)
  have f: "le_field 8 2 (efs_ex_node 62) = 62" "node_next (efs_ex_node 62) = EFS_INVALID_SECTOR"
    by (simp_all add: efs_ex_node_def le_field_def chunk_def node_next_def)
  have c: "list_all (\<lambda>(p, e). chunk (128 + p) (length e) tachyon_ex_img = e) tachyon_ex_entries"
    by (simp add: tachyon_ex_entries_def chunk_def tachyon_ex_img_def efs_ex_node_def)
  have s: "efs_sector_at tachyon_ex_ctx 0 = 128" by (simp add: efs_sector_at_def tachyon_ex_ctx_def)
  show ?thesis
    using n f c tachyon_ex_entries_wf tachyon_ex_length(1)
    by (simp add: efs_database_def tachyon_ex_nodes_def efs_node_ok_def s tachyon_ex_entries_def)
      (simp add: efs_context_ok_def tachyon_ex_ctx_def)
qed

end
