(* ===== verification/Acpi_Table.thy ===== *)
theory Acpi_Table
  imports Prelude
begin

text \<open>
  ACPI table generation, the common part: lib/tables_csum.c, the helpers of lib/acpi/acpi_table.c
  (\<open>acpi_fill_header\<close>, the alignment helpers, \<open>acpi_add_table\<close>), lib/acpi/base.c and the reader
  lib/acpi/acpi.c.

  The tables are written through pointers into one memory, so the model has the memory as a map from
  addresses to bytes; a pointer is its address and \<open>NULL\<close> is 0. A structure access is a little-endian
  field at its offset (\<open>get_field\<close>, \<open>set_field\<close>), and a store truncates to the width of the field. The
  state \<open>acpi_st\<close> holds \<open>struct acpi_ctx\<close>, the memory, the item list of drivers/core/acpi.c, the heap,
  \<open>gd->acpi_start\<close> and the version numbers the build supplies.
\<close>

section \<open>Memory and state\<close>

type_synonym mem = "nat \<Rightarrow> byte"

definition mem_read :: "nat \<Rightarrow> nat \<Rightarrow> mem \<Rightarrow> buf" where
  "mem_read a n m = map m [a..<a + n]"

definition mem_write :: "nat \<Rightarrow> buf \<Rightarrow> mem \<Rightarrow> mem" where
  "mem_write a bs m = (\<lambda>x. if a \<le> x \<and> x < a + length bs then bs ! (x - a) else m x)"

text \<open>Type of table that was collected, and an entry of the array \<open>acpi_item\<close>.\<close>

datatype gen_type_t = TYPE_NONE | TYPE_SSDT | TYPE_DSDT | TYPE_OTHER

record acpi_item =
  it_dev :: "string option"
  it_writer :: "string option"
  it_type :: gen_type_t
  it_base :: nat
  it_buf :: "buf option"
  it_size :: int

record acpi_st =
  ac_base :: nat
  ac_current :: nat
  ac_tab_start :: nat
  ac_rsdp :: nat
  ac_rsdt :: nat
  ac_xsdt :: nat
  ac_facs :: nat
  ac_dsdt :: nat
  ac_mem :: mem
  ac_item :: "acpi_item list"
  ac_item_count :: nat
  ac_heap :: c_heap
  ac_start :: nat
  ac_version_num :: nat
  ac_version_num_patch :: nat

definition put_bytes :: "nat \<Rightarrow> buf \<Rightarrow> acpi_st \<Rightarrow> acpi_st" where
  "put_bytes a bs st = st\<lparr>ac_mem := mem_write a bs (ac_mem st)\<rparr>"

definition set_field :: "nat \<Rightarrow> nat \<Rightarrow> nat \<Rightarrow> acpi_st \<Rightarrow> acpi_st" where
  "set_field a n v st = put_bytes a (le_bytes n v) st"

definition get_field :: "nat \<Rightarrow> nat \<Rightarrow> acpi_st \<Rightarrow> nat" where
  "get_field a n st = le_nat (mem_read a n (ac_mem st))"

definition c_memset0 :: "nat \<Rightarrow> nat \<Rightarrow> acpi_st \<Rightarrow> acpi_st" where
  "c_memset0 a n st = put_bytes a (replicate n 0) st"

text \<open>Assignments to the fields of the structure at \<open>a\<close>: offset, width and value of each.\<close>

fun set_fields :: "nat \<Rightarrow> (nat \<times> nat \<times> nat) list \<Rightarrow> acpi_st \<Rightarrow> acpi_st" where
  "set_fields a [] st = st"
| "set_fields a ((off, n, v) # fs) st = set_fields a fs (set_field (a + off) n v st)"

section \<open>Checksums (lib/tables_csum.c)\<close>

definition table_compute_checksum :: "nat \<Rightarrow> nat \<Rightarrow> acpi_st \<Rightarrow> byte" where
  "table_compute_checksum v len st = foldl (\<lambda>checksum b. checksum - b) 0 (mem_read v len (ac_mem st))"

section \<open>Helpers of lib/acpi/acpi_table.c\<close>

definition OEM_REVISION :: "acpi_st \<Rightarrow> nat" where
  "OEM_REVISION st =
     (let v = ac_version_num st; p = ac_version_num_patch st in
      (((((push_bit 28 (v div 1000 mod 10) OR push_bit 24 (v div 100 mod 10)) OR
          push_bit 20 (v div 10 mod 10)) OR push_bit 16 (v mod 10)) OR
        push_bit 12 (p div 10 mod 10)) OR push_bit 8 (p mod 10)) OR 1)"

datatype acpi_tables =
    ACPITAB_BERT | ACPITAB_BGRT | ACPITAB_DBG2 | ACPITAB_DMAR | ACPITAB_DSDT | ACPITAB_ECDT
  | ACPITAB_FACS | ACPITAB_FADT | ACPITAB_GTDT | ACPITAB_HEST | ACPITAB_HPET | ACPITAB_IVRS
  | ACPITAB_MADT | ACPITAB_MCFG | ACPITAB_NHLT | ACPITAB_PPTT | ACPITAB_RSDP | ACPITAB_RSDT
  | ACPITAB_SLIT | ACPITAB_SPCR | ACPITAB_SPMI | ACPITAB_SRAT | ACPITAB_SSDT | ACPITAB_TCPA
  | ACPITAB_TPM2 | ACPITAB_VFCT | ACPITAB_XSDT

fun acpi_get_table_revision :: "acpi_tables \<Rightarrow> int" where
  "acpi_get_table_revision ACPITAB_FADT = 6"
| "acpi_get_table_revision ACPITAB_MADT = 4"
| "acpi_get_table_revision ACPITAB_MCFG = 1"
| "acpi_get_table_revision ACPITAB_TCPA = 2"
| "acpi_get_table_revision ACPITAB_TPM2 = 4"
| "acpi_get_table_revision ACPITAB_SSDT = 2"
| "acpi_get_table_revision ACPITAB_SRAT = 1"
| "acpi_get_table_revision ACPITAB_DMAR = 1"
| "acpi_get_table_revision ACPITAB_SLIT = 1"
| "acpi_get_table_revision ACPITAB_SPMI = 5"
| "acpi_get_table_revision ACPITAB_HPET = 1"
| "acpi_get_table_revision ACPITAB_VFCT = 1"
| "acpi_get_table_revision ACPITAB_IVRS = 1"
| "acpi_get_table_revision ACPITAB_DBG2 = 0"
| "acpi_get_table_revision ACPITAB_FACS = 1"
| "acpi_get_table_revision ACPITAB_RSDT = 1"
| "acpi_get_table_revision ACPITAB_XSDT = 1"
| "acpi_get_table_revision ACPITAB_RSDP = 2"
| "acpi_get_table_revision ACPITAB_HEST = 1"
| "acpi_get_table_revision ACPITAB_NHLT = 5"
| "acpi_get_table_revision ACPITAB_BERT = 1"
| "acpi_get_table_revision ACPITAB_BGRT = 1"
| "acpi_get_table_revision ACPITAB_SPCR = 2"
| "acpi_get_table_revision ACPITAB_PPTT = 1"
| "acpi_get_table_revision ACPITAB_GTDT = 2"
| "acpi_get_table_revision _ = - EINVAL"

text \<open>The store of an \<open>int\<close> into a byte field.\<close>

definition rev_byte :: "acpi_tables \<Rightarrow> nat" where
  "rev_byte t = nat (acpi_get_table_revision t mod 256)"

definition acpi_fill_header :: "nat \<Rightarrow> string \<Rightarrow> acpi_st \<Rightarrow> acpi_st" where
  "acpi_fill_header header signature st =
     set_field (header + 32) 4 0
      (put_bytes (header + 28) (bytes_of_string ''INTL'')
        (set_field (header + 24) 4 (OEM_REVISION st)
          (put_bytes (header + 16) (bytes_of_string ''U-BOOTBL'')
            (put_bytes (header + 10) (bytes_of_string ''U-BOOT'')
              (put_bytes header (take 4 (bytes_of_string signature)) st)))))"

definition ALIGN :: "nat \<Rightarrow> nat \<Rightarrow> nat" where
  "ALIGN x a = (x + (a - 1)) div a * a"

definition acpi_align :: "acpi_st \<Rightarrow> acpi_st" where
  "acpi_align st = st\<lparr>ac_current := ALIGN (ac_current st) 16\<rparr>"

definition acpi_align64 :: "acpi_st \<Rightarrow> acpi_st" where
  "acpi_align64 st = st\<lparr>ac_current := ALIGN (ac_current st) 64\<rparr>"

definition acpi_inc :: "nat \<Rightarrow> acpi_st \<Rightarrow> acpi_st" where
  "acpi_inc amount st = st\<lparr>ac_current := ac_current st + amount\<rparr>"

definition acpi_inc_align :: "nat \<Rightarrow> acpi_st \<Rightarrow> acpi_st" where
  "acpi_inc_align amount st = acpi_align (acpi_inc amount st)"

definition MAX_ACPI_TABLES :: nat where
  "MAX_ACPI_TABLES = 32"

text \<open>The loop for the first free entry: of \<open>k\<close> entries of width \<open>w\<close> left, from index \<open>i\<close>.\<close>

fun sdt_free_entry :: "acpi_st \<Rightarrow> nat \<Rightarrow> nat \<Rightarrow> nat \<Rightarrow> nat \<Rightarrow> nat" where
  "sdt_free_entry st sdt w i 0 = i"
| "sdt_free_entry st sdt w i (Suc k) =
     (if get_field (sdt + 36 + w * i) w st = 0 then i else sdt_free_entry st sdt w (i + 1) k)"

text \<open>The store of the checksum the source computes over a table whose checksum byte it zeroed.\<close>

definition set_checksum :: "nat \<Rightarrow> acpi_st \<Rightarrow> acpi_st" where
  "set_checksum h st = put_bytes (h + 9) [table_compute_checksum h (get_field (h + 4) 4 st) st] st"

text \<open>Add an entry to one of the two root tables, \<open>w\<close> being the size of its entries.\<close>

definition sdt_add_entry :: "nat \<Rightarrow> nat \<Rightarrow> nat \<Rightarrow> acpi_st \<Rightarrow> int \<times> acpi_st" where
  "sdt_add_entry sdt w table st =
     (let i = sdt_free_entry st sdt w 0 MAX_ACPI_TABLES in
      if i \<ge> MAX_ACPI_TABLES then (- E2BIG, st)
      else
        let st = set_field (sdt + 36 + w * i) w table st;
            st = set_field (sdt + 4) 4 (36 + w * (i + 1)) st;
            st = set_field (sdt + 9) 1 0 st
        in (0, set_checksum sdt st))"

definition acpi_add_table :: "nat \<Rightarrow> acpi_st \<Rightarrow> int \<times> acpi_st" where
  "acpi_add_table table st =
     (case (if ac_rsdt st \<noteq> 0 then sdt_add_entry (ac_rsdt st) 4 table st else (0, st)) of (ret, st) \<Rightarrow>
      if ret \<noteq> 0 then (ret, st)
      else if ac_xsdt st \<noteq> 0 then sdt_add_entry (ac_xsdt st) 8 table st
      else (0, st))"

section \<open>The root tables (lib/acpi/base.c)\<close>

definition SZ_RSDP :: nat where "SZ_RSDP = 40"
definition SZ_RSDT :: nat where "SZ_RSDT = 36 + 4 * 32"
definition SZ_XSDT :: nat where "SZ_XSDT = 36 + 8 * 32"

definition acpi_write_rsdp :: "nat \<Rightarrow> nat \<Rightarrow> nat \<Rightarrow> acpi_st \<Rightarrow> acpi_st" where
  "acpi_write_rsdp rsdp rsdt xsdt st =
     (let st = c_memset0 rsdp SZ_RSDP st;
          st = put_bytes rsdp (bytes_of_string ''RSD PTR '') st;
          st = put_bytes (rsdp + 9) (bytes_of_string ''U-BOOT'') st;
          st = (if rsdt \<noteq> 0 then set_field (rsdp + 16) 4 rsdt st else st);
          st = (if xsdt \<noteq> 0 then set_field (rsdp + 24) 8 xsdt st else st);
          st = set_field (rsdp + 20) 4 SZ_RSDP st;
          st = set_field (rsdp + 15) 1 2 st;
          st = put_bytes (rsdp + 8) [table_compute_checksum rsdp 20 st] st
      in put_bytes (rsdp + 32) [table_compute_checksum rsdp SZ_RSDP st] st)"

definition acpi_write_rsdt :: "nat \<Rightarrow> acpi_st \<Rightarrow> acpi_st" where
  "acpi_write_rsdt rsdt st =
     (let st = acpi_fill_header rsdt ''RSDT'' st;
          st = set_field (rsdt + 4) 4 SZ_RSDT st;
          st = set_field (rsdt + 8) 1 1 st
      in put_bytes (rsdt + 9) [table_compute_checksum rsdt SZ_RSDT st] st)"

definition acpi_write_xsdt :: "nat \<Rightarrow> acpi_st \<Rightarrow> acpi_st" where
  "acpi_write_xsdt xsdt st =
     (let st = acpi_fill_header xsdt ''XSDT'' st;
          st = set_field (xsdt + 4) 4 SZ_XSDT st;
          st = set_field (xsdt + 8) 1 1 st
      in put_bytes (xsdt + 9) [table_compute_checksum xsdt SZ_XSDT st] st)"

text \<open>The first half of \<open>acpi_write_base\<close> places the root tables, the second writes them.\<close>

definition acpi_base_layout :: "acpi_st \<Rightarrow> acpi_st" where
  "acpi_base_layout st =
     (let st = st\<lparr>ac_rsdp := ac_current st\<rparr>;
          st = acpi_inc_align SZ_RSDP st;
          st = (if ac_current st < 0x100000000 - 0x10000
                then acpi_inc_align SZ_RSDT (st\<lparr>ac_rsdt := ac_current st\<rparr>)
                else st\<lparr>ac_rsdt := 0\<rparr>);
          st = st\<lparr>ac_xsdt := ac_current st\<rparr>
      in acpi_inc_align SZ_XSDT st)"

definition acpi_write_base :: "acpi_st \<Rightarrow> int \<times> acpi_st" where
  "acpi_write_base st =
     (let st = acpi_base_layout st;
          st = c_memset0 (ac_base st) (ac_current st - ac_base st) st;
          st = acpi_write_rsdp (ac_rsdp st) (ac_rsdt st) (ac_xsdt st) st;
          st = (if ac_rsdt st \<noteq> 0 then acpi_write_rsdt (ac_rsdt st) st else st)
      in (0, acpi_write_xsdt (ac_xsdt st) st))"

section \<open>Reading the tables back (lib/acpi/acpi.c)\<close>

text \<open>What the loop returns once it has reached the FADT at \<open>hdr\<close>.\<close>

definition fadt_dsdt :: "acpi_st \<Rightarrow> nat \<Rightarrow> nat" where
  "fadt_dsdt st hdr =
     (if get_field (hdr + 8) 1 st \<ge> 3 \<and> get_field (hdr + 140) 8 st \<noteq> 0 then get_field (hdr + 140) 8 st
      else if get_field (hdr + 40) 4 st \<noteq> 0 then get_field (hdr + 40) 4 st else 0)"

definition fadt_facs :: "acpi_st \<Rightarrow> nat \<Rightarrow> nat" where
  "fadt_facs st hdr =
     (if get_field (hdr + 8) 1 st \<ge> 3 \<and> get_field (hdr + 132) 8 st \<noteq> 0 then get_field (hdr + 132) 8 st
      else if get_field (hdr + 36) 4 st \<noteq> 0 then get_field (hdr + 36) 4 st else 0)"

fun find_table_loop :: "acpi_st \<Rightarrow> buf \<Rightarrow> nat list \<Rightarrow> nat" where
  "find_table_loop st sig [] = 0"
| "find_table_loop st sig (hdr # hdrs) =
     (let s = mem_read hdr 4 (ac_mem st) in
      if s = sig then hdr
      else if s = bytes_of_string ''FACP'' \<and> sig = bytes_of_string ''DSDT'' then fadt_dsdt st hdr
      else if s = bytes_of_string ''FACP'' \<and> sig = bytes_of_string ''FACS'' then fadt_facs st hdr
      else find_table_loop st sig hdrs)"

text \<open>
  \<open>len\<close> is an \<open>int\<close>, so the subtraction of a length below the header size is negative and
  \<open>count = len / sizeof(u64)\<close> is an unsigned division of the converted value.
\<close>

definition entry_count :: "nat \<Rightarrow> nat \<Rightarrow> nat" where
  "entry_count len w = nat (to_int (to_ulong (to_int (int len - 36)) div int w))"

definition acpi_find_table :: "string \<Rightarrow> acpi_st \<Rightarrow> nat" where
  "acpi_find_table sig st =
     (let rsdp = ac_start st in
      if rsdp = 0 then 0
      else let x = get_field (rsdp + 24) 8 st; r = get_field (rsdp + 16) 4 st in
        if x \<noteq> 0 then
          find_table_loop st (take 4 (bytes_of_string sig))
            (map (\<lambda>i. get_field (x + 36 + 8 * i) 8 st) [0..<entry_count (get_field (x + 4) 4 st) 8])
        else if r = 0 then 0
        else
          find_table_loop st (take 4 (bytes_of_string sig))
            (map (\<lambda>i. get_field (r + 36 + 4 * i) 4 st) [0..<entry_count (get_field (r + 4) 4 st) 4]))"

section \<open>Specification\<close>

text \<open>The sum of a region of memory, which the firmware makes zero.\<close>

definition csum :: "nat \<Rightarrow> nat \<Rightarrow> acpi_st \<Rightarrow> byte" where
  "csum a n st = sum_list (mem_read a n (ac_mem st))"

text \<open>A complete table at \<open>a\<close> that ends before \<open>c\<close> and sums to zero over the length in its header.\<close>

definition table_ok :: "acpi_st \<Rightarrow> nat \<Rightarrow> nat \<Rightarrow> bool" where
  "table_ok st a c \<longleftrightarrow>
     36 \<le> get_field (a + 4) 4 st \<and> a + get_field (a + 4) 4 st \<le> c \<and> csum a (get_field (a + 4) 4 st) st = 0"

definition rsdp_ok :: "acpi_st \<Rightarrow> bool" where
  "rsdp_ok st \<longleftrightarrow>
     mem_read (ac_rsdp st) 8 (ac_mem st) = bytes_of_string ''RSD PTR '' \<and>
     csum (ac_rsdp st) 20 st = 0 \<and> csum (ac_rsdp st) SZ_RSDP st = 0 \<and>
     get_field (ac_rsdp st + 24) 8 st = ac_xsdt st"

text \<open>
  The XSDT lists exactly \<open>tabs\<close>. Before the first table is added its length covers all 32 empty
  entries, afterwards the entries in use.
\<close>

definition xsdt_length :: "nat list \<Rightarrow> nat" where
  "xsdt_length tabs = (if tabs = [] then SZ_XSDT else 36 + 8 * length tabs)"

definition xsdt_entries :: "acpi_st \<Rightarrow> nat list" where
  "xsdt_entries st = map (\<lambda>i. get_field (ac_xsdt st + 36 + 8 * i) 8 st) [0..<MAX_ACPI_TABLES]"

definition xsdt_ok :: "acpi_st \<Rightarrow> nat list \<Rightarrow> bool" where
  "xsdt_ok st tabs \<longleftrightarrow>
     length tabs \<le> MAX_ACPI_TABLES \<and>
     mem_read (ac_xsdt st) 4 (ac_mem st) = bytes_of_string ''XSDT'' \<and>
     get_field (ac_xsdt st + 4) 4 st = xsdt_length tabs \<and>
     csum (ac_xsdt st) (xsdt_length tabs) st = 0 \<and>
     xsdt_entries st = tabs @ replicate (MAX_ACPI_TABLES - length tabs) 0"

text \<open>
  The RSDT, where there is one, sums to zero and its entries behind the tables in use are free (an
  entry holds 32 bits of an address).
\<close>

definition rsdt_ok :: "acpi_st \<Rightarrow> nat list \<Rightarrow> bool" where
  "rsdt_ok st tabs \<longleftrightarrow>
     table_ok st (ac_rsdt st) (ac_rsdt st + SZ_RSDT) \<and>
     list_all (\<lambda>i. get_field (ac_rsdt st + 36 + 4 * i) 4 st = 0) [length tabs..<MAX_ACPI_TABLES]"

text \<open>
  Well-formedness of the tables below \<open>c\<close>: the root tables are in place in front of the others, valid,
  and every table the XSDT lists is complete, lies between the XSDT and \<open>c\<close> and sums to zero.
\<close>

definition layout_ok :: "acpi_st \<Rightarrow> nat \<Rightarrow> bool" where
  "layout_ok st c \<longleftrightarrow>
     0 < ac_base st \<and> ac_base st + 2 ^ 31 \<le> 2 ^ 64 \<and> ac_rsdp st = ac_base st \<and> ac_start st = ac_base st \<and>
     ac_base st + SZ_RSDP \<le> ac_xsdt st \<and> ac_xsdt st + SZ_XSDT \<le> c \<and>
     (ac_rsdt st = 0 \<or> ac_base st + SZ_RSDP \<le> ac_rsdt st \<and> ac_rsdt st + SZ_RSDT \<le> ac_xsdt st)"

definition acpi_wf :: "acpi_st \<Rightarrow> nat \<Rightarrow> nat list \<Rightarrow> bool" where
  "acpi_wf st c tabs \<longleftrightarrow>
     layout_ok st c \<and> rsdp_ok st \<and> xsdt_ok st tabs \<and>
     (ac_rsdt st = 0 \<or> rsdt_ok st tabs) \<and>
     list_all (\<lambda>a. ac_xsdt st + SZ_XSDT \<le> a \<and> a < 2 ^ 64 \<and> table_ok st a c) tabs"

text \<open>Two states with the same context pointers, so that the root tables are the same ones.\<close>

definition same_roots :: "acpi_st \<Rightarrow> acpi_st \<Rightarrow> bool" where
  "same_roots st st' \<longleftrightarrow>
     ac_base st' = ac_base st \<and> ac_rsdp st' = ac_rsdp st \<and> ac_rsdt st' = ac_rsdt st \<and>
     ac_xsdt st' = ac_xsdt st \<and> ac_start st' = ac_start st"

text \<open>The states differ only in the memory at \<open>lo..<hi\<close>.\<close>

definition writes_only :: "nat \<Rightarrow> nat \<Rightarrow> acpi_st \<Rightarrow> acpi_st \<Rightarrow> bool" where
  "writes_only lo hi st st' \<longleftrightarrow>
     st' = st\<lparr>ac_mem := ac_mem st'\<rparr> \<and> (\<forall>x. x < lo \<or> hi \<le> x \<longrightarrow> ac_mem st' x = ac_mem st x)"

section \<open>Specification of the proofs\<close>

definition add_tab :: "nat list \<Rightarrow> nat \<Rightarrow> nat list" where
  "add_tab tabs a = (if length tabs < MAX_ACPI_TABLES then tabs @ [a] else tabs)"

section \<open>Lemmas\<close>

named_theorems acpi_simps

lemma length_mem_read [simp]: "length (mem_read a n m) = n"
  by (simp add: mem_read_def)

lemma mem_read_nth [simp]: "i < n \<Longrightarrow> mem_read a n m ! i = m (a + i)"
  by (simp add: mem_read_def)

lemma mem_read_cong: "(\<And>x. a \<le> x \<Longrightarrow> x < a + n \<Longrightarrow> m' x = m x) \<Longrightarrow> mem_read a n m' = mem_read a n m"
  by (simp add: mem_read_def)

lemma mem_read_write_disjoint:
  "b + n \<le> a \<or> a + length bs \<le> b \<Longrightarrow> mem_read b n (mem_write a bs m) = mem_read b n m"
  by (rule mem_read_cong) (auto simp: mem_write_def)

lemma mem_read_write_same: "length bs = n \<Longrightarrow> mem_read a n (mem_write a bs m) = bs"
  by (rule nth_equalityI) (simp_all add: mem_write_def)

lemma mem_write_app [acpi_simps]:
  "mem_write a bs m x = (if a \<le> x \<and> x < a + length bs then bs ! (x - a) else m x)"
  by (simp add: mem_write_def)

lemma put_bytes_sel [simp]:
  "ac_base (put_bytes a bs st) = ac_base st" "ac_current (put_bytes a bs st) = ac_current st"
  "ac_tab_start (put_bytes a bs st) = ac_tab_start st" "ac_rsdp (put_bytes a bs st) = ac_rsdp st"
  "ac_rsdt (put_bytes a bs st) = ac_rsdt st" "ac_xsdt (put_bytes a bs st) = ac_xsdt st"
  "ac_facs (put_bytes a bs st) = ac_facs st" "ac_dsdt (put_bytes a bs st) = ac_dsdt st"
  "ac_item (put_bytes a bs st) = ac_item st" "ac_item_count (put_bytes a bs st) = ac_item_count st"
  "ac_heap (put_bytes a bs st) = ac_heap st" "ac_start (put_bytes a bs st) = ac_start st"
  "ac_version_num (put_bytes a bs st) = ac_version_num st"
  "ac_version_num_patch (put_bytes a bs st) = ac_version_num_patch st"
  "ac_mem (put_bytes a bs st) = mem_write a bs (ac_mem st)"
  by (simp_all add: put_bytes_def)

lemma get_field_put_disjoint [acpi_simps]:
  "b + n \<le> a \<or> a + length bs \<le> b \<Longrightarrow> get_field b n (put_bytes a bs st) = get_field b n st"
  by (simp add: get_field_def mem_read_write_disjoint)

lemma get_field_set_same [acpi_simps]: "get_field a n (set_field a n v st) = v mod 256 ^ n"
  by (simp add: get_field_def set_field_def mem_read_write_same le_nat_le_bytes)

lemma get_field_bound: "get_field a n st < 256 ^ n"
  using le_nat_bound [of "mem_read a n (ac_mem st)"] by (simp add: get_field_def)

lemma get_field_1: "get_field a 1 st = unat (ac_mem st a)"
  by (simp add: get_field_def mem_read_def)

lemma get_field_put_same [acpi_simps]: "get_field a n (put_bytes a (le_bytes n v) st) = v mod 256 ^ n"
  using get_field_set_same by (simp add: set_field_def)

lemma le_nat_zeros [simp]: "le_nat (replicate n 0) = 0"
  by (induction n) simp_all

lemma get_field_zeros [acpi_simps]:
  "a \<le> b \<Longrightarrow> b + n \<le> a + k \<Longrightarrow> get_field b n (put_bytes a (replicate k 0) st) = 0"
proof -
  assume "a \<le> b" "b + n \<le> a + k"
  then have "mem_read b n (mem_write a (replicate k 0) (ac_mem st)) = replicate n 0"
    by (intro nth_equalityI) (auto simp: mem_write_def)
  then show ?thesis by (simp add: get_field_def)
qed

lemma get_field_cong:
  "(\<And>x. a \<le> x \<Longrightarrow> x < a + n \<Longrightarrow> ac_mem st' x = ac_mem st x) \<Longrightarrow> get_field a n st' = get_field a n st"
  unfolding get_field_def by (rule arg_cong [OF mem_read_cong])

lemma csum_cong:
  "(\<And>x. a \<le> x \<Longrightarrow> x < a + n \<Longrightarrow> ac_mem st' x = ac_mem st x) \<Longrightarrow> csum a n st' = csum a n st"
  unfolding csum_def by (rule arg_cong [OF mem_read_cong])

lemma mem_read_Suc: "mem_read a (Suc n) m = mem_read a n m @ [m (a + n)]"
  by (simp add: mem_read_def)

lemma csum_Suc: "csum a (Suc n) st = csum a n st + ac_mem st (a + n)"
  by (simp add: csum_def mem_read_Suc)

lemma csum_put_byte:
  assumes "i < n"
  shows "csum a n (put_bytes (a + i) [b] st) = csum a n st - ac_mem st (a + i) + b"
  using assms
proof (induction n)
  case (Suc n)
  show ?case
  proof (cases "i = n")
    case True
    have "csum a n (put_bytes (a + i) [b] st) = csum a n st"
      by (rule csum_cong) (auto simp: True mem_write_def)
    moreover have "ac_mem (put_bytes (a + i) [b] st) (a + n) = b" by (simp add: True mem_write_def)
    ultimately show ?thesis unfolding csum_Suc True by simp
  next
    case False
    then have "csum a n (put_bytes (a + i) [b] st) = csum a n st - ac_mem st (a + i) + b"
      using Suc by simp
    moreover have "ac_mem (put_bytes (a + i) [b] st) (a + n) = ac_mem st (a + n)"
      using False Suc.prems by (simp add: mem_write_def)
    ultimately show ?thesis unfolding csum_Suc by simp
  qed
qed simp

lemma foldl_minus: "foldl (\<lambda>c b. c - b) z bs = z - sum_list (bs :: byte list)"
  by (induction bs arbitrary: z) (simp_all add: algebra_simps)

lemma table_compute_checksum_csum: "table_compute_checksum a n st = - csum a n st"
  by (simp add: table_compute_checksum_def csum_def foldl_minus)

lemma checksum_closes:
  assumes "ac_mem st (a + i) = 0" "i < n"
  shows "csum a n (put_bytes (a + i) [table_compute_checksum a n st] st) = 0"
  using assms csum_put_byte by (simp add: table_compute_checksum_csum)

lemma set_checksum_ok:
  assumes z: "ac_mem st (a + 9) = 0" and l: "36 \<le> get_field (a + 4) 4 st"
    and c: "a + get_field (a + 4) 4 st \<le> c"
  shows "table_ok (set_checksum a st) a c"
proof -
  have f: "get_field (a + 4) 4 (set_checksum a st) = get_field (a + 4) 4 st"
    by (simp add: set_checksum_def acpi_simps)
  have "csum a (get_field (a + 4) 4 st) (set_checksum a st) = 0"
    unfolding set_checksum_def by (rule checksum_closes) (use z l in simp_all)
  then show ?thesis using l c by (simp add: table_ok_def f)
qed

lemma sdt_free_entry_takeWhile:
  "sdt_free_entry st sdt w i k =
     i + length (takeWhile (\<lambda>e. e \<noteq> 0) (map (\<lambda>j. get_field (sdt + 36 + w * j) w st) [i..<i + k]))"
proof (induction k arbitrary: i)
  case (Suc k)
  have "[i..<i + Suc k] = i # [Suc i..<Suc i + k]" by (simp add: upt_conv_Cons)
  then show ?case using Suc [of "i + 1"] by simp
qed simp

lemma xsdt_free_entry:
  assumes "xsdt_ok st tabs" "0 \<notin> set tabs"
  shows "sdt_free_entry st (ac_xsdt st) 8 0 MAX_ACPI_TABLES = length tabs"
proof -
  have "map (\<lambda>j. get_field (ac_xsdt st + 36 + 8 * j) 8 st) [0..<MAX_ACPI_TABLES] =
      tabs @ replicate (MAX_ACPI_TABLES - length tabs) 0"
    using assms(1) by (simp add: xsdt_ok_def xsdt_entries_def)
  moreover have "takeWhile (\<lambda>e. e \<noteq> 0) (tabs @ replicate n 0) = tabs" for n
    using assms(2) by (subst takeWhile_append2) (auto simp: takeWhile_replicate intro!: gr0I)
  ultimately show ?thesis unfolding sdt_free_entry_takeWhile by simp
qed

lemma sdt_free_entry_le: "sdt_free_entry st sdt w i k \<le> i + k"
proof (induction k arbitrary: i)
  case (Suc k)
  then show ?case using Suc [of "i + 1"] by simp
qed simp

lemma sdt_add_entry_cases:
  assumes "sdt_add_entry sdt w table st = (r, st')"
  obtains (full) "r = - E2BIG" "st' = st" "sdt_free_entry st sdt w 0 MAX_ACPI_TABLES \<ge> MAX_ACPI_TABLES"
  | (added) i where "i = sdt_free_entry st sdt w 0 MAX_ACPI_TABLES" "i < MAX_ACPI_TABLES" "r = 0"
      "st' = set_checksum sdt (set_field (sdt + 9) 1 0 (set_field (sdt + 4) 4 (36 + w * (i + 1))
         (set_field (sdt + 36 + w * i) w table st)))"
  using assms by (auto simp: sdt_add_entry_def Let_def split: if_splits)

lemma set_sel [simp]:
  "ac_base (set_field a n v st) = ac_base st" "ac_current (set_field a n v st) = ac_current st"
  "ac_tab_start (set_field a n v st) = ac_tab_start st" "ac_rsdp (set_field a n v st) = ac_rsdp st"
  "ac_rsdt (set_field a n v st) = ac_rsdt st" "ac_xsdt (set_field a n v st) = ac_xsdt st"
  "ac_facs (set_field a n v st) = ac_facs st" "ac_dsdt (set_field a n v st) = ac_dsdt st"
  "ac_item (set_field a n v st) = ac_item st" "ac_item_count (set_field a n v st) = ac_item_count st"
  "ac_heap (set_field a n v st) = ac_heap st" "ac_start (set_field a n v st) = ac_start st"
  "ac_mem (set_field a n v st) = mem_write a (le_bytes n v) (ac_mem st)"
  by (simp_all add: set_field_def)

lemma set_checksum_sel [simp]:
  "ac_base (set_checksum a st) = ac_base st" "ac_current (set_checksum a st) = ac_current st"
  "ac_tab_start (set_checksum a st) = ac_tab_start st" "ac_rsdp (set_checksum a st) = ac_rsdp st"
  "ac_rsdt (set_checksum a st) = ac_rsdt st" "ac_xsdt (set_checksum a st) = ac_xsdt st"
  "ac_facs (set_checksum a st) = ac_facs st" "ac_dsdt (set_checksum a st) = ac_dsdt st"
  "ac_item (set_checksum a st) = ac_item st" "ac_item_count (set_checksum a st) = ac_item_count st"
  "ac_heap (set_checksum a st) = ac_heap st" "ac_start (set_checksum a st) = ac_start st"
  by (simp_all add: set_checksum_def)

lemma set_checksum_mem: "x \<noteq> a + 9 \<Longrightarrow> ac_mem (set_checksum a st) x = ac_mem st x"
  by (auto simp: set_checksum_def mem_write_def)

lemma get_field_set_checksum [acpi_simps]:
  "b + n \<le> a + 9 \<or> a + 10 \<le> b \<Longrightarrow> get_field b n (set_checksum a st) = get_field b n st"
  unfolding set_checksum_def by (rule get_field_put_disjoint) auto

lemma get_field_set_disjoint [acpi_simps]:
  "b + n \<le> a \<or> a + k \<le> b \<Longrightarrow> get_field b n (set_field a k v st) = get_field b n st"
  by (simp add: set_field_def acpi_simps)

lemma mem_set_field: "x < a \<or> a + n \<le> x \<Longrightarrow> ac_mem (set_field a n v st) x = ac_mem st x"
  by (auto simp: mem_write_def)

lemma writes_only_refl [simp]: "writes_only lo hi st st"
  by (simp add: writes_only_def)

lemma writes_only_put:
  assumes "writes_only lo hi st s" "lo \<le> a" "a + length bs \<le> hi"
  shows "writes_only lo hi st (put_bytes a bs s)"
proof -
  obtain m where s: "s = st\<lparr>ac_mem := m\<rparr>" using assms(1) by (auto simp: writes_only_def)
  show ?thesis using assms unfolding writes_only_def s by (auto simp: put_bytes_def mem_write_def)
qed

lemma writes_only_set:
  "writes_only lo hi st s \<Longrightarrow> lo \<le> a \<Longrightarrow> a + n \<le> hi \<Longrightarrow> writes_only lo hi st (set_field a n v s)"
  unfolding set_field_def by (rule writes_only_put) simp_all

lemma writes_only_memset:
  "writes_only lo hi st s \<Longrightarrow> lo \<le> a \<Longrightarrow> a + n \<le> hi \<Longrightarrow> writes_only lo hi st (c_memset0 a n s)"
  unfolding c_memset0_def by (rule writes_only_put) simp_all

lemma writes_only_checksum:
  "writes_only lo hi st s \<Longrightarrow> lo \<le> a + 9 \<Longrightarrow> a + 10 \<le> hi \<Longrightarrow> writes_only lo hi st (set_checksum a s)"
  unfolding set_checksum_def by (rule writes_only_put) simp_all

lemma writes_only_fields:
  assumes "writes_only lo hi st s" "list_all (\<lambda>(off, n, v). lo \<le> a + off \<and> a + off + n \<le> hi) fs"
  shows "writes_only lo hi st (set_fields a fs s)"
  using assms
proof (induction fs arbitrary: s)
  case (Cons f fs)
  obtain off n v where f: "f = (off, n, v)" by (cases f)
  have "writes_only lo hi st (set_field (a + off) n v s)"
    using Cons.prems f by (intro writes_only_set) simp_all
  then show ?case using Cons f by simp
qed simp

lemma writes_only_header:
  assumes "writes_only lo hi st s" "lo \<le> h" "h + 36 \<le> hi"
  shows "writes_only lo hi st (acpi_fill_header h sig s)"
  unfolding acpi_fill_header_def using assms
  by (intro writes_only_set writes_only_put) (simp_all add: bytes_of_string_def)

lemmas writes_only_intros =
  writes_only_put writes_only_set writes_only_memset writes_only_checksum writes_only_fields writes_only_header

lemma writes_only_trans:
  assumes "writes_only lo hi st s" "writes_only lo' hi' s s'" "l \<le> lo" "l \<le> lo'" "hi \<le> h" "hi' \<le> h"
  shows "writes_only l h st s'"
proof -
  obtain m where s: "s = st\<lparr>ac_mem := m\<rparr>" using assms(1) by (auto simp: writes_only_def)
  obtain m' where s': "s' = s\<lparr>ac_mem := m'\<rparr>" using assms(2) by (auto simp: writes_only_def)
  show ?thesis using assms unfolding writes_only_def s' s by auto
qed

lemma writes_only_mono: "writes_only lo hi st s \<Longrightarrow> l \<le> lo \<Longrightarrow> hi \<le> h \<Longrightarrow> writes_only l h st s"
  by (auto simp: writes_only_def)

lemma writes_only_sel:
  assumes "writes_only lo hi st s"
  shows "ac_base s = ac_base st" "ac_current s = ac_current st" "ac_tab_start s = ac_tab_start st"
    "ac_rsdp s = ac_rsdp st" "ac_rsdt s = ac_rsdt st" "ac_xsdt s = ac_xsdt st" "ac_facs s = ac_facs st"
    "ac_dsdt s = ac_dsdt st" "ac_item s = ac_item st" "ac_item_count s = ac_item_count st"
    "ac_heap s = ac_heap st" "ac_start s = ac_start st" "same_roots st s"
proof -
  obtain m where s: "s = st\<lparr>ac_mem := m\<rparr>" using assms by (auto simp: writes_only_def)
  show "ac_base s = ac_base st" "ac_current s = ac_current st" "ac_tab_start s = ac_tab_start st"
    "ac_rsdp s = ac_rsdp st" "ac_rsdt s = ac_rsdt st" "ac_xsdt s = ac_xsdt st" "ac_facs s = ac_facs st"
    "ac_dsdt s = ac_dsdt st" "ac_item s = ac_item st" "ac_item_count s = ac_item_count st"
    "ac_heap s = ac_heap st" "ac_start s = ac_start st" "same_roots st s"
    by (simp_all add: s same_roots_def)
qed

lemma writes_only_mem: "writes_only lo hi st s \<Longrightarrow> x < lo \<or> hi \<le> x \<Longrightarrow> ac_mem s x = ac_mem st x"
  unfolding writes_only_def by blast

lemma writes_only_field:
  "writes_only lo hi st s \<Longrightarrow> a + n \<le> lo \<or> hi \<le> a \<Longrightarrow> get_field a n s = get_field a n st"
  by (rule get_field_cong) (auto simp: writes_only_def)

lemma writes_only_csum:
  "writes_only lo hi st s \<Longrightarrow> a + n \<le> lo \<or> hi \<le> a \<Longrightarrow> csum a n s = csum a n st"
  by (rule csum_cong) (auto simp: writes_only_def)

lemma writes_only_read:
  "writes_only lo hi st s \<Longrightarrow> a + n \<le> lo \<or> hi \<le> a \<Longrightarrow> mem_read a n (ac_mem s) = mem_read a n (ac_mem st)"
  by (rule mem_read_cong) (auto simp: writes_only_def)

text \<open>An entry is added inside the root table, and the table then sums to zero.\<close>

lemma SZ_sdt: "36 + 4 * MAX_ACPI_TABLES = SZ_RSDT" "36 + 8 * MAX_ACPI_TABLES = SZ_XSDT"
  by (simp_all add: SZ_RSDT_def SZ_XSDT_def MAX_ACPI_TABLES_def)

lemma sdt_add_entry_ok:
  assumes "sdt_add_entry sdt w table st = (r, st')" and w: "0 < w" "w \<le> 8"
  shows "writes_only sdt (sdt + (36 + w * MAX_ACPI_TABLES)) st st' \<and>
    (r = 0 \<longrightarrow> table_ok st' sdt (sdt + (36 + w * MAX_ACPI_TABLES))) \<and> (r = 0 \<or> r = - E2BIG)"
  using assms(1)
proof (cases rule: sdt_add_entry_cases)
  case (added i)
  let ?s1 = "set_field (sdt + 36 + w * i) w table st"
  let ?s2 = "set_field (sdt + 4) 4 (36 + w * (i + 1)) ?s1"
  let ?s = "set_field (sdt + 9) 1 0 ?s2"
  have wi: "w * (i + 1) \<le> w * MAX_ACPI_TABLES" using added(2) by (intro mult_le_mono2) simp
  have small: "36 + w * (i + 1) < 256 ^ 4"
    using mult_le_mono [OF w(2), of "i + 1" 32] added(2) by (simp add: MAX_ACPI_TABLES_def)
  have "get_field (sdt + 4) 4 ?s = get_field (sdt + 4) 4 ?s2" by (rule get_field_set_disjoint) simp
  also have "\<dots> = 36 + w * (i + 1)" unfolding get_field_set_same by (rule mod_less [OF small])
  finally have f: "get_field (sdt + 4) 4 ?s = 36 + w * (i + 1)" .
  have "ac_mem ?s (sdt + 9) = 0" by (simp add: mem_write_def)
  then have "table_ok st' sdt (sdt + (36 + w * MAX_ACPI_TABLES))"
    unfolding added(4) by (rule set_checksum_ok) (use wi f in linarith)+
  moreover have "writes_only sdt (sdt + (36 + w * MAX_ACPI_TABLES)) st st'"
    unfolding added(4) using wi by (intro writes_only_intros writes_only_refl) simp_all
  ultimately show ?thesis using added(3) by blast
next
  case full
  then show ?thesis using writes_only_refl by simp
qed

lemma table_ok_cong:
  assumes "table_ok st a c" "\<And>x. a \<le> x \<Longrightarrow> x < c \<Longrightarrow> ac_mem st' x = ac_mem st x" "c \<le> c'"
  shows "table_ok st' a c'"
proof -
  have l: "36 \<le> get_field (a + 4) 4 st" "a + get_field (a + 4) 4 st \<le> c" "csum a (get_field (a + 4) 4 st) st = 0"
    using assms(1) by (simp_all add: table_ok_def)
  have f: "get_field (a + 4) 4 st' = get_field (a + 4) 4 st"
    by (rule get_field_cong) (use l in \<open>auto intro!: assms(2)\<close>)
  have "csum a (get_field (a + 4) 4 st) st' = csum a (get_field (a + 4) 4 st) st"
    by (rule csum_cong) (use l in \<open>auto intro!: assms(2)\<close>)
  then show ?thesis using l assms(3) by (simp add: table_ok_def f)
qed

lemma xsdt_length_bounds: "length tabs \<le> MAX_ACPI_TABLES \<Longrightarrow> 36 \<le> xsdt_length tabs \<and> xsdt_length tabs \<le> SZ_XSDT"
  by (auto simp: xsdt_length_def SZ_XSDT_def MAX_ACPI_TABLES_def)

lemma xsdt_ok_cong:
  assumes "xsdt_ok st tabs" and m: "\<And>x. ac_xsdt st \<le> x \<Longrightarrow> x < ac_xsdt st + SZ_XSDT \<Longrightarrow> ac_mem st' x = ac_mem st x"
    and x: "ac_xsdt st' = ac_xsdt st"
  shows "xsdt_ok st' tabs"
proof -
  have l: "length tabs \<le> MAX_ACPI_TABLES" using assms(1) by (simp add: xsdt_ok_def)
  have g: "get_field (ac_xsdt st + i) n st' = get_field (ac_xsdt st + i) n st" if "i + n \<le> SZ_XSDT" for i n
    by (rule get_field_cong) (use that in \<open>auto intro!: m\<close>)
  have r: "mem_read (ac_xsdt st) 4 (ac_mem st') = mem_read (ac_xsdt st) 4 (ac_mem st)"
    by (rule mem_read_cong) (auto intro!: m simp: SZ_XSDT_def)
  have c: "csum (ac_xsdt st) (xsdt_length tabs) st' = csum (ac_xsdt st) (xsdt_length tabs) st"
    by (rule csum_cong) (use xsdt_length_bounds [OF l] in \<open>auto intro!: m\<close>)
  have e: "xsdt_entries st' = xsdt_entries st"
    unfolding xsdt_entries_def x using g [of "36 + 8 * i" 8 for i]
    by (simp add: SZ_XSDT_def MAX_ACPI_TABLES_def add.assoc)
  have "get_field (ac_xsdt st + 4) 4 st' = get_field (ac_xsdt st + 4) 4 st" by (rule g) (simp add: SZ_XSDT_def)
  then show ?thesis using assms(1) unfolding xsdt_ok_def x r c e by simp
qed

lemma rsdt_ok_cong:
  assumes "rsdt_ok st tabs" and m: "\<And>x. ac_rsdt st \<le> x \<Longrightarrow> x < ac_rsdt st + SZ_RSDT \<Longrightarrow> ac_mem st' x = ac_mem st x"
    and x: "ac_rsdt st' = ac_rsdt st"
  shows "rsdt_ok st' tabs"
proof -
  have t: "table_ok st' (ac_rsdt st) (ac_rsdt st + SZ_RSDT)"
    using table_ok_cong [of st "ac_rsdt st" "ac_rsdt st + SZ_RSDT" st'] assms(1) m by (simp add: rsdt_ok_def)
  have "get_field (ac_rsdt st + 36 + 4 * i) 4 st' = get_field (ac_rsdt st + 36 + 4 * i) 4 st" if "i < 32" for i
    by (rule get_field_cong) (use that in \<open>auto intro!: m simp: SZ_RSDT_def\<close>)
  then show ?thesis using assms(1) t unfolding rsdt_ok_def x by (simp add: list_all_iff MAX_ACPI_TABLES_def)
qed

lemma rsdp_ok_cong:
  assumes "rsdp_ok st" and m: "\<And>x. ac_rsdp st \<le> x \<Longrightarrow> x < ac_rsdp st + SZ_RSDP \<Longrightarrow> ac_mem st' x = ac_mem st x"
    and x: "ac_rsdp st' = ac_rsdp st" "ac_xsdt st' = ac_xsdt st"
  shows "rsdp_ok st'"
proof -
  have "mem_read (ac_rsdp st) 8 (ac_mem st') = mem_read (ac_rsdp st) 8 (ac_mem st)"
    by (rule mem_read_cong) (auto intro!: m simp: SZ_RSDP_def)
  moreover have "csum (ac_rsdp st) n st' = csum (ac_rsdp st) n st" if "n \<le> SZ_RSDP" for n
    by (rule csum_cong) (use that in \<open>auto intro!: m\<close>)
  from this [of 20] this [of SZ_RSDP] have "csum (ac_rsdp st) 20 st' = csum (ac_rsdp st) 20 st"
    "csum (ac_rsdp st) SZ_RSDP st' = csum (ac_rsdp st) SZ_RSDP st" by (simp_all add: SZ_RSDP_def)
  moreover have "get_field (ac_rsdp st + 24) 8 st' = get_field (ac_rsdp st + 24) 8 st"
    by (rule get_field_cong) (auto intro!: m simp: SZ_RSDP_def)
  ultimately show ?thesis using assms(1) unfolding rsdp_ok_def x by simp
qed

text \<open>Writing above \<open>c\<close> keeps the tables below \<open>c\<close> well formed.\<close>

lemma acpi_wf_frame:
  assumes wf: "acpi_wf st c tabs" and r: "same_roots st st'"
    and m: "\<And>x. x < c \<Longrightarrow> ac_mem st' x = ac_mem st x" and c: "c \<le> c'"
  shows "acpi_wf st' c' tabs"
proof -
  have l: "layout_ok st c" using wf by (simp add: acpi_wf_def)
  have l': "layout_ok st' c'" using l r c by (auto simp: layout_ok_def same_roots_def)
  have p: "rsdp_ok st'" using wf r l
    by (intro rsdp_ok_cong [of st st']) (auto simp: acpi_wf_def same_roots_def layout_ok_def intro!: m)
  have x: "xsdt_ok st' tabs" using wf r l
    by (intro xsdt_ok_cong [of st tabs st']) (auto simp: acpi_wf_def same_roots_def layout_ok_def intro!: m)
  have t: "ac_rsdt st' = 0 \<or> rsdt_ok st' tabs"
  proof (cases "ac_rsdt st = 0")
    case False
    then have "rsdt_ok st' tabs" using wf r l
      by (intro rsdt_ok_cong [of st tabs st']) (auto simp: acpi_wf_def same_roots_def layout_ok_def intro!: m)
    then show ?thesis ..
  qed (use r in \<open>simp add: same_roots_def\<close>)
  have "table_ok st' a c'" if "table_ok st a c" for a
    by (rule table_ok_cong [OF that _ c]) (simp add: m)
  then have "list_all (\<lambda>a. ac_xsdt st' + SZ_XSDT \<le> a \<and> a < 2 ^ 64 \<and> table_ok st' a c') tabs"
    using wf r by (simp add: acpi_wf_def list_all_iff same_roots_def)
  then show ?thesis using l' p x t by (simp add: acpi_wf_def)
qed

lemma acpi_wf_mono: "acpi_wf st c tabs \<Longrightarrow> c \<le> c' \<Longrightarrow> acpi_wf st c' tabs"
  by (rule acpi_wf_frame) (simp_all add: same_roots_def)

lemma acpi_wf_nonzero: "acpi_wf st c tabs \<Longrightarrow> 0 \<notin> set tabs"
  by (auto simp: acpi_wf_def list_all_iff layout_ok_def SZ_RSDP_def SZ_XSDT_def)

lemma xsdt_entries_nth: "i < MAX_ACPI_TABLES \<Longrightarrow> xsdt_entries st ! i = get_field (ac_xsdt st + 36 + 8 * i) 8 st"
  by (simp add: xsdt_entries_def)

lemma length_xsdt_entries [simp]: "length (xsdt_entries st) = MAX_ACPI_TABLES"
  by (simp add: xsdt_entries_def)

lemma append_replicate_update:
  "length xs < n \<Longrightarrow> (xs @ replicate (n - length xs) z)[length xs := a] = (xs @ [a]) @ replicate (n - Suc (length xs)) z"
  by (simp add: list_update_append Suc_diff_Suc [symmetric])

lemma xsdt_add_entry:
  assumes x: "xsdt_ok st tabs" and nz: "0 \<notin> set tabs" and n: "length tabs < MAX_ACPI_TABLES" and a: "a < 2 ^ 64"
    and s: "sdt_add_entry (ac_xsdt st) 8 a st = (r, st')"
  shows "r = 0 \<and> xsdt_ok st' (tabs @ [a])"
  using s
proof (cases rule: sdt_add_entry_cases)
  case full
  then show ?thesis using xsdt_free_entry [OF x nz] n by simp
next
  case (added i)
  let ?x = "ac_xsdt st" and ?L = "36 + 8 * (length tabs + 1)"
  have i: "i = length tabs" using added(1) xsdt_free_entry [OF x nz] by simp
  let ?s1 = "set_field (?x + 36 + 8 * i) 8 a st"
  let ?s2 = "set_field (?x + 4) 4 ?L ?s1"
  let ?s = "set_field (?x + 9) 1 0 ?s2"
  have st': "st' = set_checksum ?x ?s" using added(4) i by simp
  have x': "ac_xsdt st' = ?x" by (simp add: st')
  have L: "?L < 256 ^ 4" using n by (simp add: MAX_ACPI_TABLES_def)
  have len: "xsdt_length (tabs @ [a]) = ?L" by (simp add: xsdt_length_def)
  have "get_field (?x + 4) 4 ?s = get_field (?x + 4) 4 ?s2" by (rule get_field_set_disjoint) simp
  also have "\<dots> = ?L" unfolding get_field_set_same by (rule mod_less [OF L])
  finally have f: "get_field (?x + 4) 4 ?s = ?L" .
  have f': "get_field (?x + 4) 4 st' = ?L" unfolding st' using f by (simp add: get_field_set_checksum)
  have c: "csum ?x ?L st' = 0"
    unfolding st' set_checksum_def f by (rule checksum_closes) (simp_all add: mem_write_def)
  have "writes_only (?x + 4) (?x + 36 + 8 * (i + 1)) st st'"
    unfolding st' i by (intro writes_only_intros writes_only_refl) simp_all
  then have sig: "mem_read ?x 4 (ac_mem st') = mem_read ?x 4 (ac_mem st)"
    by (rule writes_only_read) simp
  have e: "get_field (?x + 36 + 8 * j) 8 st' = get_field (?x + 36 + 8 * j) 8 ?s1" for j
    unfolding st' by (simp add: get_field_set_checksum get_field_set_disjoint)
  have ej: "get_field (?x + 36 + 8 * j) 8 ?s1 = (if j = i then a else get_field (?x + 36 + 8 * j) 8 st)" for j
  proof (cases "j = i")
    case True
    then show ?thesis using a unfolding True by (simp add: get_field_set_same)
  next
    case False
    then have "j + 1 \<le> i \<or> i + 1 \<le> j" by auto
    then have "?x + 36 + 8 * j + 8 \<le> ?x + 36 + 8 * i \<or> ?x + 36 + 8 * i + 8 \<le> ?x + 36 + 8 * j" by auto
    then show ?thesis using False by (simp add: get_field_set_disjoint)
  qed
  have "xsdt_entries st' = (xsdt_entries st)[i := a]"
    by (rule nth_equalityI) (simp_all add: xsdt_entries_nth x' e ej nth_list_update)
  also have "\<dots> = (tabs @ replicate (MAX_ACPI_TABLES - length tabs) 0)[length tabs := a]"
    using x i by (simp add: xsdt_ok_def)
  also have "\<dots> = (tabs @ [a]) @ replicate (MAX_ACPI_TABLES - Suc (length tabs)) 0"
    by (rule append_replicate_update [OF n])
  finally have "xsdt_entries st' = (tabs @ [a]) @ replicate (MAX_ACPI_TABLES - length (tabs @ [a])) 0" by simp
  then show ?thesis using x n c f' sig added(3) unfolding xsdt_ok_def x' len by simp
qed

lemma rsdt_free_entry_le:
  assumes "list_all (\<lambda>i. get_field (sdt + 36 + 4 * i) 4 st = 0) [n..<MAX_ACPI_TABLES]" "n < MAX_ACPI_TABLES"
  shows "sdt_free_entry st sdt 4 0 MAX_ACPI_TABLES \<le> n"
proof (rule ccontr)
  let ?es = "map (\<lambda>j. get_field (sdt + 36 + 4 * j) 4 st) [0..<MAX_ACPI_TABLES]"
  assume "\<not> ?thesis"
  then have "n < length (takeWhile (\<lambda>e. e \<noteq> 0) ?es)" by (simp add: sdt_free_entry_takeWhile)
  then have "takeWhile (\<lambda>e. e \<noteq> 0) ?es ! n \<in> set (takeWhile (\<lambda>e. e \<noteq> 0) ?es)" "takeWhile (\<lambda>e. e \<noteq> 0) ?es ! n = ?es ! n"
    by (rule nth_mem, rule takeWhile_nth)
  then have "?es ! n \<in> set (takeWhile (\<lambda>e. e \<noteq> 0) ?es)" by simp
  then have "?es ! n \<noteq> 0" by (rule set_takeWhileD [THEN conjunct2])
  then show False using assms by (simp add: list_all_iff)
qed

lemma rsdt_add_entry:
  assumes t: "rsdt_ok st tabs" and s: "sdt_add_entry (ac_rsdt st) 4 a st = (r, st')"
  shows "rsdt_ok st' (if length tabs < MAX_ACPI_TABLES then tabs @ [a] else tabs) \<and>
    (length tabs < MAX_ACPI_TABLES \<longrightarrow> r = 0)"
  using s
proof (cases rule: sdt_add_entry_cases)
  case full
  then show ?thesis using t rsdt_free_entry_le [of "ac_rsdt st" st "length tabs"] by (auto simp: rsdt_ok_def)
next
  case (added i)
  let ?x = "ac_rsdt st" and ?tabs = "if length tabs < MAX_ACPI_TABLES then tabs @ [a] else tabs"
  have ok: "table_ok st' ?x (?x + SZ_RSDT)" and w: "writes_only ?x (?x + SZ_RSDT) st st'"
    using sdt_add_entry_ok [OF s] added(3) by (simp_all add: SZ_sdt)
  have x': "ac_rsdt st' = ?x" using w by (rule writes_only_sel)
  have "get_field (?x + 36 + 4 * j) 4 st' = 0" if j: "length ?tabs \<le> j" "j < MAX_ACPI_TABLES" for j
  proof -
    have lt: "length tabs < MAX_ACPI_TABLES" "length tabs < j" using j by (auto split: if_splits)
    have "i \<le> length tabs" using rsdt_free_entry_le lt(1) t added(1) by (simp add: rsdt_ok_def)
    then have "?x + 36 + 4 * i + 4 \<le> ?x + 36 + 4 * j" using lt by simp
    then have "get_field (?x + 36 + 4 * j) 4 st' = get_field (?x + 36 + 4 * j) 4 st"
      unfolding added(4) by (simp add: get_field_set_checksum get_field_set_disjoint)
    then show ?thesis using t lt j(2) by (simp add: rsdt_ok_def list_all_iff)
  qed
  then show ?thesis using ok added(3) unfolding rsdt_ok_def x' by (simp add: list_all_iff)
qed

lemma acpi_add_table_rsdt:
  assumes wf: "acpi_wf st c tabs" and s: "(if ac_rsdt st \<noteq> 0 then sdt_add_entry (ac_rsdt st) 4 a st else (0, st)) = (r, st')"
  shows "writes_only (ac_base st + SZ_RSDP) (ac_xsdt st) st st'" "ac_rsdt st' = 0 \<or> rsdt_ok st' (add_tab tabs a)"
    "length tabs < MAX_ACPI_TABLES \<Longrightarrow> r = 0"
proof -
  have l: "layout_ok st c" using wf by (simp add: acpi_wf_def)
  have "writes_only (ac_base st + SZ_RSDP) (ac_xsdt st) st st' \<and> (ac_rsdt st' = 0 \<or> rsdt_ok st' (add_tab tabs a)) \<and>
    (length tabs < MAX_ACPI_TABLES \<longrightarrow> r = 0)"
  proof (cases "ac_rsdt st = 0")
    case False
    then have s': "sdt_add_entry (ac_rsdt st) 4 a st = (r, st')" and t: "rsdt_ok st tabs"
      using s wf by (simp_all add: acpi_wf_def)
    have "writes_only (ac_rsdt st) (ac_rsdt st + SZ_RSDT) st st'"
      using sdt_add_entry_ok [OF s'] by (simp add: SZ_sdt)
    then have "writes_only (ac_base st + SZ_RSDP) (ac_xsdt st) st st'"
      by (rule writes_only_mono) (use l False in \<open>auto simp: layout_ok_def\<close>)
    then show ?thesis using rsdt_add_entry [OF t s'] by (simp add: add_tab_def)
  qed (use s in simp)
  then show "writes_only (ac_base st + SZ_RSDP) (ac_xsdt st) st st'" "ac_rsdt st' = 0 \<or> rsdt_ok st' (add_tab tabs a)"
    "length tabs < MAX_ACPI_TABLES \<Longrightarrow> r = 0" by simp_all
qed

text \<open>Adding a complete table below \<open>c\<close> keeps the tables well formed and appends it to those listed.\<close>

lemma acpi_add_table_wf:
  assumes wf: "acpi_wf st c tabs" and a: "ac_xsdt st + SZ_XSDT \<le> a" "a < 2 ^ 64" "table_ok st a c"
    and s: "acpi_add_table a st = (r, st')"
  shows "acpi_wf st' c (add_tab tabs a) \<and> writes_only (ac_base st + SZ_RSDP) (ac_xsdt st + SZ_XSDT) st st'"
proof -
  have l: "layout_ok st c" using wf by (simp add: acpi_wf_def)
  have xs: "xsdt_ok st tabs" and nz: "0 \<notin> set tabs" using wf acpi_wf_nonzero by (auto simp: acpi_wf_def)
  obtain r1 s1 where s1: "(if ac_rsdt st \<noteq> 0 then sdt_add_entry (ac_rsdt st) 4 a st else (0, st)) = (r1, s1)"
    by (metis surj_pair)
  note r = acpi_add_table_rsdt [OF wf s1]
  note w1 = r(1) and sel1 = writes_only_sel [OF r(1)]
  have x1: "xsdt_ok s1 tabs" using xs by (rule xsdt_ok_cong) (use l sel1 writes_only_mem [OF w1] in auto)
  have nx: "ac_xsdt s1 \<noteq> 0" using l sel1 by (auto simp: layout_ok_def SZ_RSDP_def)
  have s': "(if r1 \<noteq> 0 then (r1, s1) else sdt_add_entry (ac_xsdt st) 8 a s1) = (r, st')"
    using s nx sel1 unfolding acpi_add_table_def s1 by (simp split: if_splits)
  have w2: "writes_only (ac_xsdt st) (ac_xsdt st + SZ_XSDT) s1 st' \<and> xsdt_ok st' (add_tab tabs a)"
  proof (cases "length tabs < MAX_ACPI_TABLES")
    case True
    then have s2: "sdt_add_entry (ac_xsdt s1) 8 a s1 = (r, st')" using r(3) s' sel1 by simp
    have "writes_only (ac_xsdt s1) (ac_xsdt s1 + SZ_XSDT) s1 st'"
      using sdt_add_entry_ok [OF s2] by (simp add: SZ_sdt)
    then show ?thesis using xsdt_add_entry [OF x1 nz True a(2) s2] True sel1 by (simp add: add_tab_def)
  next
    case False
    then have "sdt_free_entry s1 (ac_xsdt st) 8 0 MAX_ACPI_TABLES \<ge> MAX_ACPI_TABLES"
      using xsdt_free_entry [OF x1 nz] sel1 by simp
    then have "st' = s1" using s' by (auto simp: sdt_add_entry_def split: if_splits)
    then show ?thesis using x1 False by (simp add: add_tab_def)
  qed
  note sel2 = writes_only_sel [OF w2 [THEN conjunct1]] and m2 = writes_only_mem [OF w2 [THEN conjunct1]]
  have w: "writes_only (ac_base st + SZ_RSDP) (ac_xsdt st + SZ_XSDT) st st'"
    by (rule writes_only_trans [OF w1 w2 [THEN conjunct1]]) (use l in \<open>auto simp: layout_ok_def\<close>)
  note m = writes_only_mem [OF w] and sel = writes_only_sel [OF w]
  have "rsdp_ok st'" using wf by (intro rsdp_ok_cong [of st st']) (use l sel m in \<open>auto simp: acpi_wf_def layout_ok_def\<close>)
  moreover have "ac_rsdt st' = 0 \<or> rsdt_ok st' (add_tab tabs a)"
  proof (cases "ac_rsdt st = 0")
    case False
    then have "rsdt_ok s1 (add_tab tabs a)" using r(2) sel1 by simp
    then show ?thesis using False l sel1 sel2 m2
      by (intro disjI2 rsdt_ok_cong [of s1 "add_tab tabs a" st']) (auto simp: layout_ok_def)
  qed (use sel in simp)
  moreover have t: "table_ok st' b c" if "table_ok st b c" "ac_xsdt st + SZ_XSDT \<le> b" for b
    using that(1) by (rule table_ok_cong) (use m that(2) in auto)
  then have "list_all (\<lambda>b. ac_xsdt st' + SZ_XSDT \<le> b \<and> b < 2 ^ 64 \<and> table_ok st' b c) (add_tab tabs a)"
    using wf a sel by (auto simp: acpi_wf_def list_all_iff add_tab_def)
  moreover have "layout_ok st' c" using l sel by (simp add: layout_ok_def)
  ultimately show ?thesis using w w2 by (simp add: acpi_wf_def)
qed

text \<open>The last steps of a writer: the checksum over the length in the header, then the root tables.\<close>

lemma finish_table:
  assumes wf: "acpi_wf st0 c tabs" and r: "same_roots st0 st" and m: "\<And>x. x < c \<Longrightarrow> ac_mem st x = ac_mem st0 x"
    and a: "c \<le> a" "a < 2 ^ 64" and z: "ac_mem st (a + 9) = 0" and L: "get_field (a + 4) 4 st = L" "36 \<le> L"
    and s: "acpi_add_table a (set_checksum a st) = (ret, st')"
  shows "acpi_wf st' (a + L) (add_tab tabs a) \<and>
    writes_only (ac_base st + SZ_RSDP) (ac_xsdt st + SZ_XSDT) (set_checksum a st) st'"
proof -
  have "acpi_wf (set_checksum a st) (a + L) tabs"
    using wf by (rule acpi_wf_frame) (use r m a in \<open>auto simp: same_roots_def set_checksum_mem\<close>)
  moreover have "table_ok (set_checksum a st) a (a + L)"
    by (rule set_checksum_ok) (use z L in simp_all)
  moreover have "ac_xsdt (set_checksum a st) + SZ_XSDT \<le> a"
    using wf r a by (simp add: acpi_wf_def layout_ok_def same_roots_def)
  ultimately show ?thesis using acpi_add_table_wf [of "set_checksum a st" "a + L" tabs a ret st'] a s by simp
qed

lemma length_bytes_of_string [simp]: "length (bytes_of_string s) = length s"
  by (simp add: bytes_of_string_def)

lemma memset_sel [simp]:
  "ac_base (c_memset0 a n st) = ac_base st" "ac_current (c_memset0 a n st) = ac_current st"
  "ac_tab_start (c_memset0 a n st) = ac_tab_start st" "ac_rsdp (c_memset0 a n st) = ac_rsdp st"
  "ac_rsdt (c_memset0 a n st) = ac_rsdt st" "ac_xsdt (c_memset0 a n st) = ac_xsdt st"
  "ac_facs (c_memset0 a n st) = ac_facs st" "ac_dsdt (c_memset0 a n st) = ac_dsdt st"
  "ac_item (c_memset0 a n st) = ac_item st" "ac_item_count (c_memset0 a n st) = ac_item_count st"
  "ac_heap (c_memset0 a n st) = ac_heap st" "ac_start (c_memset0 a n st) = ac_start st"
  "ac_mem (c_memset0 a n st) = mem_write a (replicate n 0) (ac_mem st)"
  by (simp_all add: c_memset0_def)

lemma header_sel [simp]:
  "ac_base (acpi_fill_header a s st) = ac_base st" "ac_current (acpi_fill_header a s st) = ac_current st"
  "ac_tab_start (acpi_fill_header a s st) = ac_tab_start st" "ac_rsdp (acpi_fill_header a s st) = ac_rsdp st"
  "ac_rsdt (acpi_fill_header a s st) = ac_rsdt st" "ac_xsdt (acpi_fill_header a s st) = ac_xsdt st"
  "ac_facs (acpi_fill_header a s st) = ac_facs st" "ac_dsdt (acpi_fill_header a s st) = ac_dsdt st"
  "ac_item (acpi_fill_header a s st) = ac_item st" "ac_item_count (acpi_fill_header a s st) = ac_item_count st"
  "ac_heap (acpi_fill_header a s st) = ac_heap st" "ac_start (acpi_fill_header a s st) = ac_start st"
  by (simp_all add: acpi_fill_header_def)

lemma header_mem_checksum [acpi_simps]: "ac_mem (acpi_fill_header h sig st) (h + 9) = ac_mem st (h + 9)"
  by (auto simp: acpi_fill_header_def mem_write_def)

lemma header_signature:
  assumes "length sig = 4"
  shows "mem_read h 4 (ac_mem (acpi_fill_header h sig st)) = bytes_of_string sig"
  using assms by (simp add: acpi_fill_header_def mem_read_write_disjoint mem_read_write_same)

lemma acpi_write_rsdp_ok:
  assumes "xsdt \<noteq> 0" "xsdt < 2 ^ 64"
  shows "writes_only p (p + SZ_RSDP) st (acpi_write_rsdp p rsdt xsdt st)"
    "mem_read p 8 (ac_mem (acpi_write_rsdp p rsdt xsdt st)) = bytes_of_string ''RSD PTR ''"
    "csum p 20 (acpi_write_rsdp p rsdt xsdt st) = 0" "csum p SZ_RSDP (acpi_write_rsdp p rsdt xsdt st) = 0"
    "get_field (p + 24) 8 (acpi_write_rsdp p rsdt xsdt st) = xsdt"
proof -
  let ?s0 = "put_bytes (p + 9) (bytes_of_string ''U-BOOT'') (put_bytes p (bytes_of_string ''RSD PTR '') (c_memset0 p SZ_RSDP st))"
  let ?s1 = "if rsdt \<noteq> 0 then set_field (p + 16) 4 rsdt ?s0 else ?s0"
  let ?s2 = "set_field (p + 24) 8 xsdt ?s1"
  let ?s3 = "set_field (p + 15) 1 2 (set_field (p + 20) 4 SZ_RSDP ?s2)"
  let ?s4 = "put_bytes (p + 8) [table_compute_checksum p 20 ?s3] ?s3"
  let ?s5 = "put_bytes (p + 32) [table_compute_checksum p SZ_RSDP ?s4] ?s4"
  have e: "acpi_write_rsdp p rsdt xsdt st = ?s5"
    using assms(1) by (simp add: acpi_write_rsdp_def Let_def)
  have w: "writes_only p (p + SZ_RSDP) st ?s1"
    by (auto intro!: writes_only_intros simp: SZ_RSDP_def)
  show "writes_only p (p + SZ_RSDP) st (acpi_write_rsdp p rsdt xsdt st)"
    unfolding e by (intro writes_only_put writes_only_set w) (simp_all add: SZ_RSDP_def)
  have "mem_read p 8 (ac_mem ?s5) = mem_read p 8 (ac_mem ?s1)"
    by (simp add: mem_read_write_disjoint)
  also have "\<dots> = bytes_of_string ''RSD PTR ''"
    by (simp add: mem_read_write_disjoint mem_read_write_same)
  finally show "mem_read p 8 (ac_mem (acpi_write_rsdp p rsdt xsdt st)) = bytes_of_string ''RSD PTR ''"
    unfolding e .
  have z8: "ac_mem ?s3 (p + 8) = 0" and z32: "ac_mem ?s4 (p + 32) = 0"
    by (simp_all add: mem_write_def SZ_RSDP_def)
  have "csum p 20 ?s4 = 0" by (rule checksum_closes) (use z8 in simp_all)
  moreover have "csum p 20 ?s5 = csum p 20 ?s4" by (rule csum_cong) (simp add: mem_write_def)
  ultimately show "csum p 20 (acpi_write_rsdp p rsdt xsdt st) = 0" unfolding e by simp
  show "csum p SZ_RSDP (acpi_write_rsdp p rsdt xsdt st) = 0"
    unfolding e by (rule checksum_closes) (use z32 in \<open>simp_all add: SZ_RSDP_def\<close>)
  have "get_field (p + 24) 8 ?s5 = get_field (p + 24) 8 ?s2"
    by (simp add: get_field_put_disjoint get_field_set_disjoint)
  also have "\<dots> = xsdt" using assms(2) by (simp add: get_field_set_same)
  finally show "get_field (p + 24) 8 (acpi_write_rsdp p rsdt xsdt st) = xsdt" unfolding e .
qed

lemma acpi_write_xsdt_ok:
  assumes "ac_mem st (x + 9) = 0"
  shows "writes_only x (x + 36) st (acpi_write_xsdt x st)"
    "mem_read x 4 (ac_mem (acpi_write_xsdt x st)) = bytes_of_string ''XSDT''"
    "get_field (x + 4) 4 (acpi_write_xsdt x st) = SZ_XSDT" "csum x SZ_XSDT (acpi_write_xsdt x st) = 0"
proof -
  let ?s = "set_field (x + 8) 1 1 (set_field (x + 4) 4 SZ_XSDT (acpi_fill_header x ''XSDT'' st))"
  have e: "acpi_write_xsdt x st = put_bytes (x + 9) [table_compute_checksum x SZ_XSDT ?s] ?s"
    by (simp add: acpi_write_xsdt_def Let_def)
  show "writes_only x (x + 36) st (acpi_write_xsdt x st)"
    unfolding e by (intro writes_only_intros writes_only_refl) simp_all
  show "mem_read x 4 (ac_mem (acpi_write_xsdt x st)) = bytes_of_string ''XSDT''"
    unfolding e by (simp add: mem_read_write_disjoint header_signature)
  show "get_field (x + 4) 4 (acpi_write_xsdt x st) = SZ_XSDT"
    unfolding e by (simp add: get_field_put_disjoint get_field_set_disjoint get_field_set_same SZ_XSDT_def)
  have "ac_mem ?s (x + 9) = 0" using assms by (simp add: mem_write_def header_mem_checksum)
  then show "csum x SZ_XSDT (acpi_write_xsdt x st) = 0"
    unfolding e by (rule checksum_closes) (simp add: SZ_XSDT_def)
qed

lemma acpi_write_rsdt_ok:
  assumes "ac_mem st (x + 9) = 0"
  shows "writes_only x (x + 36) st (acpi_write_rsdt x st)" "table_ok (acpi_write_rsdt x st) x (x + SZ_RSDT)"
proof -
  let ?s = "set_field (x + 8) 1 1 (set_field (x + 4) 4 SZ_RSDT (acpi_fill_header x ''RSDT'' st))"
  have e: "acpi_write_rsdt x st = put_bytes (x + 9) [table_compute_checksum x SZ_RSDT ?s] ?s"
    by (simp add: acpi_write_rsdt_def Let_def)
  show "writes_only x (x + 36) st (acpi_write_rsdt x st)"
    unfolding e by (intro writes_only_intros writes_only_refl) simp_all
  have f: "get_field (x + 4) 4 (acpi_write_rsdt x st) = SZ_RSDT"
    unfolding e by (simp add: get_field_put_disjoint get_field_set_disjoint get_field_set_same SZ_RSDT_def)
  have "ac_mem ?s (x + 9) = 0" using assms by (simp add: mem_write_def header_mem_checksum)
  then have "csum x SZ_RSDT (acpi_write_rsdt x st) = 0"
    unfolding e by (rule checksum_closes) (simp add: SZ_RSDT_def)
  then show "table_ok (acpi_write_rsdt x st) x (x + SZ_RSDT)" by (simp add: table_ok_def f SZ_RSDT_def)
qed

lemma ALIGN_bounds: "0 < a \<Longrightarrow> x \<le> ALIGN x a \<and> ALIGN x a < x + a"
proof -
  assume a: "0 < a"
  have "(x + (a - 1)) div a * a + (x + (a - 1)) mod a = x + (a - 1)" by simp
  moreover have "(x + (a - 1)) mod a < a" using a by simp
  ultimately show ?thesis unfolding ALIGN_def by linarith
qed

lemma acpi_inc_align_eq: "acpi_inc_align n st = st\<lparr>ac_current := ALIGN (ac_current st + n) 16\<rparr>"
  by (simp add: acpi_inc_align_def acpi_align_def acpi_inc_def)

text \<open>The root tables, once written over the cleared memory.\<close>

lemma root_tables_ok:
  assumes l: "layout_ok st c" and b: "c \<le> ac_base st + 2 ^ 31"
    and s0: "s0 = c_memset0 (ac_base st) (c - ac_base st) st"
    and s1: "s1 = acpi_write_rsdp (ac_rsdp st) (ac_rsdt st) (ac_xsdt st) s0"
    and s2: "s2 = (if ac_rsdt st \<noteq> 0 then acpi_write_rsdt (ac_rsdt st) s1 else s1)"
    and s3: "s3 = acpi_write_xsdt (ac_xsdt st) s2"
  shows "acpi_wf s3 c []"
proof -
  let ?p = "ac_base st" and ?r = "ac_rsdt st" and ?x = "ac_xsdt st"
  have lay: "?p + SZ_RSDP \<le> ?x" "?x + SZ_XSDT \<le> c" "ac_rsdp st = ?p" "?r \<noteq> 0 \<Longrightarrow> ?p + SZ_RSDP \<le> ?r \<and> ?r + SZ_RSDT \<le> ?x"
    using l by (auto simp: layout_ok_def)
  have x: "?x \<noteq> 0" "?x < 2 ^ 64" using l b lay by (auto simp: layout_ok_def SZ_RSDP_def SZ_XSDT_def)
  have s1': "s1 = acpi_write_rsdp ?p ?r ?x s0" using s1 lay(3) by simp
  note p = acpi_write_rsdp_ok [OF x, where p = ?p and st = s0 and rsdt = ?r, folded s1']
  have z0: "ac_mem s0 y = 0" if "?p \<le> y" "y < c" for y
    using that by (simp add: s0 mem_write_def)
  have z1: "ac_mem s1 y = 0" if "?p + SZ_RSDP \<le> y" "y < c" for y
    using writes_only_mem [OF p(1), of y] z0 [of y] that by simp
  have w2: "writes_only (?p + SZ_RSDP) ?x s1 s2"
  proof (cases "?r = 0")
    case False
    have "ac_mem s1 (?r + 9) = 0" by (rule z1) (use lay False in \<open>auto simp: SZ_RSDT_def SZ_XSDT_def\<close>)
    then have "writes_only ?r (?r + 36) s1 s2" using acpi_write_rsdt_ok(1) False s2 by simp
    then show ?thesis by (rule writes_only_mono) (use lay False in \<open>auto simp: SZ_RSDT_def\<close>)
  qed (simp add: s2)
  have z2: "ac_mem s2 y = 0" if "?x \<le> y" "y < c" for y
    using writes_only_mem [OF w2, of y] z1 [of y] that lay by simp
  note xs = acpi_write_xsdt_ok [of s2 ?x, folded s3]
  have "ac_mem s2 (?x + 9) = 0" by (rule z2) (use lay in \<open>auto simp: SZ_XSDT_def\<close>)
  note xs = xs [OF this]
  have w3: "writes_only ?x c s2 s3" by (rule writes_only_mono [OF xs(1)]) (use lay in \<open>auto simp: SZ_XSDT_def\<close>)
  have sel0: "same_roots st s0" by (simp add: s0 same_roots_def)
  have sel: "same_roots st s1" "same_roots st s2" "same_roots st s3"
    using sel0 writes_only_sel(13) [OF p(1)] writes_only_sel(13) [OF w2] writes_only_sel(13) [OF w3]
    by (auto simp: same_roots_def)
  have lay3: "layout_ok s3 c" using l sel by (simp add: layout_ok_def same_roots_def)
  have "rsdp_ok s1" using p lay sel by (simp add: rsdp_ok_def same_roots_def)
  then have p3: "rsdp_ok s3"
    by (rule rsdp_ok_cong) (use sel lay writes_only_mem [OF w2] writes_only_mem [OF w3] in \<open>auto simp: same_roots_def\<close>)
  have g3: "get_field y 8 s3 = 0" if "?x + 36 \<le> y" "y + 8 \<le> c" for y
  proof -
    have "mem_read y 8 (ac_mem s3) = replicate 8 0"
      by (rule nth_equalityI) (use that z2 writes_only_mem [OF xs(1)] in auto)
    then show ?thesis by (simp add: get_field_def)
  qed
  have x3: "xsdt_ok s3 []"
    unfolding xsdt_ok_def xsdt_length_def xsdt_entries_def using xs sel lay
    by (auto simp: same_roots_def MAX_ACPI_TABLES_def SZ_XSDT_def intro!: nth_equalityI g3)
  have "?r = 0 \<or> rsdt_ok s2 []"
  proof (cases "?r = 0")
    case False
    have "ac_mem s1 (?r + 9) = 0" by (rule z1) (use lay False in \<open>auto simp: SZ_RSDT_def SZ_XSDT_def\<close>)
    then have r: "table_ok s2 ?r (?r + SZ_RSDT)" "writes_only ?r (?r + 36) s1 s2"
      using acpi_write_rsdt_ok False s2 by simp_all
    have "get_field (?r + 36 + 4 * i) 4 s2 = 0" if "i < 32" for i
    proof -
      have "ac_mem s1 (?r + 36 + 4 * i + j) = 0" if "j < 4" for j
        by (rule z1) (use that \<open>i < 32\<close> lay False in \<open>auto simp: SZ_RSDT_def SZ_XSDT_def\<close>)
      then have "mem_read (?r + 36 + 4 * i) 4 (ac_mem s2) = replicate 4 0"
        by (intro nth_equalityI) (use writes_only_mem [OF r(2)] in auto)
      then show ?thesis by (simp add: get_field_def)
    qed
    then show ?thesis using r(1) sel by (simp add: rsdt_ok_def same_roots_def list_all_iff MAX_ACPI_TABLES_def)
  qed simp
  then have "ac_rsdt s3 = 0 \<or> rsdt_ok s3 []"
  proof
    assume r: "rsdt_ok s2 []"
    have m: "ac_mem s3 y = ac_mem s2 y" if "y < ac_xsdt st" for y using writes_only_mem [OF w3] that by simp
    have "?r \<noteq> 0 \<Longrightarrow> rsdt_ok s3 []"
      by (rule rsdt_ok_cong [OF r]) (use sel lay m in \<open>auto simp: same_roots_def\<close>)
    then show ?thesis using sel by (auto simp: same_roots_def)
  qed (use sel in \<open>simp add: same_roots_def\<close>)
  then show ?thesis using lay3 p3 x3 by (simp add: acpi_wf_def)
qed

lemma root_sel [simp]:
  "ac_rsdt (acpi_write_rsdp p r x st) = ac_rsdt st" "ac_xsdt (acpi_write_rsdp p r x st) = ac_xsdt st"
  "ac_current (acpi_write_rsdp p r x st) = ac_current st" "ac_base (acpi_write_rsdp p r x st) = ac_base st"
  "ac_xsdt (acpi_write_rsdt y st) = ac_xsdt st" "ac_current (acpi_write_rsdt y st) = ac_current st"
  "ac_base (acpi_write_rsdt y st) = ac_base st"
  "ac_current (acpi_write_xsdt y st) = ac_current st" "ac_base (acpi_write_xsdt y st) = ac_base st"
  by (simp_all add: acpi_write_rsdp_def acpi_write_rsdt_def acpi_write_xsdt_def Let_def)

lemma root_sel_items [simp]:
  "ac_item_count (acpi_write_rsdp p r x st) = ac_item_count st" "ac_item_count (acpi_write_rsdt y st) = ac_item_count st"
  "ac_item_count (acpi_write_xsdt y st) = ac_item_count st" "ac_item_count (acpi_base_layout st) = ac_item_count st"
  by (simp_all add: acpi_write_rsdp_def acpi_write_rsdt_def acpi_write_xsdt_def acpi_base_layout_def acpi_inc_align_eq Let_def)

lemma acpi_base_layout_ok:
  assumes b: "0 < ac_base st" "ac_base st + 2 ^ 31 \<le> 2 ^ 64" "ac_current st = ac_base st" "ac_start st = ac_base st"
  shows "layout_ok (acpi_base_layout st) (ac_current (acpi_base_layout st)) \<and>
    ac_base (acpi_base_layout st) = ac_base st \<and> ac_current (acpi_base_layout st) \<le> ac_base st + 600"
proof -
  let ?b = "ac_base st" and ?q = "acpi_base_layout st"
  define c1 where "c1 = ALIGN (?b + SZ_RSDP) 16"
  have c1: "?b + SZ_RSDP \<le> c1" "c1 < ?b + SZ_RSDP + 16" using ALIGN_bounds [of 16 "?b + SZ_RSDP"] by (auto simp: c1_def)
  define x where "x = (if c1 < 0x100000000 - 0x10000 then ALIGN (c1 + SZ_RSDT) 16 else c1)"
  have c2: "c1 + SZ_RSDT \<le> ALIGN (c1 + SZ_RSDT) 16" "ALIGN (c1 + SZ_RSDT) 16 < c1 + SZ_RSDT + 16"
    using ALIGN_bounds [of 16 "c1 + SZ_RSDT"] by auto
  have x: "?b + SZ_RSDP \<le> x" "x \<le> ?b + 250" using c1 c2 by (auto simp: x_def SZ_RSDP_def SZ_RSDT_def)
  have c: "x + SZ_XSDT \<le> ALIGN (x + SZ_XSDT) 16" "ALIGN (x + SZ_XSDT) 16 < x + SZ_XSDT + 16"
    using ALIGN_bounds [of 16 "x + SZ_XSDT"] by auto
  have q: "?q = st\<lparr>ac_rsdp := ?b, ac_rsdt := (if c1 < 0x100000000 - 0x10000 then c1 else 0), ac_xsdt := x,
      ac_current := ALIGN (x + SZ_XSDT) 16\<rparr>"
    by (simp add: acpi_base_layout_def Let_def acpi_inc_align_eq b c1_def [symmetric] x_def)
  have r: "c1 < 0x100000000 - 0x10000 \<Longrightarrow> c1 + SZ_RSDT \<le> x" using c2 by (simp add: x_def)
  show ?thesis unfolding q layout_ok_def using b c x c1 r by (auto simp: SZ_XSDT_def)
qed

lemma acpi_write_base_wf:
  assumes s: "acpi_write_base st = (r, st')"
    and b: "0 < ac_base st" "ac_base st + 2 ^ 31 \<le> 2 ^ 64" "ac_current st = ac_base st" "ac_start st = ac_base st"
  shows "r = 0 \<and> acpi_wf st' (ac_current st') [] \<and> ac_base st' = ac_base st \<and> ac_current st' \<le> ac_base st + 600"
proof -
  define q where "q = acpi_base_layout st"
  have l: "layout_ok q (ac_current q)" and bq: "ac_base q = ac_base st" and cq: "ac_current q \<le> ac_base st + 600"
    using acpi_base_layout_ok [OF b] by (simp_all add: q_def)
  let ?s0 = "c_memset0 (ac_base q) (ac_current q - ac_base q) q"
  let ?s1 = "acpi_write_rsdp (ac_rsdp q) (ac_rsdt q) (ac_xsdt q) ?s0"
  let ?s2 = "if ac_rsdt q \<noteq> 0 then acpi_write_rsdt (ac_rsdt q) ?s1 else ?s1"
  have e: "acpi_write_base st = (0, acpi_write_xsdt (ac_xsdt q) ?s2)"
    unfolding acpi_write_base_def q_def [symmetric] Let_def by simp
  have "acpi_wf (acpi_write_xsdt (ac_xsdt q) ?s2) (ac_current q) []"
    using root_tables_ok [OF l _ refl refl refl refl] cq bq by simp
  moreover have "ac_current (acpi_write_xsdt (ac_xsdt q) ?s2) = ac_current q" "ac_base (acpi_write_xsdt (ac_xsdt q) ?s2) = ac_base q"
    by simp_all
  ultimately show ?thesis using s e bq cq by auto
qed

end
