(* ===== verification/Acpi_Writer.thy ===== *)
theory Acpi_Writer
  imports Acpi_Table
begin

text \<open>
  The ACPI writers: the item list and the driver-model walk of drivers/core/acpi.c, the generic
  writers of lib/acpi (FACS, DSDT, SSDT, CSRT, MCFG, FADT, MADT, DBG2, IORT) and the loop of
  lib/acpi/acpi_writer.c that runs them.

  A writer is a function on the state returning the C return value. The hooks a board overrides
  (\<open>acpi_fill_fadt\<close>, \<open>acpi_patch_dsdt\<close>, ...) are arguments of the generic writers. A device is a
  node of a tree with its ACPI methods, which belong to the drivers and are arguments of the model
  too, as is the image \<open>AmlCode\<close> that the ASL compiler produces: a map from offsets to bytes.
\<close>

section \<open>Items and devices (drivers/core/acpi.c)\<close>

definition ENXIO :: int where [simp]: "ENXIO = 6"
definition EINTR :: int where [simp]: "EINTR = 4"

definition MAX_ACPI_ITEMS :: nat where
  "MAX_ACPI_ITEMS = 100"

definition add_item :: "string option \<Rightarrow> string option \<Rightarrow> gen_type_t \<Rightarrow> nat \<Rightarrow> acpi_st \<Rightarrow> int \<times> acpi_st" where
  "add_item dev writer type start st =
     (if ac_item_count st = MAX_ACPI_ITEMS then (- ENOSPC, st)
      else
        let i = ac_item_count st;
            size = to_int (int (ac_current st) - int start);
            item = (ac_item st ! i)\<lparr>it_dev := dev, it_writer := writer, it_type := type, it_size := size, it_base := start\<rparr>;
            st = st\<lparr>ac_item := (ac_item st)[i := item]\<rparr>
        in
        if size = 0 then (0, st)
        else if type \<noteq> TYPE_OTHER then
          (case c_malloc (ac_heap st) (nat (to_ulong size)) of
             None \<Rightarrow> (- ENOMEM, st\<lparr>ac_item := (ac_item st)[i := item\<lparr>it_buf := None\<rparr>]\<rparr>)
           | Some _ \<Rightarrow>
               (0, st\<lparr>ac_item := (ac_item st)[i := item\<lparr>it_buf := Some (mem_read start (nat size) (ac_mem st))\<rparr>],
                      ac_item_count := i + 1\<rparr>))
        else (0, st\<lparr>ac_item_count := i + 1\<rparr>))"

definition acpi_add_other_item :: "string \<Rightarrow> nat \<Rightarrow> acpi_st \<Rightarrow> int \<times> acpi_st" where
  "acpi_add_other_item writer start st = add_item None (Some writer) TYPE_OTHER start st"

definition find_acpi_item :: "string \<Rightarrow> acpi_st \<Rightarrow> acpi_item option" where
  "find_acpi_item devname st = find (\<lambda>item. it_dev item = Some devname) (take (ac_item_count st) (ac_item st))"

text \<open>
  The loop over the ordering property: the property lists phandles, which the model has as the names
  of the nodes they resolve to. An item of a device has a buffer (\<open>add_item\<close>).
\<close>

fun sort_acpi_items :: "gen_type_t \<Rightarrow> string list \<Rightarrow> nat \<Rightarrow> acpi_st \<Rightarrow> int \<times> nat \<times> acpi_st" where
  "sort_acpi_items type [] ptr st = (0, ptr, st)"
| "sort_acpi_items type (name # order) ptr st =
     (case find_acpi_item name st of
        None \<Rightarrow> (- ENOENT, ptr, st)
      | Some item \<Rightarrow>
          if it_type item = type
          then sort_acpi_items type order (ptr + nat (it_size item))
                 (put_bytes ptr (take (nat (it_size item)) (case it_buf item of None \<Rightarrow> [] | Some b \<Rightarrow> b)) st)
          else sort_acpi_items type order ptr st)"

definition sort_acpi_item_type :: "nat \<Rightarrow> gen_type_t \<Rightarrow> string list option \<Rightarrow> acpi_st \<Rightarrow> int \<times> acpi_st" where
  "sort_acpi_item_type start type order st =
     (case order of
        None \<Rightarrow> (0, st)
      | Some names \<Rightarrow>
          (case sort_acpi_items type names start st of (ret, ptr, st') \<Rightarrow>
           if ret \<noteq> 0 then (ret, st')
           else if ptr \<noteq> ac_current st then (- ENXIO, st')
           else (0, st')))"

datatype method_t = METHOD_WRITE_TABLES | METHOD_FILL_SSDT | METHOD_INJECT_DSDT | METHOD_SETUP_NHLT | METHOD_FILL_MADT

text \<open>
  A device: its name, its ACPI methods (\<open>acpi_get_method\<close>), what \<open>device_of_to_plat\<close> returns for it
  and its children.
\<close>

datatype udevice =
  UDevice (dev_name: string) (dev_method: "method_t \<Rightarrow> (acpi_st \<Rightarrow> int \<times> acpi_st) option")
    (dev_to_plat: int) (dev_children: "udevice list")

text \<open>The part of \<open>acpi_recurse_method\<close> for one device, before its children.\<close>

definition acpi_run_method :: "udevice \<Rightarrow> method_t \<Rightarrow> gen_type_t \<Rightarrow> acpi_st \<Rightarrow> int \<times> acpi_st" where
  "acpi_run_method parent meth type st =
     (case dev_method parent meth of
        None \<Rightarrow> (0, st)
      | Some func \<Rightarrow>
          if dev_to_plat parent \<noteq> 0 then (dev_to_plat parent, st)
          else
            (case func (st\<lparr>ac_tab_start := ac_current st\<rparr>) of (ret, st) \<Rightarrow>
             if ret \<noteq> 0 then (ret, st)
             else if type \<noteq> TYPE_NONE then add_item (Some (dev_name parent)) None type (ac_tab_start st) st
             else (0, st)))"

fun acpi_recurse_method :: "udevice \<Rightarrow> method_t \<Rightarrow> gen_type_t \<Rightarrow> acpi_st \<Rightarrow> int \<times> acpi_st"
  and acpi_recurse_children :: "udevice list \<Rightarrow> method_t \<Rightarrow> gen_type_t \<Rightarrow> acpi_st \<Rightarrow> int \<times> acpi_st" where
  "acpi_recurse_method (UDevice n ms p cs) meth type st =
     (case acpi_run_method (UDevice n ms p cs) meth type st of (ret, st) \<Rightarrow>
      if ret \<noteq> 0 then (ret, st) else acpi_recurse_children cs meth type st)"
| "acpi_recurse_children [] meth type st = (0, st)"
| "acpi_recurse_children (dev # devs) meth type st =
     (case acpi_recurse_method dev meth type st of (ret, st) \<Rightarrow>
      if ret \<noteq> 0 then (ret, st) else acpi_recurse_children devs meth type st)"

text \<open>The devices under the root and the two ordering properties of the device tree.\<close>

record acpi_dm =
  dm_root :: udevice
  dm_dsdt_order :: "string list option"
  dm_ssdt_order :: "string list option"

definition acpi_fill_madt_subtbl :: "acpi_dm \<Rightarrow> acpi_st \<Rightarrow> int \<times> acpi_st" where
  "acpi_fill_madt_subtbl dm st = acpi_recurse_method (dm_root dm) METHOD_FILL_MADT TYPE_NONE st"

text \<open>Both discard the result of the walk: \<open>ret\<close> is overwritten by the sorting.\<close>

definition acpi_fill_ssdt :: "acpi_dm \<Rightarrow> acpi_st \<Rightarrow> int \<times> acpi_st" where
  "acpi_fill_ssdt dm st =
     (case acpi_recurse_method (dm_root dm) METHOD_FILL_SSDT TYPE_SSDT st of (_, st') \<Rightarrow>
      sort_acpi_item_type (ac_current st) TYPE_SSDT (dm_ssdt_order dm) st')"

definition acpi_inject_dsdt :: "acpi_dm \<Rightarrow> acpi_st \<Rightarrow> int \<times> acpi_st" where
  "acpi_inject_dsdt dm st =
     (case acpi_recurse_method (dm_root dm) METHOD_INJECT_DSDT TYPE_DSDT st of (_, st') \<Rightarrow>
      sort_acpi_item_type (ac_current st) TYPE_DSDT (dm_dsdt_order dm) st')"

definition acpi_reset_items :: "acpi_st \<Rightarrow> acpi_st" where
  "acpi_reset_items st = st\<lparr>ac_item_count := 0\<rparr>"

definition acpi_write_dev_tables :: "acpi_dm \<Rightarrow> acpi_st \<Rightarrow> int \<times> acpi_st" where
  "acpi_write_dev_tables dm st = acpi_recurse_method (dm_root dm) METHOD_WRITE_TABLES TYPE_NONE st"

section \<open>The generic writers\<close>

subsection \<open>lib/acpi/facs.c, dsdt.c, ssdt.c, csrt.c, mcfg.c\<close>

definition acpi_write_facs :: "acpi_st \<Rightarrow> int \<times> acpi_st" where
  "acpi_write_facs st =
     (let facs = ac_current st;
          st = c_memset0 facs 64 st;
          st = put_bytes facs (bytes_of_string ''FACS'') st;
          st = set_fields facs [(4, 4, 64), (8, 4, 0), (12, 4, 0), (16, 4, 0), (20, 4, 0), (24, 4, 0), (28, 4, 0), (32, 1, 1)] st;
          st = st\<lparr>ac_facs := facs\<rparr>
      in (0, acpi_inc 64 st))"

text \<open>
  \<open>AmlCode\<close> behind the header is copied after what the devices injected. The pointer to the DSDT is
  stored in the context before the board hook runs. The compiler counts the header in the length of the
  image; a shorter length, for which the size of the copy would be negative, is outside the model.
\<close>

definition acpi_copy_aml :: "acpi_dm \<Rightarrow> mem \<Rightarrow> nat \<Rightarrow> acpi_st \<Rightarrow> int \<times> acpi_st" where
  "acpi_copy_aml dm AmlCode aml_len st =
     (case acpi_inject_dsdt dm st of (ret, st) \<Rightarrow>
      if ret \<noteq> 0 then (ret, st)
      else (0, acpi_inc aml_len (put_bytes (ac_current st) (mem_read 36 aml_len AmlCode) st)))"

definition acpi_write_dsdt ::
    "acpi_dm \<Rightarrow> mem \<Rightarrow> (nat \<Rightarrow> acpi_st \<Rightarrow> int \<times> acpi_st) \<Rightarrow> acpi_st \<Rightarrow> int \<times> acpi_st" where
  "acpi_write_dsdt dm AmlCode acpi_patch_dsdt st =
     (let dsdt = ac_current st;
          st = put_bytes dsdt (mem_read 0 36 AmlCode) st;
          st = acpi_inc 36 st;
          aml_len = to_int (int (get_field (dsdt + 4) 4 st) - 36)
      in
      case (if aml_len \<noteq> 0 then acpi_copy_aml dm AmlCode (nat aml_len) st else (0, st)) of (ret, st) \<Rightarrow>
      if ret \<noteq> 0 then (ret, st)
      else
        let st = st\<lparr>ac_dsdt := dsdt\<rparr>;
            st = set_field (dsdt + 4) 4 (ac_current st - dsdt) st
        in
        case acpi_patch_dsdt dsdt st of (ret, st) \<Rightarrow>
        if ret \<noteq> 0 then (ret, st)
        else (0, set_checksum dsdt (set_field (dsdt + 9) 1 0 st)))"

definition acpi_write_ssdt :: "acpi_dm \<Rightarrow> acpi_st \<Rightarrow> int \<times> acpi_st" where
  "acpi_write_ssdt dm st =
     (let ssdt = ac_current st;
          st = c_memset0 ssdt 36 st;
          st = acpi_fill_header ssdt ''SSDT'' st;
          st = set_fields ssdt [(8, 1, rev_byte ACPITAB_SSDT), (4, 4, 36)] st;
          st = acpi_inc 36 st
      in
      case acpi_fill_ssdt dm st of (ret, st) \<Rightarrow>
      if ret \<noteq> 0 then (ret, st\<lparr>ac_current := ssdt\<rparr>)
      else
        let st = set_field (ssdt + 4) 4 (ac_current st - ssdt) st;
            st = set_checksum ssdt st
        in
        if get_field (ssdt + 4) 4 st = 36 then (- ENOENT, st)
        else (0, snd (acpi_add_table ssdt st)))"

text \<open>The default of a hook that is \<open>__weak\<close> in lib/acpi.\<close>

definition weak_acpi_fill_csrt :: "acpi_st \<Rightarrow> int \<times> acpi_st" where
  "weak_acpi_fill_csrt st = (0, st)"

definition weak_acpi_fill_mcfg :: "acpi_st \<Rightarrow> int \<times> acpi_st" where
  "weak_acpi_fill_mcfg st = (- ENOENT, st)"

definition weak_acpi_fill_iort :: "acpi_st \<Rightarrow> int \<times> acpi_st" where
  "weak_acpi_fill_iort st = (0, st)"

definition weak_acpi_patch_dsdt :: "nat \<Rightarrow> acpi_st \<Rightarrow> int \<times> acpi_st" where
  "weak_acpi_patch_dsdt dsdt st = (0, st)"

definition acpi_write_csrt :: "(acpi_st \<Rightarrow> int \<times> acpi_st) \<Rightarrow> acpi_st \<Rightarrow> int \<times> acpi_st" where
  "acpi_write_csrt acpi_fill_csrt st =
     (let csrt = ac_current st;
          st = c_memset0 csrt 36 st;
          st = acpi_fill_header csrt ''CSRT'' st;
          st = set_field (csrt + 8) 1 0 st;
          st = acpi_inc 36 st
      in
      case acpi_fill_csrt st of (ret, st) \<Rightarrow>
      if ret \<noteq> 0 then (ret, st)
      else
        let st = set_field (csrt + 4) 4 (ac_current st - csrt) st;
            st = set_checksum csrt st
        in (0, snd (acpi_add_table csrt st)))"

definition acpi_create_mcfg_mmconfig :: "nat \<Rightarrow> nat \<Rightarrow> nat \<Rightarrow> nat \<Rightarrow> nat \<Rightarrow> acpi_st \<Rightarrow> int \<times> acpi_st" where
  "acpi_create_mcfg_mmconfig mmconfig base seg_nr start end' st =
     (let st = c_memset0 mmconfig 16 st
      in (16, set_fields mmconfig [(0, 4, base), (4, 4, 0), (8, 2, seg_nr), (10, 1, start), (11, 1, end')] st))"

definition acpi_write_mcfg :: "(acpi_st \<Rightarrow> int \<times> acpi_st) \<Rightarrow> acpi_st \<Rightarrow> int \<times> acpi_st" where
  "acpi_write_mcfg acpi_fill_mcfg st =
     (let mcfg = ac_current st;
          st = c_memset0 mcfg 44 st;
          st = acpi_fill_header mcfg ''MCFG'' st;
          st = set_fields mcfg [(4, 4, 44), (8, 1, 1)] st;
          st = acpi_inc 44 st
      in
      case acpi_fill_mcfg st of (ret, st) \<Rightarrow>
      if ret \<noteq> 0 then (ret, st)
      else
        let st = set_field (mcfg + 4) 4 (ac_current st - mcfg) st;
            st = set_checksum mcfg st
        in (0, snd (acpi_add_table mcfg st)))"

subsection \<open>FADT and MADT (lib/acpi/acpi_table.c, arch/arm/lib/acpi_table.c)\<close>

definition SZ_FADT :: nat where "SZ_FADT = 276"
definition SZ_MADT :: nat where "SZ_MADT = 44"
definition SZ_GICC :: nat where "SZ_GICC = 80"

definition acpi_add_fadt :: "nat \<Rightarrow> acpi_st \<Rightarrow> int \<times> acpi_st" where
  "acpi_add_fadt fadt st = (0, acpi_inc SZ_FADT (snd (acpi_add_table fadt st)))"

text \<open>The assignments up to the checksum; the hook comes last.\<close>

definition fadt_fields :: "(nat \<Rightarrow> acpi_st \<Rightarrow> acpi_st) \<Rightarrow> acpi_st \<Rightarrow> acpi_st" where
  "fadt_fields acpi_fill_fadt st =
     (let fadt = ac_current st;
          st = c_memset0 fadt SZ_FADT st;
          st = acpi_fill_header fadt ''FACP'' st;
          st = set_fields fadt [(4, 4, SZ_FADT), (8, 1, rev_byte ACPITAB_FADT)] st;
          st = put_bytes (fadt + 10) (bytes_of_string ''U-BOOT'') st;
          st = put_bytes (fadt + 16) (bytes_of_string ''U-BOOTBL'') st;
          st = put_bytes (fadt + 28) (bytes_of_string ''INTL'') st;
          st = set_fields fadt [(32, 4, 1), (131, 1, 2), (132, 8, ac_facs st), (140, 8, ac_dsdt st)] st;
          st = (if get_field (fadt + 132) 8 st < 0x100000000 then set_field (fadt + 36) 4 (get_field (fadt + 132) 8 st) st else st);
          st = (if get_field (fadt + 140) 8 st < 0x100000000 then set_field (fadt + 40) 4 (get_field (fadt + 140) 8 st) st else st);
          st = set_field (fadt + 45) 1 0 st
      in acpi_fill_fadt fadt st)"

definition acpi_write_fadt :: "(nat \<Rightarrow> acpi_st \<Rightarrow> acpi_st) \<Rightarrow> acpi_st \<Rightarrow> int \<times> acpi_st" where
  "acpi_write_fadt acpi_fill_fadt st =
     (let fadt = ac_current st;
          st = set_checksum fadt (fadt_fields acpi_fill_fadt st)
      in acpi_add_fadt fadt st)"

text \<open>The board does not build the parking protocol (\<open>CONFIG_ACPI_PARKING_PROTOCOL\<close>).\<close>

definition acpi_write_madt :: "(nat \<Rightarrow> acpi_st \<Rightarrow> nat \<times> acpi_st) \<Rightarrow> acpi_st \<Rightarrow> int \<times> acpi_st" where
  "acpi_write_madt acpi_fill_madt st =
     (let madt = ac_current st;
          st = c_memset0 madt SZ_MADT st;
          st = acpi_fill_header madt ''APIC'' st;
          st = set_fields madt [(4, 4, SZ_MADT), (8, 1, rev_byte ACPITAB_MADT)] st;
          st = acpi_inc SZ_MADT st
      in
      case acpi_fill_madt madt st of (current, st) \<Rightarrow>
      let st = set_field (madt + 4) 4 (current - madt) st;
          st = set_checksum madt st;
          st = snd (acpi_add_table madt st)
      in (0, st\<lparr>ac_current := madt + get_field (madt + 4) 4 st\<rparr>))"

definition acpi_write_madt_gicc ::
    "nat \<Rightarrow> nat \<Rightarrow> nat \<Rightarrow> nat \<Rightarrow> nat \<Rightarrow> nat \<Rightarrow> nat \<Rightarrow> nat \<Rightarrow> nat \<Rightarrow> nat \<Rightarrow> acpi_st \<Rightarrow> acpi_st" where
  "acpi_write_madt_gicc gicc cpu_num perf_gsiv phys_base gicv gich vgic_maint_irq gicr_base mpidr efficiency st =
     set_fields gicc
       [(0, 1, 11), (1, 1, SZ_GICC), (4, 4, cpu_num), (8, 4, cpu_num), (12, 4, 1), (20, 4, perf_gsiv),
        (32, 8, phys_base), (40, 8, gicv), (48, 8, gich), (56, 4, vgic_maint_irq), (60, 8, gicr_base),
        (68, 8, mpidr), (76, 1, efficiency)]
       (c_memset0 gicc SZ_GICC st)"

definition acpi_write_madt_gicd :: "nat \<Rightarrow> nat \<Rightarrow> nat \<Rightarrow> nat \<Rightarrow> acpi_st \<Rightarrow> acpi_st" where
  "acpi_write_madt_gicd gicd gic_id phys_base gic_version st =
     set_fields gicd [(0, 1, 12), (1, 1, 24), (4, 4, gic_id), (8, 8, phys_base), (20, 1, gic_version)]
       (c_memset0 gicd 24 st)"

definition acpi_write_madt_gicr :: "nat \<Rightarrow> nat \<Rightarrow> nat \<Rightarrow> acpi_st \<Rightarrow> acpi_st" where
  "acpi_write_madt_gicr gicr discovery_range_base_address discovery_range_length st =
     set_fields gicr [(0, 1, 14), (1, 1, 16), (4, 8, discovery_range_base_address), (12, 4, discovery_range_length)]
       (c_memset0 gicr 16 st)"

definition acpi_write_madt_its :: "nat \<Rightarrow> nat \<Rightarrow> nat \<Rightarrow> acpi_st \<Rightarrow> acpi_st" where
  "acpi_write_madt_its its its_id physical_base_address st =
     set_fields its [(0, 1, 15), (1, 1, 20), (4, 4, its_id), (8, 8, physical_base_address)]
       (c_memset0 its 20 st)"

text \<open>The default of \<open>acpi_fill_madt\<close> on ARM; probing the devices does not touch the tables.\<close>

definition weak_acpi_fill_madt :: "acpi_dm \<Rightarrow> nat \<Rightarrow> acpi_st \<Rightarrow> nat \<times> acpi_st" where
  "weak_acpi_fill_madt dm madt st = (case acpi_fill_madt_subtbl dm st of (_, st) \<Rightarrow> (ac_current st, st))"

subsection \<open>PPTT nodes (arch/arm/lib/acpi_table.c)\<close>

text \<open>Both return the offset of the node in the table.\<close>

definition acpi_pptt_add_proc :: "nat \<Rightarrow> nat \<Rightarrow> nat \<Rightarrow> nat list \<Rightarrow> acpi_st \<Rightarrow> nat \<times> acpi_st" where
  "acpi_pptt_add_proc flags parent proc_id resource_list st =
     (let proc = ac_current st;
          offset = ac_current st - ac_tab_start st;
          n = length resource_list;
          st = set_fields proc [(0, 1, 0), (4, 4, flags), (8, 4, parent), (12, 4, proc_id), (16, 4, n), (1, 1, 20 + 4 * n)] st;
          st = put_bytes (proc + 20) (concat (map (le_bytes 4) resource_list)) st
      in (offset, acpi_inc (get_field (proc + 1) 1 st) st))"

definition acpi_pptt_add_cache ::
    "nat \<Rightarrow> nat \<Rightarrow> nat \<Rightarrow> nat \<Rightarrow> nat \<Rightarrow> nat \<Rightarrow> nat \<Rightarrow> acpi_st \<Rightarrow> nat \<times> acpi_st" where
  "acpi_pptt_add_cache flags next_cache_level size' sets assoc attributes line_size st =
     (let cache = ac_current st;
          offset = ac_current st - ac_tab_start st;
          st = set_fields cache
            [(0, 1, 1), (1, 1, 24), (4, 4, flags), (8, 4, next_cache_level), (12, 4, size'), (16, 4, sets),
             (20, 1, assoc), (21, 1, attributes), (22, 2, line_size)] st
      in (offset, acpi_inc (get_field (cache + 1) 1 st) st))"

subsection \<open>DBG2 (lib/acpi/acpi_table.c)\<close>

text \<open>A generic register address, as its twelve bytes.\<close>

definition acpi_gen_regaddr :: "nat \<Rightarrow> nat \<Rightarrow> nat \<Rightarrow> nat \<Rightarrow> nat \<Rightarrow> nat \<Rightarrow> buf" where
  "acpi_gen_regaddr space_id bit_width bit_offset access_size addrl addrh =
     le_bytes 1 space_id @ le_bytes 1 bit_width @ le_bytes 1 bit_offset @ le_bytes 1 access_size @
     le_bytes 4 addrl @ le_bytes 4 addrh"

definition dbg2_fields :: "nat \<Rightarrow> nat \<Rightarrow> nat \<Rightarrow> buf \<Rightarrow> nat \<Rightarrow> string option \<Rightarrow> acpi_st \<Rightarrow> acpi_st" where
  "dbg2_fields dbg2 port_type port_subtype address address_size device_path st =
     (let st = c_memset0 dbg2 44 st;
          st = set_field (dbg2 + 8) 1 (rev_byte ACPITAB_DBG2) st;
          st = acpi_fill_header dbg2 ''DBG2'' st;
          st = set_fields dbg2 [(36, 4, 44), (40, 4, 1)] st;
          device = dbg2 + 44;
          st = c_memset0 device 22 st;
          st = set_fields device [(0, 1, 0), (3, 1, 1), (12, 2, port_type), (14, 2, port_subtype)] st;
          current = device + 22;
          st = put_bytes current (take 12 address) st;
          st = set_field (device + 18) 2 (current - device) st;
          current = current + 12;
          st = set_field (device + 20) 2 (current - device) st;
          st = set_field current 4 address_size st;
          current = current + 4;
          path = (case device_path of None \<Rightarrow> ''.'' | Some p \<Rightarrow> p);
          path_len = length path + 1;
          st = set_fields device [(4, 2, path_len), (6, 2, current - device)] st;
          st = put_bytes current (bytes_of_string path @ [0]) st;
          current = current + path_len;
          st = set_field (device + 1) 2 (current - device) st
      in set_field (dbg2 + 4) 4 (current - dbg2) st)"

definition acpi_create_dbg2 :: "nat \<Rightarrow> nat \<Rightarrow> nat \<Rightarrow> buf \<Rightarrow> nat \<Rightarrow> string option \<Rightarrow> acpi_st \<Rightarrow> acpi_st" where
  "acpi_create_dbg2 dbg2 port_type port_subtype address address_size device_path st =
     set_checksum dbg2 (dbg2_fields dbg2 port_type port_subtype address address_size device_path st)"

subsection \<open>IORT (lib/acpi/acpi_table.c)\<close>

text \<open>
  Each builder appends a node and returns its offset in the table. The length of a node is a 16-bit
  field; \<open>iort_finish\<close> is the common end \<open>ctx->current += node->length\<close>.
\<close>

record acpi_iort_id_mapping =
  im_input_base :: nat
  im_id_count :: nat
  im_output_base :: nat
  im_output_reference :: nat
  im_flags :: nat

definition id_mapping_bytes :: "acpi_iort_id_mapping \<Rightarrow> buf" where
  "id_mapping_bytes im =
     le_bytes 4 (im_input_base im) @ le_bytes 4 (im_id_count im) @ le_bytes 4 (im_output_base im) @
     le_bytes 4 (im_output_reference im) @ le_bytes 4 (im_flags im)"

definition SZ_IORT :: nat where "SZ_IORT = 48"

definition iort_finish :: "nat \<Rightarrow> acpi_st \<Rightarrow> nat \<times> acpi_st" where
  "iort_finish node st =
     (node - ac_tab_start st, st\<lparr>ac_current := node + get_field (node + 1) 2 st\<rparr>)"

definition acpi_iort_add_its_group :: "nat list \<Rightarrow> acpi_st \<Rightarrow> nat \<times> acpi_st" where
  "acpi_iort_add_its_group identifiers st =
     (let node = ac_current st;
          its_count = length identifiers;
          st = c_memset0 node 16 st;
          st = set_fields node [(0, 1, 0), (3, 1, 1), (1, 2, 16 + 4 + 4 * its_count), (16, 4, its_count)] st;
          st = put_bytes (node + 20) (concat (map (le_bytes 4) identifiers)) st
      in iort_finish node st)"

definition acpi_iort_add_named_component ::
    "nat \<Rightarrow> nat \<Rightarrow> nat \<Rightarrow> string \<Rightarrow> acpi_iort_id_mapping list \<Rightarrow> acpi_st \<Rightarrow> nat \<times> acpi_st" where
  "acpi_iort_add_named_component node_flags memory_properties memory_address_limit device_name mappings st =
     (let node = ac_current st;
          n = length mappings;
          namelen = length device_name + 1;
          st = c_memset0 node 16 st;
          st = set_fields node
            [(0, 1, 1), (3, 1, 4), (8, 4, n), (12, 4, 16 + 13 + namelen), (1, 2, 16 + 13 + namelen + 20 * n),
             (16, 4, node_flags), (20, 8, memory_properties), (28, 1, memory_address_limit)] st;
          st = put_bytes (node + 29) (bytes_of_string device_name @ [0]) st;
          st = put_bytes (node + 29 + namelen) (concat (map id_mapping_bytes mappings)) st
      in iort_finish node st)"

definition acpi_iort_add_rc ::
    "nat \<Rightarrow> nat \<Rightarrow> nat \<Rightarrow> nat \<Rightarrow> acpi_iort_id_mapping list \<Rightarrow> acpi_st \<Rightarrow> nat \<times> acpi_st" where
  "acpi_iort_add_rc mem_access_properties ats_attributes pci_segment_number memory_address_size_limit mappings st =
     (let node = ac_current st;
          n = length mappings;
          st = c_memset0 node 16 st;
          st = set_fields node
            [(0, 1, 2), (3, 1, 2), (8, 4, n), (12, 4, 16 + 20), (1, 2, 16 + 20 + 20 * n),
             (16, 8, mem_access_properties), (24, 4, ats_attributes), (28, 4, pci_segment_number),
             (32, 1, memory_address_size_limit)] st;
          st = put_bytes (node + 36) (concat (map id_mapping_bytes mappings)) st
      in iort_finish node st)"

definition acpi_iort_add_smmu_v3 ::
    "nat \<Rightarrow> nat \<Rightarrow> nat \<Rightarrow> nat \<Rightarrow> nat \<Rightarrow> nat \<Rightarrow> nat \<Rightarrow> nat \<Rightarrow> nat \<Rightarrow> nat \<Rightarrow> acpi_iort_id_mapping list \<Rightarrow>
     acpi_st \<Rightarrow> nat \<times> acpi_st" where
  "acpi_iort_add_smmu_v3 base_address flags vatos_address model event_gsiv pri_gsiv gerr_gsiv sync_gsiv pxm
       id_mapping_index mappings st =
     (let node = ac_current st;
          n = length mappings;
          st = c_memset0 node 16 st;
          st = set_fields node
            [(0, 1, 4), (3, 1, 5), (8, 4, n), (12, 4, 16 + 52), (1, 2, 16 + 52 + 20 * n),
             (16, 8, base_address), (24, 4, flags), (32, 8, vatos_address), (40, 4, model), (44, 4, event_gsiv),
             (48, 4, pri_gsiv), (52, 4, gerr_gsiv), (56, 4, sync_gsiv), (60, 4, pxm), (64, 4, id_mapping_index)] st;
          st = put_bytes (node + 68) (concat (map id_mapping_bytes mappings)) st
      in iort_finish node st)"

definition irq_pair_bytes :: "nat \<times> nat \<Rightarrow> buf" where
  "irq_pair_bytes irq = le_bytes 4 (fst irq) @ le_bytes 4 (snd irq)"

definition acpi_iort_add_smmu ::
    "nat \<Rightarrow> nat \<Rightarrow> nat \<Rightarrow> nat \<Rightarrow> nat list \<Rightarrow> nat list \<Rightarrow> (nat \<times> nat) list \<Rightarrow> (nat \<times> nat) list \<Rightarrow>
     acpi_iort_id_mapping list \<Rightarrow> acpi_st \<Rightarrow> nat \<times> acpi_st" where
  "acpi_iort_add_smmu base_address span model flags global_gsiv global_flags ctx_irq pmu_irq mappings st =
     (let node = ac_current st;
          n = length mappings; nc = length ctx_irq; np = length pmu_irq;
          off = 16 + 44 + 16 + 16 + nc * 8 + np * 8;
          st = c_memset0 node 16 st;
          st = set_fields node
            [(0, 1, 3), (3, 1, 3), (8, 4, n), (12, 4, off), (1, 2, off + 20 * n),
             (16, 8, base_address), (24, 8, span), (32, 4, model), (36, 4, flags), (40, 4, 44), (44, 4, nc),
             (48, 4, 44 + 16 + 16), (52, 4, np), (56, 4, 44 + 16 + 16 + nc * 8)] st;
          st = put_bytes (node + 60) (concat (map (le_bytes 4) (take 4 global_gsiv))) st;
          st = put_bytes (node + 76) (concat (map (le_bytes 4) (take 4 global_flags))) st;
          st = put_bytes (node + 92) (concat (map irq_pair_bytes ctx_irq)) st;
          st = put_bytes (node + 92 + nc * 8) (concat (map irq_pair_bytes pmu_irq)) st;
          st = put_bytes (node + get_field (node + 12) 4 st) (concat (map id_mapping_bytes mappings)) st
      in iort_finish node st)"

text \<open>The loop that counts the nodes: it stops at a zero length or at the end of the table.\<close>

function iort_count_nodes :: "acpi_st \<Rightarrow> nat \<Rightarrow> nat \<Rightarrow> nat" where
  "iort_count_nodes st node n =
     (if get_field (node + 1) 2 st > 0 \<and> node < ac_current st
      then iort_count_nodes st (node + get_field (node + 1) 2 st) (n + 1)
      else n)"
  by pat_completeness auto
termination by (relation "measure (\<lambda>(st, node, n). ac_current st - node)") auto

declare iort_count_nodes.simps [simp del]

definition acpi_write_iort :: "(acpi_st \<Rightarrow> int \<times> acpi_st) \<Rightarrow> acpi_st \<Rightarrow> int \<times> acpi_st" where
  "acpi_write_iort acpi_fill_iort st =
     (let iort = ac_current st;
          st = st\<lparr>ac_tab_start := iort\<rparr>;
          st = c_memset0 iort SZ_IORT st;
          st = acpi_fill_header iort ''IORT'' st;
          st = set_fields iort [(8, 1, 1), (32, 4, 1), (4, 4, SZ_IORT), (40, 4, SZ_IORT)] st;
          st = acpi_inc SZ_IORT st
      in
      case acpi_fill_iort st of (ret, st) \<Rightarrow>
      if ret \<noteq> 0 then (ret, st\<lparr>ac_current := iort\<rparr>)
      else
        let st = set_field (iort + 36) 4
                   (get_field (iort + 36) 4 st + iort_count_nodes st (iort + get_field (iort + 40) 4 st) 0) st;
            st = set_field (iort + 4) 4 (ac_current st - iort) st;
            st = set_checksum iort st
        in
        if get_field (iort + 4) 4 st = SZ_IORT then (- ENOENT, st)
        else (0, snd (acpi_add_table iort st)))"

section \<open>Running the writers (lib/acpi/acpi_writer.c)\<close>

record acpi_writer =
  aw_name :: string
  aw_h_write :: "acpi_st \<Rightarrow> int \<times> acpi_st"
  aw_align64 :: bool

definition acpi_write_one :: "acpi_writer \<Rightarrow> acpi_st \<Rightarrow> int \<times> acpi_st" where
  "acpi_write_one entry st =
     (case aw_h_write entry (st\<lparr>ac_tab_start := ac_current st\<rparr>) of (ret, st) \<Rightarrow>
      if ret = - ENOENT then (0, st\<lparr>ac_current := ac_tab_start st\<rparr>)
      else if ret \<noteq> 0 then (ret, st)
      else
        let st = (if aw_align64 entry then acpi_align64 st else acpi_align st)
        in acpi_add_other_item (aw_name entry) (ac_tab_start st) st)"

fun acpi_write_all :: "acpi_writer list \<Rightarrow> acpi_st \<Rightarrow> int \<times> acpi_st" where
  "acpi_write_all [] st = (0, st)"
| "acpi_write_all (entry # entries) st =
     (case acpi_write_one entry st of (ret, st) \<Rightarrow>
      if ret \<noteq> 0 \<and> ret \<noteq> - ENOENT then (ret, st) else acpi_write_all entries st)"

definition acpi_setup_ctx :: "nat \<Rightarrow> acpi_st \<Rightarrow> acpi_st" where
  "acpi_setup_ctx start st =
     (let start = ALIGN start 16 in
      st\<lparr>ac_base := start, ac_current := start, ac_tab_start := 0, ac_rsdp := 0, ac_rsdt := 0, ac_xsdt := 0,
         ac_facs := 0, ac_dsdt := 0, ac_start := start\<rparr>)"

definition SZ_ACPI_CTX :: nat where "SZ_ACPI_CTX = 160"

text \<open>An error is returned as the \<open>ulong\<close> that the negative number converts to.\<close>

definition write_acpi_tables :: "acpi_writer list \<Rightarrow> nat \<Rightarrow> acpi_st \<Rightarrow> nat \<times> acpi_st" where
  "write_acpi_tables writers start_addr st =
     (case c_malloc (ac_heap st) SZ_ACPI_CTX of
        None \<Rightarrow> (nat (to_ulong (- ENOMEM)), st)
      | Some _ \<Rightarrow>
          (case acpi_write_all writers (acpi_setup_ctx start_addr (acpi_reset_items st)) of (ret, st) \<Rightarrow>
           if ret \<noteq> 0 then (nat (to_ulong (- ENOMEM)), st) else (ac_current st, st)))"

definition write_dev_tables :: "acpi_dm \<Rightarrow> acpi_st \<Rightarrow> int \<times> acpi_st" where
  "write_dev_tables dm st = acpi_write_dev_tables dm st"

definition TABLE_SIZE :: nat where "TABLE_SIZE = 0x40000"

text \<open>
  \<open>alloc_write_acpi_tables\<close> on a board that selects \<open>CONFIG_BLOBLIST_TABLES\<close>; \<open>addr\<close> is what
  \<open>bloblist_add\<close> returned, with \<open>NULL\<close> for no memory.
\<close>

definition alloc_write_acpi_tables :: "acpi_writer list \<Rightarrow> nat \<Rightarrow> acpi_st \<Rightarrow> int \<times> acpi_st" where
  "alloc_write_acpi_tables writers addr st =
     (if addr = 0 then (- ENOMEM, st)
      else
        case write_acpi_tables writers addr st of (table_end, st) \<Rightarrow>
        if table_end = 0 then (- EINTR, st)
        else if table_end > addr + TABLE_SIZE then (- ENOSPC, st)
        else (0, st))"

section \<open>Specification of the proofs\<close>

text \<open>The signature of the table at an address.\<close>

definition signature :: "acpi_st \<Rightarrow> nat \<Rightarrow> buf" where
  "signature st a = mem_read a 4 (ac_mem st)"

text \<open>
  What a writer may do to the tables: the state stays well formed up to the new limit \<open>c\<close>, the memory
  between the XSDT and the old limit is untouched, and the tables that were added have one of the
  signature sequences \<open>S\<close>, as far as the root tables have room for them.
\<close>

definition tables_kept :: "buf list set \<Rightarrow> acpi_st \<Rightarrow> nat list \<Rightarrow> nat \<Rightarrow> acpi_st \<Rightarrow> bool" where
  "tables_kept S st tabs c st' \<longleftrightarrow>
     (\<exists>ts. acpi_wf st' c (tabs @ ts) \<and> (\<exists>sigs \<in> S. map (signature st') ts = take (MAX_ACPI_TABLES - length tabs) sigs)) \<and>
     (\<forall>x. ac_xsdt st + SZ_XSDT \<le> x \<and> x < ac_current st \<longrightarrow> ac_mem st' x = ac_mem st x)"

text \<open>
  The contract of a writer. On success the tables end at \<open>ctx->current\<close>; a writer that returns
  \<open>-ENOENT\<close> is dropped, and they end at \<open>ctx->tab_start\<close>. The limit of 2 GiB keeps lengths and checksums
  within their types.
\<close>

definition writer_ok :: "(acpi_st \<Rightarrow> int \<times> acpi_st) \<Rightarrow> buf list set \<Rightarrow> bool" where
  "writer_ok w S \<longleftrightarrow>
     (\<forall>st r st'. w st = (r, st') \<and> ac_tab_start st = ac_current st \<longrightarrow>
        same_roots st st' \<and> ac_current st \<le> ac_tab_start st' \<and> (r = 0 \<longrightarrow> ac_current st \<le> ac_current st') \<and>
        (\<forall>tabs. acpi_wf st (ac_current st) tabs \<longrightarrow>
           (r = 0 \<and> ac_current st' \<le> ac_base st + 2 ^ 31 \<longrightarrow> tables_kept S st tabs (ac_current st') st') \<and>
           (r = - ENOENT \<and> ac_tab_start st' \<le> ac_base st + 2 ^ 31 \<longrightarrow> tables_kept S st tabs (ac_tab_start st') st')))"

text \<open>A step that only writes behind the current position and advances it.\<close>

definition extends :: "acpi_st \<Rightarrow> acpi_st \<Rightarrow> bool" where
  "extends st st' \<longleftrightarrow>
     same_roots st st' \<and> ac_current st \<le> ac_current st' \<and>
     (ac_tab_start st' = ac_tab_start st \<or> ac_current st \<le> ac_tab_start st') \<and>
     (\<forall>x < ac_current st. ac_mem st' x = ac_mem st x)"

text \<open>
  The contract of the drivers: a method that fills the SSDT or injects into the DSDT extends the
  table, a method that writes tables is a writer, and preparing a device does not report \<open>-ENOENT\<close>,
  which \<open>acpi_write_one\<close> would take for an empty table.
\<close>

fun all_devices :: "udevice \<Rightarrow> udevice list" where
  "all_devices (UDevice n ms p cs) = UDevice n ms p cs # concat (map all_devices cs)"

definition device_ok :: "udevice \<Rightarrow> bool" where
  "device_ok d \<longleftrightarrow>
     (\<forall>f. dev_method d METHOD_FILL_SSDT = Some f \<or> dev_method d METHOD_INJECT_DSDT = Some f \<longrightarrow> (\<forall>st. extends st (snd (f st)))) \<and>
     (\<forall>f. dev_method d METHOD_WRITE_TABLES = Some f \<longrightarrow> writer_ok f UNIV) \<and> dev_to_plat d \<noteq> - ENOENT"

definition acpi_dm_ok :: "acpi_dm \<Rightarrow> bool" where
  "acpi_dm_ok dm \<longleftrightarrow> list_all device_ok (all_devices (dm_root dm))"

text \<open>A table at the current position that is completed, checksummed and added.\<close>

definition table_built :: "acpi_st \<Rightarrow> acpi_st \<Rightarrow> nat \<Rightarrow> buf \<Rightarrow> bool" where
  "table_built st s L sig \<longleftrightarrow>
     same_roots st s \<and> (\<forall>x < ac_current st. ac_mem s x = ac_mem st x) \<and> ac_mem s (ac_current st + 9) = 0 \<and>
     get_field (ac_current st + 4) 4 s = L \<and> 36 \<le> L \<and> mem_read (ac_current st) 4 (ac_mem s) = sig"

definition table_done :: "acpi_st \<Rightarrow> acpi_st \<Rightarrow> acpi_st" where
  "table_done st s = snd (acpi_add_table (ac_current st) (set_checksum (ac_current st) s))"

text \<open>
  Every writer of one table comes down to this: it builds the table in a state \<open>s\<close>, finishes it and
  moves the current position behind it, by at most \<open>n\<close> bytes.
\<close>

definition builds_table :: "(acpi_st \<Rightarrow> int \<times> acpi_st) \<Rightarrow> buf \<Rightarrow> nat \<Rightarrow> bool" where
  "builds_table w sig n \<longleftrightarrow>
     (\<forall>st. ac_tab_start st = ac_current st \<longrightarrow>
        (\<exists>s L c. table_built st s L sig \<and> ac_tab_start s = ac_tab_start st \<and> ac_item_count s = ac_item_count st \<and>
           w st = (0, (table_done st s)\<lparr>ac_current := c\<rparr>) \<and> ac_current st \<le> c \<and>
           (get_field (ac_current st + 4) 4 (table_done st s) = L \<longrightarrow> ac_current st + L \<le> c \<and> c \<le> ac_current st + n)))"

text \<open>
  A writer that always finishes: on well-formed tables it succeeds or drops the table, uses at most
  \<open>n\<close> bytes and records no items.
\<close>

definition writer_bound :: "(acpi_st \<Rightarrow> int \<times> acpi_st) \<Rightarrow> nat \<Rightarrow> bool" where
  "writer_bound w n \<longleftrightarrow>
     (\<forall>st tabs. acpi_wf st (ac_current st) tabs \<and> ac_tab_start st = ac_current st \<longrightarrow>
        (case w st of (r, st') \<Rightarrow>
           ac_item_count st' = ac_item_count st \<and>
           (r = 0 \<and> ac_current st' \<le> ac_current st + n \<or> r = - ENOENT \<and> ac_tab_start st' \<le> ac_current st + n)))"

text \<open>The effect of a run of table-writing steps, before \<open>acpi_write_one\<close> looks at it.\<close>

definition steps_ok :: "acpi_st \<Rightarrow> int \<times> acpi_st \<Rightarrow> bool" where
  "steps_ok st res \<longleftrightarrow> (case res of (r, st') \<Rightarrow>
     same_roots st st' \<and> (ac_tab_start st' = ac_tab_start st \<or> ac_current st \<le> ac_tab_start st') \<and>
     (r = 0 \<longrightarrow> ac_current st \<le> ac_current st') \<and>
     (r = - ENOENT \<longrightarrow> ac_current st \<le> ac_tab_start st') \<and>
     (\<forall>tabs. acpi_wf st (ac_current st) tabs \<longrightarrow>
        (r = 0 \<and> ac_current st' \<le> ac_base st + 2 ^ 31 \<longrightarrow> tables_kept UNIV st tabs (ac_current st') st') \<and>
        (r = - ENOENT \<and> ac_tab_start st' \<le> ac_base st + 2 ^ 31 \<longrightarrow> tables_kept UNIV st tabs (ac_tab_start st') st')))"

text \<open>A hook that patches the table at \<open>dsdt\<close> in place.\<close>

definition patch_ok :: "(nat \<Rightarrow> acpi_st \<Rightarrow> int \<times> acpi_st) \<Rightarrow> bool" where
  "patch_ok f \<longleftrightarrow> (\<forall>dsdt st. \<exists>hi. writes_only (dsdt + 36) hi st (snd (f dsdt st)))"

text \<open>The signatures that a sequence of writers may add.\<close>

fun sig_seqs :: "buf list set list \<Rightarrow> buf list set" where
  "sig_seqs [] = {[]}"
| "sig_seqs (S # Ss) = (\<lambda>(x, y). x @ y) ` (S \<times> sig_seqs Ss)"

text \<open>What is established for the caller: the tables are well formed and the XSDT lists what was written.\<close>

definition acpi_published :: "buf list set \<Rightarrow> acpi_st \<Rightarrow> bool" where
  "acpi_published Sigs st \<longleftrightarrow>
     (\<exists>tabs. acpi_wf st (ac_current st) tabs \<and> (\<exists>sigs \<in> Sigs. map (signature st) tabs = take MAX_ACPI_TABLES sigs))"

section \<open>Lemmas\<close>

lemma same_roots_refl [simp]: "same_roots st st"
  by (simp add: same_roots_def)

lemma same_roots_trans: "same_roots st s \<Longrightarrow> same_roots s st' \<Longrightarrow> same_roots st st'"
  by (simp add: same_roots_def)

lemma extends_refl [simp]: "extends st st"
  by (simp add: extends_def)

lemma extends_trans: "extends st s \<Longrightarrow> extends s st' \<Longrightarrow> extends st st'"
  unfolding extends_def by (auto intro: same_roots_trans)

lemma acpi_add_table_frame: "\<exists>m. snd (acpi_add_table a st) = st\<lparr>ac_mem := m\<rparr>"
proof -
  have e: "\<exists>m. st' = st\<lparr>ac_mem := m\<rparr>" if "sdt_add_entry sdt w a st = (r, st')" "0 < w" "w \<le> 8" for sdt w r st' and st :: acpi_st
    using sdt_add_entry_ok [OF that] by (auto simp: writes_only_def)
  obtain r1 s1 where s1: "(if ac_rsdt st \<noteq> 0 then sdt_add_entry (ac_rsdt st) 4 a st else (0, st)) = (r1, s1)"
    by (metis surj_pair)
  have "\<exists>m. s1 = st\<lparr>ac_mem := m\<rparr>"
  proof (cases "ac_rsdt st = 0")
    case True
    then have "s1 = st\<lparr>ac_mem := ac_mem st\<rparr>" using s1 by simp
    then show ?thesis by (rule exI [where x = "ac_mem st"])
  qed (use s1 e [of "ac_rsdt st" 4 st r1 s1] in simp)
  then obtain m1 where m1: "s1 = st\<lparr>ac_mem := m1\<rparr>" ..
  obtain r2 s2 where s2: "sdt_add_entry (ac_xsdt s1) 8 a s1 = (r2, s2)" by (metis surj_pair)
  obtain m2 where m2: "s2 = s1\<lparr>ac_mem := m2\<rparr>" using e [OF s2] by auto
  have "snd (acpi_add_table a st) = s1 \<or> snd (acpi_add_table a st) = s2"
    unfolding acpi_add_table_def s1 using s2 by simp
  then show ?thesis using m1 m2 by auto
qed

lemma acpi_add_table_sel [simp]:
  "ac_base (snd (acpi_add_table a st)) = ac_base st" "ac_current (snd (acpi_add_table a st)) = ac_current st"
  "ac_tab_start (snd (acpi_add_table a st)) = ac_tab_start st" "ac_rsdp (snd (acpi_add_table a st)) = ac_rsdp st"
  "ac_rsdt (snd (acpi_add_table a st)) = ac_rsdt st" "ac_xsdt (snd (acpi_add_table a st)) = ac_xsdt st"
  "ac_facs (snd (acpi_add_table a st)) = ac_facs st" "ac_dsdt (snd (acpi_add_table a st)) = ac_dsdt st"
  "ac_item (snd (acpi_add_table a st)) = ac_item st" "ac_item_count (snd (acpi_add_table a st)) = ac_item_count st"
  "ac_heap (snd (acpi_add_table a st)) = ac_heap st" "ac_start (snd (acpi_add_table a st)) = ac_start st"
  using acpi_add_table_frame [of a st] by auto

text \<open>The end of every writer of one table that starts at the current position.\<close>

lemma finish_kept:
  assumes wf: "acpi_wf st0 (ac_current st0) tabs" and a: "a = ac_current st0" and r: "same_roots st0 st"
    and m: "\<And>x. x < a \<Longrightarrow> ac_mem st x = ac_mem st0 x" and z: "ac_mem st (a + 9) = 0"
    and L: "get_field (a + 4) 4 st = L" "36 \<le> L" "a + L \<le> ac_base st0 + 2 ^ 31"
    and sig: "mem_read a 4 (ac_mem st) = sig" and st': "st' = snd (acpi_add_table a (set_checksum a st))"
  shows "acpi_wf st' (a + L) (add_tab tabs a)" "signature st' a = sig" "get_field (a + 4) 4 st' = L"
    "\<And>x. ac_xsdt st0 + SZ_XSDT \<le> x \<Longrightarrow> x < a \<Longrightarrow> ac_mem st' x = ac_mem st0 x"
proof -
  obtain ret where s: "acpi_add_table a (set_checksum a st) = (ret, st')" using st' by (metis prod.collapse)
  have b: "ac_base st0 + 2 ^ 31 \<le> 2 ^ 64" "ac_xsdt st0 + SZ_XSDT \<le> a" using wf a by (simp_all add: acpi_wf_def layout_ok_def)
  have a64: "a < 2 ^ 64" using b L by simp
  note f = finish_table [OF wf r _ _ a64 z L(1,2) s]
  have f: "acpi_wf st' (a + L) (add_tab tabs a)"
    "writes_only (ac_base st + SZ_RSDP) (ac_xsdt st + SZ_XSDT) (set_checksum a st) st'"
    using f m a by auto
  show "acpi_wf st' (a + L) (add_tab tabs a)" by (rule f(1))
  have x: "ac_xsdt st = ac_xsdt st0" using r by (simp add: same_roots_def)
  have mm: "ac_mem st' x = ac_mem st x" if "ac_xsdt st0 + SZ_XSDT \<le> x" "x \<noteq> a + 9" for x
    using writes_only_mem [OF f(2)] that x by (simp add: set_checksum_mem)
  have "mem_read a 4 (ac_mem st') = mem_read a 4 (ac_mem st)"
    by (rule mem_read_cong) (use mm b(2) in auto)
  then show "signature st' a = sig" using sig by (simp add: signature_def)
  have "get_field (a + 4) 4 st' = get_field (a + 4) 4 st"
    by (rule get_field_cong) (use mm b(2) in auto)
  then show "get_field (a + 4) 4 st' = L" using L(1) by simp
  show "ac_mem st' x = ac_mem st0 x" if "ac_xsdt st0 + SZ_XSDT \<le> x" "x < a" for x
    using mm [of x] m [of x] that by simp
qed

lemma tables_kept_add:
  assumes "acpi_wf st' c (add_tab tabs a)" "signature st' a = sig"
    "\<And>x. ac_xsdt st + SZ_XSDT \<le> x \<Longrightarrow> x < ac_current st \<Longrightarrow> ac_mem st' x = ac_mem st x" "[sig] \<in> S"
  shows "tables_kept S st tabs c st'"
proof (cases "length tabs < MAX_ACPI_TABLES")
  case True
  then have "take (MAX_ACPI_TABLES - length tabs) [sig] = [sig]" by simp
  then show ?thesis unfolding tables_kept_def using assms True
    by (intro conjI exI [of _ "[a]"] bexI [of _ "[sig]"]) (simp_all add: add_tab_def)
next
  case False
  then show ?thesis unfolding tables_kept_def using assms
    by (intro conjI exI [of _ "[]"] bexI [of _ "[sig]"]) (simp_all add: add_tab_def)
qed

lemma tables_kept_none:
  assumes wf: "acpi_wf st (ac_current st) tabs" and r: "same_roots st st'"
    and m: "\<And>x. x < ac_current st \<Longrightarrow> ac_mem st' x = ac_mem st x" and c: "ac_current st \<le> c" and S: "[] \<in> S"
  shows "tables_kept S st tabs c st'"
proof -
  have "acpi_wf st' c tabs" using wf r m c by (rule acpi_wf_frame)
  then show ?thesis unfolding tables_kept_def using S m by (intro conjI exI [of _ "[]"] bexI [of _ "[]"]) auto
qed

lemma acpi_add_table_above:
  assumes l: "layout_ok st c" and x: "ac_xsdt st + SZ_XSDT \<le> x"
  shows "ac_mem (snd (acpi_add_table a st)) x = ac_mem st x"
proof -
  obtain r1 s1 where s1: "(if ac_rsdt st \<noteq> 0 then sdt_add_entry (ac_rsdt st) 4 a st else (0, st)) = (r1, s1)"
    by (metis surj_pair)
  have "ac_mem s1 x = ac_mem st x \<and> ac_xsdt s1 = ac_xsdt st"
  proof (cases "ac_rsdt st = 0")
    case False
    then have "writes_only (ac_rsdt st) (ac_rsdt st + SZ_RSDT) st s1"
      using s1 sdt_add_entry_ok [of "ac_rsdt st" 4 a st r1 s1] by (simp add: SZ_sdt)
    then show ?thesis using writes_only_mem writes_only_sel(6) l x False by (fastforce simp: layout_ok_def)
  qed (use s1 in simp)
  then have e: "ac_mem s1 x = ac_mem st x" "ac_xsdt s1 = ac_xsdt st" by simp_all
  obtain r2 s2 where s2: "sdt_add_entry (ac_xsdt s1) 8 a s1 = (r2, s2)" by (metis surj_pair)
  have "writes_only (ac_xsdt s1) (ac_xsdt s1 + SZ_XSDT) s1 s2"
    using sdt_add_entry_ok [OF s2] by (simp add: SZ_sdt)
  then have "ac_mem s2 x = ac_mem s1 x" by (rule writes_only_mem) (use x e in simp)
  moreover have "snd (acpi_add_table a st) = s1 \<or> snd (acpi_add_table a st) = s2"
    unfolding acpi_add_table_def s1 using s2 by simp
  ultimately show ?thesis using e by auto
qed

lemma acpi_wf_ctx [simp]:
  "acpi_wf (st\<lparr>ac_current := x\<rparr>) c tabs = acpi_wf st c tabs" "acpi_wf (st\<lparr>ac_tab_start := x\<rparr>) c tabs = acpi_wf st c tabs"
  "acpi_wf (st\<lparr>ac_facs := x\<rparr>) c tabs = acpi_wf st c tabs" "acpi_wf (st\<lparr>ac_dsdt := x\<rparr>) c tabs = acpi_wf st c tabs"
  "acpi_wf (st\<lparr>ac_item := its\<rparr>) c tabs = acpi_wf st c tabs" "acpi_wf (st\<lparr>ac_item_count := x\<rparr>) c tabs = acpi_wf st c tabs"
  by (simp_all add: acpi_wf_def layout_ok_def rsdp_ok_def xsdt_ok_def rsdt_ok_def table_ok_def csum_def get_field_def xsdt_entries_def)

lemma signature_ctx [simp]:
  "signature (st\<lparr>ac_current := x\<rparr>) = signature st" "signature (st\<lparr>ac_tab_start := x\<rparr>) = signature st"
  "signature (st\<lparr>ac_facs := x\<rparr>) = signature st" "signature (st\<lparr>ac_dsdt := x\<rparr>) = signature st"
  "signature (st\<lparr>ac_item := its\<rparr>) = signature st" "signature (st\<lparr>ac_item_count := x\<rparr>) = signature st"
  by (simp_all add: signature_def fun_eq_iff)

lemma get_field_ctx [simp]:
  "get_field a n (st\<lparr>ac_current := x\<rparr>) = get_field a n st" "get_field a n (st\<lparr>ac_tab_start := x\<rparr>) = get_field a n st"
  "get_field a n (st\<lparr>ac_dsdt := x\<rparr>) = get_field a n st" "get_field a n (st\<lparr>ac_facs := x\<rparr>) = get_field a n st"
  by (simp_all add: get_field_def)

lemma table_done_sel [simp]:
  "ac_base (table_done st s) = ac_base s" "ac_current (table_done st s) = ac_current s"
  "ac_tab_start (table_done st s) = ac_tab_start s" "ac_rsdp (table_done st s) = ac_rsdp s"
  "ac_rsdt (table_done st s) = ac_rsdt s" "ac_xsdt (table_done st s) = ac_xsdt s"
  "ac_facs (table_done st s) = ac_facs s" "ac_dsdt (table_done st s) = ac_dsdt s"
  "ac_start (table_done st s) = ac_start s"
  by (simp_all add: table_done_def)

lemma table_done_length:
  assumes "layout_ok st (ac_current st)" "table_built st s L sig"
  shows "get_field (ac_current st + 4) 4 (table_done st s) = L"
proof -
  have l: "layout_ok (set_checksum (ac_current st) s) (ac_current st)" "ac_xsdt s = ac_xsdt st"
    using assms by (simp_all add: layout_ok_def table_built_def same_roots_def)
  have "get_field (ac_current st + 4) 4 (table_done st s) = get_field (ac_current st + 4) 4 (set_checksum (ac_current st) s)"
    unfolding table_done_def
    by (rule get_field_cong) (use l assms in \<open>auto simp: layout_ok_def intro!: acpi_add_table_above [OF l(1)]\<close>)
  then show ?thesis using assms(2) by (simp add: table_built_def get_field_set_checksum)
qed

lemma table_done_kept:
  assumes wf: "acpi_wf st (ac_current st) tabs" and b: "table_built st s L sig"
    and c: "ac_current st + L \<le> c" "c \<le> ac_base st + 2 ^ 31" and S: "[sig] \<in> S"
  shows "tables_kept S st tabs c (table_done st s)"
proof -
  have f: "acpi_wf (table_done st s) (ac_current st + L) (add_tab tabs (ac_current st))" "signature (table_done st s) (ac_current st) = sig"
    "\<And>x. ac_xsdt st + SZ_XSDT \<le> x \<Longrightarrow> x < ac_current st \<Longrightarrow> ac_mem (table_done st s) x = ac_mem st x"
    using finish_kept [OF wf refl, of s L sig "table_done st s"] b c by (auto simp: table_built_def table_done_def)
  show ?thesis by (rule tables_kept_add [OF acpi_wf_mono [OF f(1) c(1)] f(2) f(3) S])
qed

lemma tables_kept_ctx [simp]:
  "tables_kept S st tabs c (st'\<lparr>ac_current := x\<rparr>) = tables_kept S st tabs c st'"
  "tables_kept S st tabs c (st'\<lparr>ac_tab_start := x\<rparr>) = tables_kept S st tabs c st'"
  "tables_kept S st tabs c (st'\<lparr>ac_item := its\<rparr>) = tables_kept S st tabs c st'"
  "tables_kept S st tabs c (st'\<lparr>ac_item_count := x\<rparr>) = tables_kept S st tabs c st'"
  unfolding tables_kept_def by simp_all

lemma table_done_items [simp]: "ac_item_count (table_done st s) = ac_item_count s"
  by (simp add: table_done_def)

lemma builds_table_ok:
  assumes w: "builds_table w sig n" and S: "[sig] \<in> S"
  shows "writer_ok w S"
  unfolding writer_ok_def
proof (intro allI impI, elim conjE)
  fix st r st'
  assume st': "w st = (r, st')" and t: "ac_tab_start st = ac_current st"
  obtain s L c where s: "table_built st s L sig" "ac_tab_start s = ac_tab_start st"
      "w st = (0, (table_done st s)\<lparr>ac_current := c\<rparr>)" "ac_current st \<le> c"
      "get_field (ac_current st + 4) 4 (table_done st s) = L \<longrightarrow> ac_current st + L \<le> c"
    using w t unfolding builds_table_def by blast
  have e: "r = 0" "st' = (table_done st s)\<lparr>ac_current := c\<rparr>" using st' s(3) by auto
  have roots: "same_roots st st'" using s(1) by (simp add: e table_built_def same_roots_def)
  have "tables_kept S st tabs (ac_current st') st'"
    if wf: "acpi_wf st (ac_current st) tabs" and b: "ac_current st' \<le> ac_base st + 2 ^ 31" for tabs
  proof -
    have "get_field (ac_current st + 4) 4 (table_done st s) = L"
      using table_done_length [OF _ s(1)] wf by (simp add: acpi_wf_def)
    then have "tables_kept S st tabs c (table_done st s)"
      using table_done_kept [OF wf s(1) _ _ S, of c] s(5) b e by simp
    then show ?thesis by (simp add: e)
  qed
  then show "same_roots st st' \<and> ac_current st \<le> ac_tab_start st' \<and> (r = 0 \<longrightarrow> ac_current st \<le> ac_current st') \<and>
        (\<forall>tabs. acpi_wf st (ac_current st) tabs \<longrightarrow>
           (r = 0 \<and> ac_current st' \<le> ac_base st + 2 ^ 31 \<longrightarrow> tables_kept S st tabs (ac_current st') st') \<and>
           (r = - ENOENT \<and> ac_tab_start st' \<le> ac_base st + 2 ^ 31 \<longrightarrow> tables_kept S st tabs (ac_tab_start st') st'))"
    using roots s t by (auto simp: e)
qed

lemma builds_table_bound:
  assumes w: "builds_table w sig n"
  shows "writer_bound w n"
  unfolding writer_bound_def
proof (intro allI impI, elim conjE)
  fix st tabs
  assume wf: "acpi_wf st (ac_current st) tabs" and t: "ac_tab_start st = ac_current st"
  obtain s L c where s: "table_built st s L sig" "ac_item_count s = ac_item_count st"
      "w st = (0, (table_done st s)\<lparr>ac_current := c\<rparr>)"
      "get_field (ac_current st + 4) 4 (table_done st s) = L \<longrightarrow> c \<le> ac_current st + n"
    using w t unfolding builds_table_def by blast
  have "get_field (ac_current st + 4) 4 (table_done st s) = L"
    using table_done_length [OF _ s(1)] wf by (simp add: acpi_wf_def)
  then show "case w st of (r, st') \<Rightarrow> ac_item_count st' = ac_item_count st \<and>
       (r = 0 \<and> ac_current st' \<le> ac_current st + n \<or> r = - ENOENT \<and> ac_tab_start st' \<le> ac_current st + n)"
    using s by simp
qed

lemma table_builtI:
  assumes w: "writes_only (ac_current st) hi st s"
    and "ac_mem s (ac_current st + 9) = 0" "get_field (ac_current st + 4) 4 s = L" "36 \<le> L"
      "mem_read (ac_current st) 4 (ac_mem s) = sig"
  shows "table_built st s L sig"
  unfolding table_built_def using assms writes_only_sel(13) [OF w] writes_only_mem [OF w] by simp

text \<open>The writer that moves behind the table by the length it reads back, and the one that adds a constant.\<close>

lemma builds_table_length:
  assumes b: "\<And>st. table_built st (b st) L sig" "\<And>st. writes_only (ac_current st) (hi st) st (b st)"
    and w: "\<And>st. w st = (0, acpi_inc (get_field (ac_current st + 4) 4 (table_done st (b st))) (table_done st (b st)))"
  shows "builds_table w sig L"
  unfolding builds_table_def
proof (intro allI impI)
  fix st :: acpi_st
  let ?c = "ac_current st + get_field (ac_current st + 4) 4 (table_done st (b st))"
  show "\<exists>s M c. table_built st s M sig \<and> ac_tab_start s = ac_tab_start st \<and> ac_item_count s = ac_item_count st \<and>
      w st = (0, (table_done st s)\<lparr>ac_current := c\<rparr>) \<and> ac_current st \<le> c \<and>
      (get_field (ac_current st + 4) 4 (table_done st s) = M \<longrightarrow> ac_current st + M \<le> c \<and> c \<le> ac_current st + L)"
    using b(1) [of st] writes_only_sel [OF b(2) [of st]] w [of st]
    by (intro exI [of _ "b st"] exI [of _ L] exI [of _ ?c]) (simp add: acpi_inc_def)
qed

lemma builds_table_const:
  assumes b: "\<And>st. table_built st (b st) L sig" "\<And>st. writes_only (ac_current st) (hi st) st (b st)"
    and w: "\<And>st. w st = (0, acpi_inc L (table_done st (b st)))"
  shows "builds_table w sig L"
  unfolding builds_table_def
proof (intro allI impI)
  fix st :: acpi_st
  let ?c = "ac_current st + L"
  show "\<exists>s M c. table_built st s M sig \<and> ac_tab_start s = ac_tab_start st \<and> ac_item_count s = ac_item_count st \<and>
      w st = (0, (table_done st s)\<lparr>ac_current := c\<rparr>) \<and> ac_current st \<le> c \<and>
      (get_field (ac_current st + 4) 4 (table_done st s) = M \<longrightarrow> ac_current st + M \<le> c \<and> c \<le> ac_current st + L)"
    using b(1) [of st] writes_only_sel [OF b(2) [of st]] w [of st]
    by (intro exI [of _ "b st"] exI [of _ L] exI [of _ ?c]) (simp add: acpi_inc_def)
qed

text \<open>A writer that reports success without writing anything, and one that is always dropped.\<close>

lemma writer_ok_skip: "[] \<in> S \<Longrightarrow> writer_ok (\<lambda>st. (0, st)) S"
  unfolding writer_ok_def by (auto intro!: tables_kept_none)

lemma writer_ok_extends:
  assumes "\<And>st. extends st (snd (w st))" "[] \<in> S"
  shows "writer_ok w S"
  unfolding writer_ok_def
proof (intro allI impI, elim conjE)
  fix st r st'
  assume w: "w st = (r, st')" and t: "ac_tab_start st = ac_current st"
  have e: "extends st st'" using assms(1) [of st] w by simp
  then have "same_roots st st'" "ac_current st \<le> ac_current st'" "ac_current st \<le> ac_tab_start st'"
    "\<And>x. x < ac_current st \<Longrightarrow> ac_mem st' x = ac_mem st x" using t by (auto simp: extends_def)
  then show "same_roots st st' \<and> ac_current st \<le> ac_tab_start st' \<and> (r = 0 \<longrightarrow> ac_current st \<le> ac_current st') \<and>
        (\<forall>tabs. acpi_wf st (ac_current st) tabs \<longrightarrow>
           (r = 0 \<and> ac_current st' \<le> ac_base st + 2 ^ 31 \<longrightarrow> tables_kept S st tabs (ac_current st') st') \<and>
           (r = - ENOENT \<and> ac_tab_start st' \<le> ac_base st + 2 ^ 31 \<longrightarrow> tables_kept S st tabs (ac_tab_start st') st'))"
    using assms(2) by (auto intro!: tables_kept_none)
qed

lemma writer_bound_skip: "writer_bound (\<lambda>st. (0, st)) n"
  by (simp add: writer_bound_def)

lemmas build_simps = header_mem_checksum header_signature mem_read_write_disjoint get_field_set_disjoint
  get_field_set_same get_field_put_disjoint mem_write_app

lemma extends_tab_start: "extends (st\<lparr>ac_tab_start := ac_current st\<rparr>) st' \<Longrightarrow> extends st st'"
  by (auto simp: extends_def same_roots_def)

lemma add_item_extends: "extends st (snd (add_item dev w ty start st))"
  by (simp add: add_item_def Let_def extends_def same_roots_def split: option.split)

lemma run_method_extends:
  assumes "device_ok d" "meth = METHOD_FILL_SSDT \<or> meth = METHOD_INJECT_DSDT"
  shows "extends st (snd (acpi_run_method d meth ty st))"
proof (cases "dev_method d meth")
  case (Some f)
  let ?st = "st\<lparr>ac_tab_start := ac_current st\<rparr>"
  obtain r s where f: "f ?st = (r, s)" by (metis surj_pair)
  have "extends ?st (snd (f ?st))" using assms Some by (auto simp: device_ok_def)
  then have "extends st s" using extends_tab_start f by simp
  then show ?thesis using f Some add_item_extends extends_trans
    by (auto simp: acpi_run_method_def)
qed (simp add: acpi_run_method_def)

lemma recurse_extends:
  "list_all device_ok (all_devices d) \<Longrightarrow> meth = METHOD_FILL_SSDT \<or> meth = METHOD_INJECT_DSDT \<Longrightarrow>
     extends st (snd (acpi_recurse_method d meth ty st))"
  "list_all device_ok (concat (map all_devices ds)) \<Longrightarrow> meth = METHOD_FILL_SSDT \<or> meth = METHOD_INJECT_DSDT \<Longrightarrow>
     extends st (snd (acpi_recurse_children ds meth ty st))"
proof (induction d meth ty st and ds meth ty st rule: acpi_recurse_method_acpi_recurse_children.induct)
  case (1 n ms p cs meth ty st)
  obtain r s where s: "acpi_run_method (UDevice n ms p cs) meth ty st = (r, s)" by (metis surj_pair)
  have "extends st s" using run_method_extends [of "UDevice n ms p cs" meth st ty] 1 s by simp
  then show ?case using 1 s extends_trans by auto
next
  case (3 d ds meth ty st)
  obtain r s where s: "acpi_recurse_method d meth ty st = (r, s)" by (metis surj_pair)
  then have "extends st s" using 3 by simp
  then show ?case using 3 s extends_trans by auto
qed simp

lemma sort_items_writes:
  "sort_acpi_items ty names ptr st = (r, p, st') \<Longrightarrow> start \<le> ptr \<Longrightarrow> \<exists>hi. writes_only start hi st st'"
proof (induction ty names ptr st rule: sort_acpi_items.induct)
  case (2 ty name names ptr st)
  show ?case
  proof (cases "find_acpi_item name st")
    case (Some item)
    show ?thesis
    proof (cases "it_type item = ty")
      case True
      let ?bs = "take (nat (it_size item)) (case it_buf item of None \<Rightarrow> [] | Some b \<Rightarrow> b)"
      have w1: "writes_only start (ptr + length ?bs) st (put_bytes ptr ?bs st)"
        using 2(4) by (intro writes_only_put) simp_all
      obtain hi where "writes_only start hi (put_bytes ptr ?bs st) st'" using 2 Some True by fastforce
      then have "writes_only start (max (ptr + length ?bs) hi) st st'"
        by (rule writes_only_trans [OF w1]) simp_all
      then show ?thesis ..
    qed (use 2 Some in simp)
  qed (use 2 in \<open>auto intro: exI [of _ 0]\<close>)
qed (auto intro: exI [of _ 0])

lemma sort_extends:
  assumes "extends st s" "sort_acpi_item_type (ac_current st) ty order s = (r, st')"
  shows "extends st st'"
proof (cases order)
  case (Some names)
  obtain r1 p s1 where s1: "sort_acpi_items ty names (ac_current st) s = (r1, p, s1)" by (metis prod_cases3)
  then obtain hi where "writes_only (ac_current st) hi s s1" using sort_items_writes by blast
  then have "extends st s1" using assms(1) writes_only_sel [of "ac_current st" hi s s1] writes_only_mem [of "ac_current st" hi s s1]
    by (auto simp: extends_def same_roots_def)
  then show ?thesis using assms(2) Some s1 by (auto simp: sort_acpi_item_type_def split: if_splits)
qed (use assms in \<open>simp add: sort_acpi_item_type_def\<close>)

lemma acpi_fill_ssdt_extends: "acpi_dm_ok dm \<Longrightarrow> extends st (snd (acpi_fill_ssdt dm st))"
  using recurse_extends(1) [of "dm_root dm" METHOD_FILL_SSDT st TYPE_SSDT] sort_extends
  by (fastforce simp: acpi_fill_ssdt_def acpi_dm_ok_def case_prod_beta intro: prod.collapse [symmetric])

lemma acpi_inject_dsdt_extends: "acpi_dm_ok dm \<Longrightarrow> extends st (snd (acpi_inject_dsdt dm st))"
  using recurse_extends(1) [of "dm_root dm" METHOD_INJECT_DSDT st TYPE_DSDT] sort_extends
  by (fastforce simp: acpi_inject_dsdt_def acpi_dm_ok_def case_prod_beta intro: prod.collapse [symmetric])

lemma tables_kept_trans:
  assumes "tables_kept UNIV st tabs (ac_current s) s" "\<And>tabs. acpi_wf s (ac_current s) tabs \<Longrightarrow> tables_kept UNIV s tabs c st'"
    "same_roots st s" "ac_current st \<le> ac_current s"
  shows "tables_kept UNIV st tabs c st'"
proof -
  obtain ts where ts: "acpi_wf s (ac_current s) (tabs @ ts)" using assms(1) by (auto simp: tables_kept_def)
  have m: "ac_mem s x = ac_mem st x" if "ac_xsdt st + SZ_XSDT \<le> x" "x < ac_current st" for x
    using assms(1) that by (simp add: tables_kept_def)
  have k: "tables_kept UNIV s (tabs @ ts) c st'" by (rule assms(2) [OF ts])
  then obtain us where us: "acpi_wf st' c (tabs @ (ts @ us))" by (auto simp: tables_kept_def)
  have "ac_mem st' x = ac_mem st x" if "ac_xsdt st + SZ_XSDT \<le> x" "x < ac_current st" for x
    using k m [OF that] that assms(3,4) by (simp add: tables_kept_def same_roots_def)
  moreover have "length (ts @ us) \<le> MAX_ACPI_TABLES - length tabs" using us by (auto simp: acpi_wf_def xsdt_ok_def)
  ultimately show ?thesis unfolding tables_kept_def
    using us by (intro conjI exI [of _ "ts @ us"] bexI [of _ "map (signature st') (ts @ us)"]) simp_all
qed

lemma steps_trans:
  assumes a: "steps_ok st (0, s)" and b: "steps_ok s (r, st')"
  shows "steps_ok st (r, st')"
proof -
  have s: "same_roots st s" "ac_current st \<le> ac_current s" "ac_tab_start s = ac_tab_start st \<or> ac_current st \<le> ac_tab_start s"
    using a by (simp_all add: steps_ok_def)
  have s': "same_roots s st'" "ac_tab_start st' = ac_tab_start s \<or> ac_current s \<le> ac_tab_start st'"
    "r = 0 \<Longrightarrow> ac_current s \<le> ac_current st'" "r = - ENOENT \<Longrightarrow> ac_current s \<le> ac_tab_start st'"
    using b by (simp_all add: steps_ok_def)
  have base: "ac_base s = ac_base st" using s(1) by (simp add: same_roots_def)
  have k: "tables_kept UNIV st tabs c st'"
    if wf: "acpi_wf st (ac_current st) tabs" and c: "ac_current s \<le> c" "c \<le> ac_base st + 2 ^ 31"
      and q: "\<And>tabs. acpi_wf s (ac_current s) tabs \<Longrightarrow> tables_kept UNIV s tabs c st'" for tabs c
  proof (rule tables_kept_trans [OF _ q s(1,2)])
    show "tables_kept UNIV st tabs (ac_current s) s" using a wf c by (simp add: steps_ok_def)
  qed
  have "r = 0 \<and> ac_current st' \<le> ac_base st + 2 ^ 31 \<longrightarrow> tables_kept UNIV st tabs (ac_current st') st'"
    if wf: "acpi_wf st (ac_current st) tabs" for tabs
    using k [OF wf, of "ac_current st'"] s'(3) b base by (simp add: steps_ok_def)
  moreover have "r = - ENOENT \<and> ac_tab_start st' \<le> ac_base st + 2 ^ 31 \<longrightarrow> tables_kept UNIV st tabs (ac_tab_start st') st'"
    if wf: "acpi_wf st (ac_current st) tabs" for tabs
    using k [OF wf, of "ac_tab_start st'"] s'(4) b base by (simp add: steps_ok_def)
  ultimately show ?thesis
    unfolding steps_ok_def using s s' same_roots_trans [OF s(1) s'(1)] by auto
qed

lemma steps_refl: "steps_ok st (r, st)" if "r \<noteq> - ENOENT"
  using that by (auto simp: steps_ok_def intro!: tables_kept_none)

lemma from_tab_start [simp]:
  "tables_kept S (st\<lparr>ac_tab_start := x\<rparr>) tabs c st' = tables_kept S st tabs c st'"
  "same_roots (st\<lparr>ac_tab_start := x\<rparr>) st' = same_roots st st'"
  by (simp_all add: tables_kept_def same_roots_def)

lemma writer_okD:
  "writer_ok w S \<Longrightarrow> w st = (r, st') \<Longrightarrow> ac_tab_start st = ac_current st \<Longrightarrow>
     same_roots st st' \<and> ac_current st \<le> ac_tab_start st' \<and> (r = 0 \<longrightarrow> ac_current st \<le> ac_current st') \<and>
     (\<forall>tabs. acpi_wf st (ac_current st) tabs \<longrightarrow>
        (r = 0 \<and> ac_current st' \<le> ac_base st + 2 ^ 31 \<longrightarrow> tables_kept S st tabs (ac_current st') st') \<and>
        (r = - ENOENT \<and> ac_tab_start st' \<le> ac_base st + 2 ^ 31 \<longrightarrow> tables_kept S st tabs (ac_tab_start st') st'))"
  unfolding writer_ok_def by blast

lemma run_tables_ok:
  assumes "device_ok d"
  shows "steps_ok st (acpi_run_method d METHOD_WRITE_TABLES TYPE_NONE st)"
proof (cases "dev_method d METHOD_WRITE_TABLES")
  case None
  then show ?thesis using steps_refl [of 0 st] by (simp add: acpi_run_method_def)
next
  case (Some f)
  show ?thesis
  proof (cases "dev_to_plat d = 0")
    case False
    then show ?thesis using steps_refl [of "dev_to_plat d" st] Some assms by (simp add: acpi_run_method_def device_ok_def)
  next
    case True
    let ?st = "st\<lparr>ac_tab_start := ac_current st\<rparr>"
    obtain r s where f: "f ?st = (r, s)" by (metis surj_pair)
    have "writer_ok f UNIV" using assms Some by (simp add: device_ok_def)
    note w = writer_okD [OF this f]
    have "steps_ok st (r, s)" using w by (auto simp: steps_ok_def)
    then show ?thesis using Some True f by (auto simp: acpi_run_method_def)
  qed
qed

lemma recurse_tables_ok:
  "list_all device_ok (all_devices d) \<Longrightarrow> meth = METHOD_WRITE_TABLES \<Longrightarrow> ty = TYPE_NONE \<Longrightarrow>
     steps_ok st (acpi_recurse_method d meth ty st)"
  "list_all device_ok (concat (map all_devices ds)) \<Longrightarrow> meth = METHOD_WRITE_TABLES \<Longrightarrow> ty = TYPE_NONE \<Longrightarrow>
     steps_ok st (acpi_recurse_children ds meth ty st)"
proof (induction d meth ty st and ds meth ty st rule: acpi_recurse_method_acpi_recurse_children.induct)
  case (1 n ms p cs meth ty st)
  obtain r s where s: "acpi_run_method (UDevice n ms p cs) meth ty st = (r, s)" by (metis surj_pair)
  have k: "steps_ok st (r, s)" using run_tables_ok [of "UDevice n ms p cs" st] 1 s by simp
  show ?case
  proof (cases "r = 0")
    case True
    obtain r' s' where s': "acpi_recurse_children cs meth ty s = (r', s')" by (metis surj_pair)
    then have "steps_ok s (r', s')" using 1 s True by simp
    then have "steps_ok st (r', s')" using steps_trans k True by simp
    then show ?thesis using s s' True by simp
  qed (use k s in simp)
next
  case (2 meth ty st)
  then show ?case using steps_refl [of 0 st] by simp
next
  case (3 d ds meth ty st)
  obtain r s where s: "acpi_recurse_method d meth ty st = (r, s)" by (metis surj_pair)
  have k: "steps_ok st (r, s)" using 3 s by simp
  show ?case
  proof (cases "r = 0")
    case True
    obtain r' s' where s': "acpi_recurse_children ds meth ty s = (r', s')" by (metis surj_pair)
    then have "steps_ok s (r', s')" using 3 s True by simp
    then have "steps_ok st (r', s')" using steps_trans k True by simp
    then show ?thesis using s s' True by simp
  qed (use k s in simp)
qed

lemma dev_tables_ok: "acpi_dm_ok dm \<Longrightarrow> writer_ok (write_dev_tables dm) UNIV"
proof -
  assume dm: "acpi_dm_ok dm"
  have k: "steps_ok st (write_dev_tables dm st)" for st
    using recurse_tables_ok(1) [of "dm_root dm" METHOD_WRITE_TABLES TYPE_NONE st] dm
    by (simp add: write_dev_tables_def acpi_write_dev_tables_def acpi_dm_ok_def)
  show ?thesis
    unfolding writer_ok_def
  proof (intro allI impI, elim conjE)
    fix st r st'
    assume "write_dev_tables dm st = (r, st')" and t: "ac_tab_start st = ac_current st"
    then have "steps_ok st (r, st')" using k [of st] by simp
    then show "same_roots st st' \<and> ac_current st \<le> ac_tab_start st' \<and> (r = 0 \<longrightarrow> ac_current st \<le> ac_current st') \<and>
        (\<forall>tabs. acpi_wf st (ac_current st) tabs \<longrightarrow>
           (r = 0 \<and> ac_current st' \<le> ac_base st + 2 ^ 31 \<longrightarrow> tables_kept UNIV st tabs (ac_current st') st') \<and>
           (r = - ENOENT \<and> ac_tab_start st' \<le> ac_base st + 2 ^ 31 \<longrightarrow> tables_kept UNIV st tabs (ac_tab_start st') st'))"
      using t by (auto simp: steps_ok_def)
  qed
qed

lemma extends_ctx [simp]: "extends st (s\<lparr>ac_dsdt := x\<rparr>) = extends st s" "extends st (s\<lparr>ac_facs := x\<rparr>) = extends st s"
  by (simp_all add: extends_def same_roots_def)

lemma extends_writes_above:
  assumes "extends st s" "writes_only lo hi s s'" "ac_current st \<le> lo"
  shows "extends st s'"
  using assms(1,3) writes_only_sel [OF assms(2)] writes_only_mem [OF assms(2)]
  by (auto simp: extends_def same_roots_def)

lemma extends_inc: "extends st s \<Longrightarrow> extends st (acpi_inc n s)"
  by (auto simp: extends_def same_roots_def acpi_inc_def)

lemma copy_aml_extends:
  assumes "acpi_dm_ok dm"
  shows "extends st (snd (acpi_copy_aml dm aml n st))"
proof -
  obtain r s where s: "acpi_inject_dsdt dm st = (r, s)" by (metis surj_pair)
  have e: "extends st s" using acpi_inject_dsdt_extends [OF assms, of st] s by simp
  let ?b = "mem_read 36 n aml"
  have w: "writes_only (ac_current s) (ac_current s + n) s (put_bytes (ac_current s) ?b s)"
    by (intro writes_only_put writes_only_refl) simp_all
  have "extends st (acpi_inc n (put_bytes (ac_current s) ?b s))"
    by (rule extends_inc, rule extends_writes_above [OF e w]) (use e in \<open>simp add: extends_def\<close>)
  then show ?thesis using e s by (simp add: acpi_copy_aml_def)
qed

lemma dsdt_extends:
  assumes dm: "acpi_dm_ok dm" and p: "patch_ok patch"
  shows "extends st (snd (acpi_write_dsdt dm aml patch st))"
proof -
  let ?a = "ac_current st"
  let ?s1 = "acpi_inc 36 (put_bytes ?a (mem_read 0 36 aml) st)"
  let ?len = "to_int (int (get_field (?a + 4) 4 ?s1) - 36)"
  have "writes_only ?a (?a + 36) st (put_bytes ?a (mem_read 0 36 aml) st)" by (intro writes_only_put writes_only_refl) simp_all
  then have e1: "extends st ?s1" using extends_inc extends_writes_above [OF extends_refl] by blast
  obtain r2 s2 where s2: "(if ?len \<noteq> 0 then acpi_copy_aml dm aml (nat ?len) ?s1 else (0, ?s1)) = (r2, s2)" by (metis surj_pair)
  have e2: "extends st s2"
  proof (cases "?len = 0")
    case False
    then have "extends ?s1 s2" using copy_aml_extends [OF dm, of ?s1 aml "nat ?len"] s2 by simp
    then show ?thesis by (rule extends_trans [OF e1])
  qed (use e1 s2 in simp)
  let ?s3 = "set_field (?a + 4) 4 (ac_current (s2\<lparr>ac_dsdt := ?a\<rparr>) - ?a) (s2\<lparr>ac_dsdt := ?a\<rparr>)"
  have "writes_only ?a (?a + 8) (s2\<lparr>ac_dsdt := ?a\<rparr>) ?s3" by (intro writes_only_set writes_only_refl) simp_all
  then have e3: "extends st ?s3" using extends_writes_above [of st "s2\<lparr>ac_dsdt := ?a\<rparr>"] e2 by simp
  obtain r4 s4 where s4: "patch ?a ?s3 = (r4, s4)" by (metis surj_pair)
  obtain hi where hi: "writes_only (?a + 36) hi ?s3 (snd (patch ?a ?s3))" using p unfolding patch_ok_def by blast
  then have "writes_only (?a + 36) hi ?s3 s4" using s4 by simp
  then have e4: "extends st s4" using extends_writes_above [OF e3] by simp
  have "writes_only ?a (?a + 10) s4 (set_checksum ?a (set_field (?a + 9) 1 0 s4))"
    by (intro writes_only_intros writes_only_refl) simp_all
  then have e5: "extends st (set_checksum ?a (set_field (?a + 9) 1 0 s4))" using extends_writes_above [OF e4] by simp
  have "acpi_write_dsdt dm aml patch st =
      (if r2 \<noteq> 0 then (r2, s2) else if r4 \<noteq> 0 then (r4, s4) else (0, set_checksum ?a (set_field (?a + 9) 1 0 s4)))"
    unfolding acpi_write_dsdt_def Let_def s2 using s4 by simp
  then show ?thesis using e2 e4 e5 by auto
qed

lemma dsdt_ok: "acpi_dm_ok dm \<Longrightarrow> patch_ok patch \<Longrightarrow> writer_ok (acpi_write_dsdt dm aml patch) {[]}"
  by (rule writer_ok_extends) (simp_all add: dsdt_extends)

lemma put_bytes_current [simp]: "put_bytes a bs (st\<lparr>ac_current := x\<rparr>) = (put_bytes a bs st)\<lparr>ac_current := x\<rparr>"
  by (simp add: put_bytes_def)

lemma set_field_current [simp]: "set_field a n v (st\<lparr>ac_current := x\<rparr>) = (set_field a n v st)\<lparr>ac_current := x\<rparr>"
  by (simp add: set_field_def)

lemma set_checksum_current [simp]: "set_checksum a (st\<lparr>ac_current := x\<rparr>) = (set_checksum a st)\<lparr>ac_current := x\<rparr>"
  by (simp add: set_checksum_def table_compute_checksum_def)

lemma table_built_current [simp]: "table_built st (s\<lparr>ac_current := x\<rparr>) L sig = table_built st s L sig"
  by (simp add: table_built_def same_roots_def)

lemma current_idem: "ac_current st = x \<Longrightarrow> st\<lparr>ac_current := x\<rparr> = st"
  by (cases st) simp

lemma tab_start_idem: "ac_tab_start st = x \<Longrightarrow> st\<lparr>ac_tab_start := x\<rparr> = st"
  by (cases st) simp

text \<open>A step that writes one region behind the current position, and then moves it forward.\<close>

lemma extends_writes:
  "writes_only (ac_current st) hi st s \<Longrightarrow> ac_current st \<le> c \<Longrightarrow> extends st (s\<lparr>ac_current := c\<rparr>)"
  using writes_only_sel [of "ac_current st" hi st s] writes_only_mem [of "ac_current st" hi st s]
  by (auto simp: extends_def same_roots_def)

text \<open>A table built from a header and a body that is appended to it.\<close>

lemma appended_table_built:
  assumes w: "writes_only (ac_current st) (ac_current st + H) st s0"
    and e: "extends (s0\<lparr>ac_tab_start := t, ac_current := ac_current st + H\<rparr>) s2"
    and H: "36 \<le> H" and z: "ac_mem s0 (ac_current st + 9) = 0" and sig: "mem_read (ac_current st) 4 (ac_mem s0) = sig"
    and L: "36 \<le> L" "L < 2 ^ 32"
  shows "table_built st (set_field (ac_current st + 4) 4 L s2) L sig"
  unfolding table_built_def
proof (intro conjI allI impI)
  let ?a = "ac_current st" and ?u = "set_field (ac_current st + 4) 4 L s2"
  have m2: "ac_mem s2 x = ac_mem s0 x" if "x < ?a + H" for x using e that by (simp add: extends_def)
  show "same_roots st ?u" using e writes_only_sel(13) [OF w] by (auto simp: extends_def same_roots_def)
  show "ac_mem ?u x = ac_mem st x" if "x < ?a" for x
    using that m2 [of x] writes_only_mem [OF w, of x] H by (simp add: mem_write_def)
  show "ac_mem ?u (?a + 9) = 0" using m2 [of "?a + 9"] z H by (simp add: mem_write_def)
  show "get_field (?a + 4) 4 ?u = L" using L(2) by (simp add: get_field_set_same)
  have "mem_read ?a 4 (ac_mem ?u) = mem_read ?a 4 (ac_mem s0)"
    by (rule mem_read_cong) (use m2 H in \<open>simp add: mem_write_def\<close>)
  then show "mem_read ?a 4 (ac_mem ?u) = sig" using sig by simp
qed (rule L)

lemma ssdt_ok:
  assumes dm: "acpi_dm_ok dm"
  shows "writer_ok (acpi_write_ssdt dm) {[], [bytes_of_string ''SSDT'']}"
  unfolding writer_ok_def
proof (intro allI impI, elim conjE)
  fix st r st'
  assume st': "acpi_write_ssdt dm st = (r, st')" and t: "ac_tab_start st = ac_current st"
  let ?a = "ac_current st" and ?S = "{[], [bytes_of_string ''SSDT'']}"
  let ?h = "set_fields ?a [(8, 1, rev_byte ACPITAB_SSDT), (4, 4, 36)] (acpi_fill_header ?a ''SSDT'' (c_memset0 ?a 36 st))"
  have w: "writes_only ?a (?a + 36) st ?h" by (intro writes_only_intros writes_only_refl) simp_all
  have tab: "?h\<lparr>ac_tab_start := ac_tab_start ?h, ac_current := ?a + 36\<rparr> = ?h\<lparr>ac_current := ?a + 36\<rparr>"
    by (simp add: tab_start_idem)
  have c: "acpi_inc 36 ?h = ?h\<lparr>ac_current := ?a + 36\<rparr>" using writes_only_sel(2) [OF w] by (simp add: acpi_inc_def)
  obtain r2 s2 where s2: "acpi_fill_ssdt dm (?h\<lparr>ac_current := ?a + 36\<rparr>) = (r2, s2)" by (metis surj_pair)
  have e1: "extends st (?h\<lparr>ac_current := ?a + 36\<rparr>)" by (rule extends_writes [OF w]) simp
  have e12: "extends (?h\<lparr>ac_current := ?a + 36\<rparr>) s2"
    using acpi_fill_ssdt_extends [OF dm, of "?h\<lparr>ac_current := ?a + 36\<rparr>"] s2 by simp
  have e2: "extends st s2" by (rule extends_trans [OF e1 e12])
  have c2: "?a + 36 \<le> ac_current s2" using e12 by (simp add: extends_def)
  let ?u = "set_field (?a + 4) 4 (ac_current s2 - ?a) s2"
  have "acpi_write_ssdt dm st = (if r2 \<noteq> 0 then (r2, s2\<lparr>ac_current := ?a\<rparr>)
      else if get_field (?a + 4) 4 (set_checksum ?a ?u) = 36 then (- ENOENT, set_checksum ?a ?u) else (0, table_done st ?u))"
    unfolding acpi_write_ssdt_def Let_def c s2 table_done_def by simp
  note res = this [unfolded st']
  have "writes_only ?a (?a + 10) s2 (set_checksum ?a ?u)" by (intro writes_only_intros writes_only_refl) simp_all
  then have e3: "extends st (set_checksum ?a ?u)" using extends_writes_above [OF e2] by simp
  have "r \<noteq> 0 \<Longrightarrow> extends st st'"
    using res e2 e3 by (auto simp: extends_def same_roots_def split: if_splits)
  moreover have "same_roots st (table_done st ?u)" "ac_current (table_done st ?u) = ac_current s2" "ac_tab_start (table_done st ?u) = ac_tab_start s2"
    using e2 by (simp_all add: extends_def same_roots_def)
  ultimately have g: "same_roots st st'" "?a \<le> ac_tab_start st'" "r = 0 \<longrightarrow> ?a \<le> ac_current st'" "r \<noteq> 0 \<Longrightarrow> extends st st'"
    using res e2 t c2 by (auto simp: extends_def split: if_splits)
  have "tables_kept ?S st tabs (ac_current st') st'"
    if wf: "acpi_wf st ?a tabs" and r: "r = 0" and b: "ac_current st' \<le> ac_base st + 2 ^ 31" for tabs
  proof -
    have s: "st' = table_done st ?u" using res r by (auto split: if_splits)
    then have b2: "ac_current s2 \<le> ac_base st + 2 ^ 31" using b by simp
    have "ac_base st \<le> ?a" using wf by (simp add: acpi_wf_def layout_ok_def)
    then have L: "36 \<le> ac_current s2 - ?a" "ac_current s2 - ?a < 2 ^ 32" using c2 b2 by simp_all
    have "table_built st ?u (ac_current s2 - ?a) (bytes_of_string ''SSDT'')"
      by (rule appended_table_built [OF w e12 [folded tab]]) (use L in \<open>simp_all add: build_simps\<close>)
    then show ?thesis unfolding s by (rule table_done_kept [OF wf]) (use c2 b2 in simp_all)
  qed
  moreover have "tables_kept ?S st tabs (ac_tab_start st') st'" if "acpi_wf st ?a tabs" "r = - ENOENT" for tabs
    by (rule tables_kept_none [OF that(1)]) (use g that in \<open>auto simp: extends_def\<close>)
  ultimately show "same_roots st st' \<and> ac_current st \<le> ac_tab_start st' \<and> (r = 0 \<longrightarrow> ac_current st \<le> ac_current st') \<and>
        (\<forall>tabs. acpi_wf st (ac_current st) tabs \<longrightarrow>
           (r = 0 \<and> ac_current st' \<le> ac_base st + 2 ^ 31 \<longrightarrow> tables_kept ?S st tabs (ac_current st') st') \<and>
           (r = - ENOENT \<and> ac_tab_start st' \<le> ac_base st + 2 ^ 31 \<longrightarrow> tables_kept ?S st tabs (ac_tab_start st') st'))"
    using g by blast
qed

text \<open>Running one writer: the position is aligned and an item recorded, or the table is dropped.\<close>

lemma add_item_current: "\<exists>its n. snd (add_item d w ty start st) = st\<lparr>ac_item := its, ac_item_count := n\<rparr>"
proof -
  let ?r = "snd (add_item d w ty start st)"
  have "?r = st\<lparr>ac_item := ac_item ?r, ac_item_count := ac_item_count ?r\<rparr>"
    by (cases st) (simp add: add_item_def Let_def split: option.split)
  then show ?thesis by (intro exI [of _ "ac_item ?r"] exI [of _ "ac_item_count ?r"])
qed

lemma tables_kept_mono:
  "tables_kept S st tabs c st' \<Longrightarrow> c \<le> c' \<Longrightarrow> tables_kept S st tabs c' st'"
  unfolding tables_kept_def using acpi_wf_mono by blast

lemma write_one_ok:
  assumes w: "writer_ok (aw_h_write e) S" and s: "acpi_write_one e st = (0, st')"
  shows "same_roots st st'" "ac_current st \<le> ac_current st'"
    "acpi_wf st (ac_current st) tabs \<Longrightarrow> ac_current st' \<le> ac_base st + 2 ^ 31 \<Longrightarrow> tables_kept S st tabs (ac_current st') st'"
proof -
  let ?st = "st\<lparr>ac_tab_start := ac_current st\<rparr>"
  obtain r s1 where s1: "aw_h_write e ?st = (r, s1)" by (metis surj_pair)
  note k = writer_okD [OF w s1]
  have "same_roots st st' \<and> ac_current st \<le> ac_current st' \<and>
    (acpi_wf st (ac_current st) tabs \<and> ac_current st' \<le> ac_base st + 2 ^ 31 \<longrightarrow> tables_kept S st tabs (ac_current st') st')"
  proof (cases "r = - ENOENT")
    case True
    then have e: "st' = s1\<lparr>ac_current := ac_tab_start s1\<rparr>" using s s1 by (simp add: acpi_write_one_def)
    then show ?thesis using k True by (auto simp: same_roots_def)
  next
    case False
    let ?n = "if aw_align64 e then 64 else 16"
    have r: "r = 0" using s s1 False by (auto simp: acpi_write_one_def split: if_splits)
    let ?s2 = "s1\<lparr>ac_current := ALIGN (ac_current s1) ?n\<rparr>"
    have a: "snd (acpi_add_other_item (aw_name e) (ac_tab_start ?s2) ?s2) = st'"
      using s s1 r by (simp add: acpi_write_one_def acpi_align_def acpi_align64_def Let_def split: if_splits)
    obtain its n where st': "st' = ?s2\<lparr>ac_item := its, ac_item_count := n\<rparr>"
      using add_item_current a unfolding acpi_add_other_item_def by metis
    have al: "ac_current s1 \<le> ALIGN (ac_current s1) ?n" using ALIGN_bounds by simp
    have "tables_kept S st tabs (ac_current s1) s1" if "acpi_wf st (ac_current st) tabs" "ac_current st' \<le> ac_base st + 2 ^ 31"
      using k r that al st' by simp
    then show ?thesis using k r st' al tables_kept_mono [of S st tabs "ac_current s1" s1 "ALIGN (ac_current s1) ?n"]
      by (auto simp: same_roots_def)
  qed
  then show "same_roots st st'" "ac_current st \<le> ac_current st'"
    "acpi_wf st (ac_current st) tabs \<Longrightarrow> ac_current st' \<le> ac_base st + 2 ^ 31 \<Longrightarrow> tables_kept S st tabs (ac_current st') st'"
    by simp_all
qed

lemma write_one_not_enoent: "fst (acpi_write_one w st) \<noteq> - ENOENT"
proof -
  obtain r s where s: "aw_h_write w (st\<lparr>ac_tab_start := ac_current st\<rparr>) = (r, s)" by (metis surj_pair)
  have "fst (add_item d n ty start q) \<noteq> - ENOENT" for d n ty start q
    by (simp add: add_item_def Let_def split: option.split)
  then show ?thesis using s by (simp add: acpi_write_one_def acpi_add_other_item_def Let_def)
qed

lemma tables_kept_seq:
  assumes a: "tables_kept S st tabs (ac_current s) s" and r: "same_roots st s" "ac_current st \<le> ac_current s"
    and b: "\<And>tabs. acpi_wf s (ac_current s) tabs \<Longrightarrow> tables_kept T s tabs c st'"
  shows "tables_kept ((\<lambda>(x, y). x @ y) ` (S \<times> T)) st tabs c st'"
proof -
  let ?n = "MAX_ACPI_TABLES - length tabs"
  obtain ts x where ts: "acpi_wf s (ac_current s) (tabs @ ts)" "x \<in> S" "map (signature s) ts = take ?n x"
    using a by (auto simp: tables_kept_def)
  have k: "tables_kept T s (tabs @ ts) c st'" by (rule b [OF ts(1)])
  then obtain us y where us: "acpi_wf st' c (tabs @ (ts @ us))" "y \<in> T" "map (signature st') us = take (?n - length ts) y"
    by (auto simp: tables_kept_def)
  have m: "ac_mem st' x = ac_mem s x" if "ac_xsdt st + SZ_XSDT \<le> x" "x < ac_current s" for x
    using k that r by (simp add: tables_kept_def same_roots_def)
  have "signature st' a = signature s a" if "a \<in> set ts" for a
  proof -
    have "ac_xsdt s + SZ_XSDT \<le> a" "table_ok s a (ac_current s)"
      using ts(1) that by (simp_all add: acpi_wf_def list_all_iff)
    then have "ac_xsdt st + SZ_XSDT \<le> a" "a + 36 \<le> ac_current s" using r by (auto simp: table_ok_def same_roots_def)
    then show ?thesis unfolding signature_def by (intro mem_read_cong m) simp_all
  qed
  then have e: "map (signature st') (ts @ us) = map (signature s) ts @ map (signature st') us" by simp
  have "length ts = min (length x) ?n" using arg_cong [OF ts(3), of length] by simp
  then have "map (signature st') (ts @ us) = take ?n (x @ y)"
    unfolding e ts(3) us(3) by (cases "length x \<le> ?n") simp_all
  moreover have "x @ y \<in> (\<lambda>(x, y). x @ y) ` (S \<times> T)"
    using ts(2) us(2) by (intro image_eqI [of _ _ "(x, y)"]) simp_all
  moreover have "ac_mem st' x = ac_mem st x" if "ac_xsdt st + SZ_XSDT \<le> x" "x < ac_current st" for x
    using m [of x] a that r by (simp add: tables_kept_def)
  ultimately show ?thesis unfolding tables_kept_def using us(1) by blast
qed

lemma write_all_kept:
  assumes "list_all2 (\<lambda>w S. writer_ok (aw_h_write w) S) es Ts" "acpi_write_all es st = (0, st')"
  shows "same_roots st st' \<and> ac_current st \<le> ac_current st' \<and>
    (acpi_wf st (ac_current st) tabs \<and> ac_current st' \<le> ac_base st + 2 ^ 31 \<longrightarrow>
     tables_kept (sig_seqs Ts) st tabs (ac_current st') st')"
  using assms
proof (induction es Ts arbitrary: st tabs rule: list_all2_induct)
  case Nil
  then show ?case by (auto intro!: tables_kept_none)
next
  case (Cons w es S Ts)
  obtain r s where s: "acpi_write_one w st = (r, s)" by (metis surj_pair)
  have r: "r = 0" "acpi_write_all es s = (0, st')"
    using Cons.prems s write_one_not_enoent [of w st] by (auto split: if_splits)
  note k = write_one_ok [OF Cons.hyps(1) s [unfolded r(1)]]
  have i: "same_roots s st'" "ac_current s \<le> ac_current st'"
    "\<And>tabs. acpi_wf s (ac_current s) tabs \<Longrightarrow> ac_current st' \<le> ac_base s + 2 ^ 31 \<Longrightarrow>
       tables_kept (sig_seqs Ts) s tabs (ac_current st') st'"
    using Cons.IH [OF r(2)] by blast+
  have b: "ac_base s = ac_base st" using k(1) by (simp add: same_roots_def)
  have "tables_kept (sig_seqs (S # Ts)) st tabs (ac_current st') st'"
    if wf: "acpi_wf st (ac_current st) tabs" and c: "ac_current st' \<le> ac_base st + 2 ^ 31"
  proof -
    have "tables_kept S st tabs (ac_current s) s" by (rule k(3) [OF wf]) (use c i(2) in simp)
    then show ?thesis unfolding sig_seqs.simps by (rule tables_kept_seq [OF _ k(1,2)]) (use i(3) c b in simp)
  qed
  then show ?case using same_roots_trans [OF k(1) i(1)] k(2) i(2) by simp
qed

lemma add_item_first: "ac_item_count st < MAX_ACPI_ITEMS \<Longrightarrow> fst (acpi_add_other_item n start st) = 0"
  by (simp add: acpi_add_other_item_def add_item_def Let_def)

text \<open>The writer of the root tables, which runs first.\<close>

lemma write_one_base:
  assumes e: "aw_h_write e = acpi_write_base" and i: "ac_item_count st < MAX_ACPI_ITEMS"
    and b: "0 < ac_base st" "ac_base st + 2 ^ 31 \<le> 2 ^ 64" "ac_current st = ac_base st" "ac_start st = ac_base st"
  shows "\<exists>s. acpi_write_one e st = (0, s) \<and> acpi_wf s (ac_current s) [] \<and> ac_base s = ac_base st \<and> ac_current s \<le> ac_base st + 664 \<and>
    ac_item_count s \<le> ac_item_count st + 1"
proof -
  let ?st = "st\<lparr>ac_tab_start := ac_current st\<rparr>"
  obtain r s1 where s1: "acpi_write_base ?st = (r, s1)" by (metis surj_pair)
  have k: "r = 0" "acpi_wf s1 (ac_current s1) []" "ac_base s1 = ac_base st" "ac_current s1 \<le> ac_base st + 600"
    using acpi_write_base_wf [OF s1] b by simp_all
  have "s1 = snd (acpi_write_base ?st)" using s1 by simp
  then have i1: "ac_item_count s1 = ac_item_count st" by (simp add: acpi_write_base_def Let_def)
  let ?n = "if aw_align64 e then 64 else 16"
  let ?s2 = "s1\<lparr>ac_current := ALIGN (ac_current s1) ?n\<rparr>"
  have w: "acpi_write_one e st = acpi_add_other_item (aw_name e) (ac_tab_start ?s2) ?s2"
    using s1 k(1) by (simp add: acpi_write_one_def e acpi_align_def acpi_align64_def Let_def)
  have f: "fst (acpi_add_other_item (aw_name e) (ac_tab_start ?s2) ?s2) = 0" using i i1 by (intro add_item_first) simp
  obtain its n where st': "snd (acpi_add_other_item (aw_name e) (ac_tab_start ?s2) ?s2) = ?s2\<lparr>ac_item := its, ac_item_count := n\<rparr>"
    using add_item_current unfolding acpi_add_other_item_def by metis
  have al: "ac_current s1 \<le> ALIGN (ac_current s1) ?n" "ALIGN (ac_current s1) ?n \<le> ac_current s1 + 64"
    using ALIGN_bounds [of ?n "ac_current s1"] by auto
  let ?s3 = "?s2\<lparr>ac_item := its, ac_item_count := n\<rparr>"
  have "acpi_write_one e st = (0, ?s3)" unfolding w using f st' by (metis prod.collapse)
  moreover have "acpi_wf ?s3 (ac_current ?s3) []" using acpi_wf_mono [OF k(2) al(1)] by simp
  moreover have "ac_item_count ?s3 \<le> ac_item_count st + 1"
    unfolding st' [symmetric] using i1 by (simp add: acpi_add_other_item_def add_item_def Let_def)
  ultimately show ?thesis using k al by (intro exI [of _ ?s3]) simp
qed

text \<open>
  The interface between the loop over the linker list and the writers on it: each keeps its contract.
\<close>

locale acpi_writers =
  fixes ws :: "acpi_writer list" and Ss :: "buf list set list"
  assumes writers: "list_all2 (\<lambda>w S. writer_ok (aw_h_write w) S) ws Ss"
begin

lemma all_kept:
  assumes "acpi_write_all ws st = (0, st')" "acpi_wf st (ac_current st) tabs" "ac_current st' \<le> ac_base st + 2 ^ 31"
  shows "tables_kept (sig_seqs Ss) st tabs (ac_current st') st'"
  using write_all_kept [OF writers assms(1), of tabs] assms(2,3) by simp

lemma all_roots: "acpi_write_all ws st = (0, st') \<Longrightarrow> same_roots st st' \<and> ac_current st \<le> ac_current st'"
  using write_all_kept [OF writers, of st st' "[]"] by simp

lemma write_tables_published:
  assumes e: "aw_h_write e = acpi_write_base" and a: "0 < addr" "addr < 2 ^ 63"
    and w: "write_acpi_tables (e # ws) addr st = (t, st')" and t: "t \<le> addr + 2 ^ 31"
  shows "acpi_published (sig_seqs Ss) st' \<and> t = ac_current st' \<and> ac_base st' = ALIGN addr 16"
proof -
  let ?st = "acpi_setup_ctx addr (acpi_reset_items st)"
  have b: "0 < ac_base ?st" "ac_base ?st + 2 ^ 31 \<le> 2 ^ 64" "ac_current ?st = ac_base ?st" "ac_start ?st = ac_base ?st"
    "ac_base ?st = ALIGN addr 16" "ac_item_count ?st < MAX_ACPI_ITEMS" "addr \<le> ALIGN addr 16"
    using ALIGN_bounds [of 16 addr] a by (auto simp: acpi_setup_ctx_def acpi_reset_items_def Let_def MAX_ACPI_ITEMS_def)
  obtain s where s: "acpi_write_one e ?st = (0, s)" "acpi_wf s (ac_current s) []" "ac_base s = ac_base ?st"
    using write_one_base [OF e b(6,1,2,3,4)] by blast
  have err: "nat (to_ulong (- ENOMEM)) = 2 ^ 64 - 12" by (simp add: to_ulong_def)
  have ne: "t \<noteq> nat (to_ulong (- ENOMEM))" using t a unfolding err by simp
  then have "\<exists>q. acpi_write_all ws s = (0, q) \<and> st' = q \<and> t = ac_current q"
    using w s(1) unfolding write_acpi_tables_def
    by (auto split: option.splits prod.splits if_splits)
  then have q: "acpi_write_all ws s = (0, st')" "t = ac_current st'" by auto
  have "ac_current st' \<le> ac_base s + 2 ^ 31" using t q(2) b(5,7) s(3) by simp
  then have k: "tables_kept (sig_seqs Ss) s [] (ac_current st') st'" using all_kept [OF q(1) s(2)] by simp
  moreover have "ac_base st' = ac_base s" using all_roots [OF q(1)] by (simp add: same_roots_def)
  ultimately show ?thesis using q(2) s(3) b(5) by (auto simp: tables_kept_def acpi_published_def)
qed

lemma alloc_published:
  assumes e: "aw_h_write e = acpi_write_base" and a: "addr < 2 ^ 63" and w: "alloc_write_acpi_tables (e # ws) addr st = (0, st')"
  shows "acpi_published (sig_seqs Ss) st' \<and> ac_base st' = ALIGN addr 16 \<and> ac_current st' \<le> addr + TABLE_SIZE"
proof -
  obtain t s where t: "write_acpi_tables (e # ws) addr st = (t, s)" by (metis surj_pair)
  have k: "0 < addr" "t \<le> addr + TABLE_SIZE" "st' = s"
    using w t by (auto simp: alloc_write_acpi_tables_def split: if_splits)
  then show ?thesis using write_tables_published [OF e k(1) a t] by (simp add: TABLE_SIZE_def)
qed

end

lemma write_one_total:
  assumes w: "writer_bound (aw_h_write e) n" and wf: "acpi_wf st (ac_current st) tabs"
    and i: "ac_item_count st < MAX_ACPI_ITEMS"
  shows "\<exists>s. acpi_write_one e st = (0, s) \<and> ac_current s \<le> ac_current st + n + 64 \<and> ac_item_count s \<le> ac_item_count st + 1"
proof -
  let ?st = "st\<lparr>ac_tab_start := ac_current st\<rparr>"
  obtain r s1 where s1: "aw_h_write e ?st = (r, s1)" by (metis surj_pair)
  have k: "ac_item_count s1 = ac_item_count st"
      "r = 0 \<and> ac_current s1 \<le> ac_current st + n \<or> r = - ENOENT \<and> ac_tab_start s1 \<le> ac_current st + n"
    using w [unfolded writer_bound_def, rule_format, of ?st tabs] wf s1 by simp_all
  show ?thesis
  proof (cases "r = - ENOENT")
    case True
    then show ?thesis using k s1 by (simp add: acpi_write_one_def)
  next
    case False
    let ?n = "if aw_align64 e then 64 else 16"
    let ?s2 = "s1\<lparr>ac_current := ALIGN (ac_current s1) ?n\<rparr>"
    let ?s3 = "acpi_add_other_item (aw_name e) (ac_tab_start ?s2) ?s2"
    have a: "acpi_write_one e st = ?s3"
      using s1 k False by (simp add: acpi_write_one_def acpi_align_def acpi_align64_def Let_def)
    have "fst ?s3 = 0" using i k(1) by (intro add_item_first) simp
    then have a': "acpi_write_one e st = (0, snd ?s3)" using a by (metis prod.collapse)
    obtain its m where s3: "snd ?s3 = ?s2\<lparr>ac_item := its, ac_item_count := m\<rparr>"
      using add_item_current unfolding acpi_add_other_item_def by metis
    have "ac_item_count (snd ?s3) \<le> ac_item_count st + 1"
      using k(1) by (simp add: acpi_add_other_item_def add_item_def Let_def)
    moreover have "ac_current (snd ?s3) = ALIGN (ac_current s1) ?n" by (subst s3) simp
    moreover have "ALIGN (ac_current s1) ?n \<le> ac_current s1 + 64" using ALIGN_bounds [of ?n "ac_current s1"] by auto
    ultimately show ?thesis using a' k False by (intro exI [of _ "snd ?s3"]) simp
  qed
qed

lemma write_all_total:
  assumes "list_all2 (\<lambda>w S. writer_ok (aw_h_write w) S) es Ts" "list_all2 (\<lambda>w n. writer_bound (aw_h_write w) n) es ns"
    "acpi_wf st (ac_current st) tabs" "ac_item_count st + length es \<le> MAX_ACPI_ITEMS"
    "ac_current st + sum_list ns + 64 * length es \<le> ac_base st + 2 ^ 31"
  shows "\<exists>s. acpi_write_all es st = (0, s) \<and> ac_current s \<le> ac_current st + sum_list ns + 64 * length es"
  using assms
proof (induction es Ts arbitrary: st tabs ns rule: list_all2_induct)
  case (Cons e es S Ts)
  obtain n ns' where ns: "ns = n # ns'" "writer_bound (aw_h_write e) n" "list_all2 (\<lambda>w n. writer_bound (aw_h_write w) n) es ns'"
    using Cons.prems(1) by (cases ns) auto
  have "ac_item_count st < MAX_ACPI_ITEMS" using Cons.prems(3) by simp
  then obtain s where s: "acpi_write_one e st = (0, s)" "ac_current s \<le> ac_current st + n + 64" "ac_item_count s \<le> ac_item_count st + 1"
    using write_one_total [OF ns(2) Cons.prems(2)] by blast
  note k = write_one_ok [OF Cons.hyps(1) s(1)]
  have b: "ac_base s = ac_base st" using k(1) by (simp add: same_roots_def)
  have lim: "ac_current s + sum_list ns' + 64 * length es \<le> ac_base s + 2 ^ 31"
    using s(2) Cons.prems(4) ns(1) b by simp
  have "tables_kept S st tabs (ac_current s) s"
    by (rule k(3) [OF Cons.prems(2)]) (use lim b in linarith)
  then obtain ts where "acpi_wf s (ac_current s) (tabs @ ts)" by (auto simp: tables_kept_def)
  moreover have "ac_item_count s + length es \<le> MAX_ACPI_ITEMS" using s(3) Cons.prems(3) by simp
  ultimately obtain q where q: "acpi_write_all es s = (0, q)" "ac_current q \<le> ac_current s + sum_list ns' + 64 * length es"
    using Cons.IH [OF ns(3) _ _ lim] by blast
  then show ?case using s ns(1) by (intro exI [of _ q]) simp
qed simp

text \<open>Writers that always finish: the generation succeeds when the tables fit.\<close>

locale acpi_writers_total = acpi_writers ws Ss for ws Ss +
  fixes ns :: "nat list"
  assumes bounds: "list_all2 (\<lambda>w n. writer_bound (aw_h_write w) n) ws ns"
    and few: "length ws < MAX_ACPI_ITEMS"
    and small: "680 + sum_list ns + 64 * length ws \<le> TABLE_SIZE"
begin

lemma alloc_succeeds:
  assumes e: "aw_h_write e = acpi_write_base" and a: "0 < addr" "addr < 2 ^ 63" and h: "malloc_ok (ac_heap st) SZ_ACPI_CTX"
  shows "\<exists>st'. alloc_write_acpi_tables (e # ws) addr st = (0, st')"
proof -
  let ?st = "acpi_setup_ctx addr (acpi_reset_items st)"
  have b: "0 < ac_base ?st" "ac_base ?st + 2 ^ 31 \<le> 2 ^ 64" "ac_current ?st = ac_base ?st" "ac_start ?st = ac_base ?st"
    "ac_base ?st = ALIGN addr 16" "ac_item_count ?st = 0" "ALIGN addr 16 \<le> addr + 16" "ac_item_count ?st < MAX_ACPI_ITEMS"
    using ALIGN_bounds [of 16 addr] a by (auto simp: acpi_setup_ctx_def acpi_reset_items_def Let_def MAX_ACPI_ITEMS_def)
  obtain s where s: "acpi_write_one e ?st = (0, s)" "acpi_wf s (ac_current s) []" "ac_base s = ac_base ?st"
      "ac_current s \<le> ac_base ?st + 664" "ac_item_count s \<le> 1"
    using write_one_base [OF e b(8,1,2,3,4)] b(6) by fastforce
  obtain q where q: "acpi_write_all ws s = (0, q)" "ac_current q \<le> ac_current s + sum_list ns + 64 * length ws"
    using write_all_total [OF writers bounds s(2)] s few small by (fastforce simp: TABLE_SIZE_def)
  have w: "acpi_write_all (e # ws) ?st = (0, q)" using s(1) q(1) by simp
  have "write_acpi_tables (e # ws) addr st = (ac_current q, q)"
    using w h by (simp add: write_acpi_tables_def c_malloc_def del: acpi_write_all.simps)
  moreover have "ac_current q \<le> addr + TABLE_SIZE" using q(2) s(3,4) b(5,7) small by simp
  moreover have "0 < ac_current q" using all_roots [OF q(1)] s(2) by (auto simp: acpi_wf_def layout_ok_def)
  ultimately show ?thesis using a by (simp add: alloc_write_acpi_tables_def)
qed

end

end
