(* ===== verification/Acpi_Tachyon.thy ===== *)
theory Acpi_Tachyon
  imports Acpi_Writer Board
begin

text \<open>
  The ACPI tables of the board (board/particle/tachyon/acpi.c): the values patched into the DSDT, the
  hooks of the generic writers and the board's own writers, and the list of writers the linker builds.

  The fuse and emulation registers, the shared-memory partition table, the address of the SOCINFO
  item, the environment variable \<open>win_serial\<close> and the configuration option \<open>CONFIG_TPM_V2\<close> are inputs.
\<close>

section \<open>Patching the DSDT\<close>

definition AML_NAME_OP :: byte where "AML_NAME_OP = 0x08"
definition AML_BYTE_PREFIX :: byte where "AML_BYTE_PREFIX = 0x0a"
definition AML_WORD_PREFIX :: byte where "AML_WORD_PREFIX = 0x0b"
definition AML_DWORD_PREFIX :: byte where "AML_DWORD_PREFIX = 0x0c"
definition AML_STRING_PREFIX :: byte where "AML_STRING_PREFIX = 0x0d"
definition AML_QWORD_PREFIX :: byte where "AML_QWORD_PREFIX = 0x0e"

definition c_strnlen :: "buf \<Rightarrow> nat" where
  "c_strnlen bs = length (takeWhile (\<lambda>b. b \<noteq> 0) bs)"

text \<open>The object after a name: its first data byte and its length, by its prefix; the table ends at \<open>end'\<close>.\<close>

definition aml_object :: "mem \<Rightarrow> nat \<Rightarrow> nat \<Rightarrow> (nat \<times> nat) option" where
  "aml_object m obj end' =
     (if m obj = AML_BYTE_PREFIX then Some (obj + 1, 1)
      else if m obj = AML_WORD_PREFIX then Some (obj + 1, 2)
      else if m obj = AML_DWORD_PREFIX then Some (obj + 1, 4)
      else if m obj = AML_QWORD_PREFIX then Some (obj + 1, 8)
      else if m obj = AML_STRING_PREFIX
           then Some (obj + 1, c_strnlen (mem_read (obj + 1) (end' - (obj + 1)) m) + 1)
      else None)"

text \<open>The scan from \<open>ptr\<close>: the loop stops when the name and its data no longer fit before the end.\<close>

function patch_name_scan :: "buf \<Rightarrow> buf \<Rightarrow> nat \<Rightarrow> nat \<Rightarrow> acpi_st \<Rightarrow> int \<times> acpi_st" where
  "patch_name_scan name data ptr end' st =
     (if ptr + 6 + length data \<le> end' then
        (if ac_mem st ptr \<noteq> AML_NAME_OP \<or> mem_read (ptr + 1) 4 (ac_mem st) \<noteq> name
         then patch_name_scan name data (ptr + 1) end' st
         else
           (case aml_object (ac_mem st) (ptr + 5) end' of
              None \<Rightarrow> (- EINVAL, st)
            | Some (obj, obj_len) \<Rightarrow>
                if obj + obj_len > end' then (- EINVAL, st)
                else if obj_len \<noteq> length data then (- EINVAL, st)
                else (0, put_bytes obj data st)))
      else (- ENOENT, st))"
  by pat_completeness auto
termination by (relation "measure (\<lambda>(name, data, ptr, end', st). end' - ptr)") auto

declare patch_name_scan.simps [simp del]

definition tachyon_acpi_patch_name :: "nat \<Rightarrow> string \<Rightarrow> buf \<Rightarrow> acpi_st \<Rightarrow> int \<times> acpi_st" where
  "tachyon_acpi_patch_name dsdt name data st =
     patch_name_scan (take 4 (bytes_of_string name)) data (dsdt + 36) (dsdt + get_field (dsdt + 4) 4 st) st"

definition tachyon_acpi_patch_u32 :: "nat \<Rightarrow> string \<Rightarrow> nat \<Rightarrow> acpi_st \<Rightarrow> int \<times> acpi_st" where
  "tachyon_acpi_patch_u32 dsdt name val st = tachyon_acpi_patch_name dsdt name (le_bytes 4 val) st"

definition tachyon_acpi_patch_u16 :: "nat \<Rightarrow> string \<Rightarrow> nat \<Rightarrow> acpi_st \<Rightarrow> int \<times> acpi_st" where
  "tachyon_acpi_patch_u16 dsdt name val st = tachyon_acpi_patch_name dsdt name (le_bytes 2 val) st"

definition tachyon_acpi_patch_u64 :: "nat \<Rightarrow> string \<Rightarrow> nat \<Rightarrow> acpi_st \<Rightarrow> int \<times> acpi_st" where
  "tachyon_acpi_patch_u64 dsdt name val st = tachyon_acpi_patch_name dsdt name (le_bytes 8 val) st"

definition tachyon_get_smem_region32 :: "smem \<Rightarrow> string \<Rightarrow> nat \<times> nat" where
  "tachyon_get_smem_region32 sm name =
     (case qcom_find_smem_region sm (Some (bytes_of_string name)) (Some \<lparr>bk_start = 0, bk_size = 0\<rparr>) of
        (ret, bank) \<Rightarrow>
        if ret \<noteq> 0 then (0, 0)
        else
          (case bank of
             None \<Rightarrow> (0, 0)
           | Some bank \<Rightarrow>
               if bk_start bank > 0xffffffff \<or> bk_size bank > 0xffffffff then (0, 0)
               else if bk_size bank \<noteq> 0 \<and> bk_start bank > 0x100000000 - bk_size bank then (0, 0)
               else (unat (bk_start bank), unat (bk_size bank))))"

text \<open>The inputs of the board code.\<close>

record tachyon_in =
  tin_smem :: smem
  tin_socinfo :: nat
  tin_qfprom_row0 :: u32
  tin_emulation_reg :: u32
  tin_win_serial :: int
  tin_tpm_v2 :: bool

definition tachyon_read_sku_id :: "tachyon_in \<Rightarrow> nat" where
  "tachyon_read_sku_id tin = unat (drop_bit 20 (tin_qfprom_row0 tin AND 0x0ff00000))"

definition tachyon_read_emulation_type :: "tachyon_in \<Rightarrow> nat" where
  "tachyon_read_emulation_type tin = unat (tin_emulation_reg tin AND 0x3)"

text \<open>The names, widths and values, in the order in which they are patched.\<close>

definition dsdt_patches :: "tachyon_in \<Rightarrow> (string \<times> nat \<times> nat) list" where
  "dsdt_patches tin =
     (case tachyon_get_smem_region32 (tin_smem tin) ''MPSS_EFS'' of (rmtb, rmtx) \<Rightarrow>
      case tachyon_get_smem_region32 (tin_smem tin) ''ADSP_EFS'' of (adsp_base, adsp_size) \<Rightarrow>
      case tachyon_get_smem_region32 (tin_smem tin) ''TGCM'' of (tcma, tcml) \<Rightarrow>
      let adsp_half = adsp_size div 2;
          sidv = 0;
          svmj = sidv div 2 ^ 16 mod 2 ^ 16;
          svmi = sidv mod 2 ^ 16;
          sidt = (if tachyon_read_sku_id tin = 0 then 3 else tachyon_read_sku_id tin);
          emul = tachyon_read_emulation_type tin
      in
      [(''SOID'', 4, 497), (''STOR'', 4, 1), (''SIDV'', 4, sidv), (''SVMJ'', 2, svmj), (''SVMI'', 2, svmi),
       (''SDFE'', 2, 118), (''SIDM'', 8, 0), (''SUFS'', 4, 0), (''PUS3'', 4, 1), (''SUS3'', 4, 0),
       (''SIDT'', 4, sidt), (''SJTG'', 4, 0x001970e1), (''EMUL'', 4, emul), (''PLST'', 4, 1), (''SKUV'', 4, 1),
       (''SDDR'', 4, 4), (''UAON'', 4, 0), (''SOSI'', 8, tin_socinfo tin),
       (''RMTB'', 4, rmtb), (''RMTX'', 4, rmtx), (''RFAB'', 4, adsp_base), (''RFAS'', 4, adsp_half),
       (''RFMB'', 4, adsp_base + adsp_half), (''RFMS'', 4, adsp_half), (''TCMA'', 4, tcma), (''TCML'', 4, tcml)])"

definition patch_value :: "nat \<Rightarrow> string \<times> nat \<times> nat \<Rightarrow> acpi_st \<Rightarrow> int \<times> acpi_st" where
  "patch_value dsdt p st =
     (case p of (name, width, val) \<Rightarrow>
      if width = 2 then tachyon_acpi_patch_u16 dsdt name val st
      else if width = 4 then tachyon_acpi_patch_u32 dsdt name val st
      else tachyon_acpi_patch_u64 dsdt name val st)"

text \<open>Every patch is tried; the return values are combined by a bitwise or.\<close>

fun patch_all :: "nat \<Rightarrow> (string \<times> nat \<times> nat) list \<Rightarrow> int \<Rightarrow> acpi_st \<Rightarrow> int \<times> acpi_st" where
  "patch_all dsdt [] ret st = (ret, st)"
| "patch_all dsdt (p # ps) ret st =
     (case patch_value dsdt p st of (r, st) \<Rightarrow> patch_all dsdt ps (ret OR r) st)"

definition acpi_patch_dsdt :: "tachyon_in \<Rightarrow> nat \<Rightarrow> acpi_st \<Rightarrow> int \<times> acpi_st" where
  "acpi_patch_dsdt tin dsdt st = patch_all dsdt (dsdt_patches tin) 0 st"

section \<open>The hooks of the generic writers\<close>

definition acpi_fill_fadt :: "nat \<Rightarrow> acpi_st \<Rightarrow> acpi_st" where
  "acpi_fill_fadt fadt st =
     set_fields fadt [(112, 4, 2 ^ 20 + 2 ^ 21), (129, 2, 1), (45, 1, 2), (8, 1, 6)] st"

definition TACHYON_GICD_BASE :: nat where "TACHYON_GICD_BASE = 0x17a00000"
definition TACHYON_GICR_BASE :: nat where "TACHYON_GICR_BASE = 0x17a60000"
definition TACHYON_GICR_STRIDE :: nat where "TACHYON_GICR_STRIDE = 0x20000"
definition TACHYON_GIC_NUM_CPUS :: nat where "TACHYON_GIC_NUM_CPUS = 8"

definition gic_efficiency :: "nat list" where
  "gic_efficiency = [0, 0, 0, 0, 1, 1, 1, 2]"

definition madt_add_gicc :: "nat \<Rightarrow> acpi_st \<Rightarrow> acpi_st" where
  "madt_add_gicc i st =
     (let gicc = ac_current st;
          st = acpi_write_madt_gicc gicc i 23 0 0 0 25 (TACHYON_GICR_BASE + i * TACHYON_GICR_STRIDE) (i * 2 ^ 8)
                 (gic_efficiency ! i) st
      in acpi_inc (get_field (gicc + 1) 1 st) st)"

definition acpi_fill_madt :: "nat \<Rightarrow> acpi_st \<Rightarrow> nat \<times> acpi_st" where
  "acpi_fill_madt madt st =
     (let st = fold madt_add_gicc [0..<TACHYON_GIC_NUM_CPUS] st;
          gicd = ac_current st;
          st = acpi_write_madt_gicd gicd 0 TACHYON_GICD_BASE 3 st;
          st = acpi_inc (get_field (gicd + 1) 1 st) st
      in (ac_current st, st))"

text \<open>The board drops the IORT (no nodes), the MCFG and the CSRT.\<close>

definition acpi_fill_iort :: "acpi_st \<Rightarrow> int \<times> acpi_st" where
  "acpi_fill_iort st = (0, st)"

definition acpi_fill_mcfg :: "acpi_st \<Rightarrow> int \<times> acpi_st" where
  "acpi_fill_mcfg st = (- ENOENT, st)"

definition acpi_fill_csrt :: "acpi_st \<Rightarrow> int \<times> acpi_st" where
  "acpi_fill_csrt st = (- ENOENT, st)"

section \<open>The writers of the board\<close>

text \<open>The eight data caches, the eight instruction caches and the eight processor nodes of the PPTT.\<close>

fun pptt_add_caches :: "nat \<Rightarrow> nat \<Rightarrow> nat \<Rightarrow> acpi_st \<Rightarrow> nat list \<times> acpi_st" where
  "pptt_add_caches 0 flags attributes st = ([], st)"
| "pptt_add_caches (Suc n) flags attributes st =
     (case acpi_pptt_add_cache flags 0 0x8000 0x100 2 attributes 64 st of (off, st) \<Rightarrow>
      case pptt_add_caches n flags attributes st of (offs, st) \<Rightarrow> (off # offs, st))"

fun pptt_add_cpus :: "nat \<Rightarrow> nat \<Rightarrow> (nat \<times> nat) list \<Rightarrow> acpi_st \<Rightarrow> acpi_st" where
  "pptt_add_cpus cluster i [] st = st"
| "pptt_add_cpus cluster i ((l1d, l1i) # cs) st =
     pptt_add_cpus cluster (i + 1) cs (snd (acpi_pptt_add_proc 26 cluster i [l1d, l1i] st))"

definition tachyon_pptt_body :: "acpi_st \<Rightarrow> acpi_st" where
  "tachyon_pptt_body st =
     (case acpi_pptt_add_cache 0x7f 0 0x400000 0x800 16 11 64 st of (l3_offset, st) \<Rightarrow>
      case acpi_pptt_add_cache 0x7f 0 0x80000 0x400 8 11 64 st of (l2_offset, st) \<Rightarrow>
      case acpi_pptt_add_proc 17 0 0 [l2_offset] st of (cluster_offset, st) \<Rightarrow>
      case pptt_add_caches 8 0x7f 3 st of (l1_offsets, st) \<Rightarrow>
      case pptt_add_caches 8 0x5f 5 st of (l2_offsets, st) \<Rightarrow>
      pptt_add_cpus cluster_offset 0 (zip l1_offsets l2_offsets) st)"

definition tachyon_write_pptt :: "acpi_st \<Rightarrow> int \<times> acpi_st" where
  "tachyon_write_pptt st =
     (let header = ac_current st;
          st = st\<lparr>ac_tab_start := header\<rparr>;
          st = c_memset0 header 36 st;
          st = acpi_fill_header header ''PPTT'' st;
          st = set_field (header + 8) 1 (rev_byte ACPITAB_PPTT) st;
          st = acpi_inc 36 st;
          st = tachyon_pptt_body st;
          st = set_field (header + 4) 4 (ac_current st - ac_tab_start st) st;
          st = set_checksum header st
      in (0, snd (acpi_add_table header st)))"

definition SZ_GTDT :: nat where "SZ_GTDT = 104"
definition SZ_GT_BLOCK :: nat where "SZ_GT_BLOCK = 60"

text \<open>For each table, the assignments to its fields up to the checksum, then the writer.\<close>

definition gtdt_fields :: "acpi_st \<Rightarrow> acpi_st" where
  "gtdt_fields st =
     (let gtdt = ac_current st;
          st = c_memset0 gtdt SZ_GTDT st;
          st = acpi_fill_header gtdt ''GTDT'' st;
          st = set_fields gtdt
            [(4, 4, SZ_GTDT), (8, 1, rev_byte ACPITAB_GTDT),
             (36, 8, 0xFFFFFFFFFFFFFFFF), (48, 4, 29), (52, 4, 0), (56, 4, 30), (60, 4, 0), (64, 4, 27), (68, 4, 0),
             (72, 4, 26), (76, 4, 0), (80, 8, 0xFFFFFFFFFFFFFFFF), (88, 4, 1), (92, 4, SZ_GTDT)] st;
          gb = gtdt + SZ_GTDT;
          st = c_memset0 gb SZ_GT_BLOCK st;
          st = set_fields gb
            [(0, 1, 0), (1, 2, SZ_GT_BLOCK), (4, 8, 0x17C20000), (12, 4, 1), (16, 4, 0x14), (20, 1, 0),
             (24, 8, 0x17C21000), (32, 8, 0x17C22000), (40, 4, 0x28), (48, 4, 0x26), (56, 4, 2)] st
      in set_field (gtdt + 4) 4 (SZ_GTDT + SZ_GT_BLOCK) st)"

definition tachyon_write_gtdt :: "acpi_st \<Rightarrow> int \<times> acpi_st" where
  "tachyon_write_gtdt st =
     (let gtdt = ac_current st;
          st = set_checksum gtdt (gtdt_fields st);
          st = snd (acpi_add_table gtdt st)
      in (0, acpi_inc (get_field (gtdt + 4) 4 st) st))"

text \<open>The boot graphics table is compiled but not registered as a writer.\<close>

definition bgrt_fields :: "acpi_st \<Rightarrow> acpi_st" where
  "bgrt_fields st =
     (let bgrt = ac_current st;
          st = c_memset0 bgrt 56 st;
          st = acpi_fill_header bgrt ''BGRT'' st
      in set_fields bgrt [(4, 4, 56), (8, 1, rev_byte ACPITAB_BGRT), (36, 2, 1), (38, 1, 0), (39, 1, 0)] st)"

definition tachyon_write_bgrt :: "acpi_st \<Rightarrow> int \<times> acpi_st" where
  "tachyon_write_bgrt st =
     (let bgrt = ac_current st;
          st = set_checksum bgrt (bgrt_fields st);
          st = snd (acpi_add_table bgrt st)
      in (0, acpi_inc 56 st))"

definition tachyon_write_dbg2 :: "tachyon_in \<Rightarrow> acpi_st \<Rightarrow> int \<times> acpi_st" where
  "tachyon_write_dbg2 tin st =
     (if tin_win_serial tin = 0 then (0, st)
      else
        let dbg2 = ac_current st;
            address = acpi_gen_regaddr 0 32 0 3 0x994000 0;
            st = acpi_create_dbg2 dbg2 0x8000 0x000E address 0x1000 (Some [CHR 0x5C, CHR ''_'', CHR ''S'', CHR ''B'', CHR ''.'', CHR ''U'', CHR ''A'', CHR ''R'', CHR ''D'']) st;
            st = snd (acpi_add_table dbg2 st)
        in (0, acpi_inc_align (get_field (dbg2 + 4) 4 st) st))"

definition SZ_SPCR :: nat where "SZ_SPCR = 80"

definition spcr_fields :: "acpi_st \<Rightarrow> acpi_st" where
  "spcr_fields st =
     (let spcr = ac_current st;
          st = c_memset0 spcr SZ_SPCR st;
          st = acpi_fill_header spcr ''SPCR'' st
      in set_fields spcr
           [(4, 4, SZ_SPCR), (8, 1, 2), (36, 1, 0x11), (40, 1, 0), (41, 1, 32), (42, 1, 0), (43, 1, 3),
            (44, 4, 0x00994000), (48, 4, 0), (52, 1, 8), (53, 1, 0), (54, 4, 638), (58, 1, 7), (59, 1, 0),
            (60, 1, 1), (61, 1, 0), (62, 1, 3), (64, 2, 0xffff), (66, 2, 0xffff)] st)"

definition acpi_write_spcr :: "tachyon_in \<Rightarrow> acpi_st \<Rightarrow> int \<times> acpi_st" where
  "acpi_write_spcr tin st =
     (if tin_win_serial tin = 0 then (0, st)
      else
        let spcr = ac_current st;
            st = set_checksum spcr (spcr_fields st);
            st = snd (acpi_add_table spcr st)
        in (0, acpi_inc (get_field (spcr + 4) 4 st) st))"

definition SZ_TPM2 :: nat where "SZ_TPM2 = 84"

definition tpm2_fields :: "acpi_st \<Rightarrow> acpi_st" where
  "tpm2_fields st =
     (let tpm2 = ac_current st;
          st = c_memset0 tpm2 SZ_TPM2 st;
          st = acpi_fill_header tpm2 ''TPM2'' st
      in set_fields tpm2 [(4, 4, SZ_TPM2), (8, 1, rev_byte ACPITAB_TPM2), (40, 8, 0), (48, 4, 9)] st)"

definition tachyon_write_tpm2 :: "tachyon_in \<Rightarrow> acpi_st \<Rightarrow> int \<times> acpi_st" where
  "tachyon_write_tpm2 tin st =
     (if \<not> tin_tpm_v2 tin then (- ENOENT, st)
      else
        let tpm2 = ac_current st;
            st = set_checksum tpm2 (tpm2_fields st);
            st = acpi_inc (get_field (tpm2 + 4) 4 st) st
        in (0, snd (acpi_add_table tpm2 st)))"

text \<open>
  The linker list, in the order of the names. Without \<open>CONFIG_TPM_V2\<close> the TPM2 writer is not compiled;
  the writer that only reports \<open>-ENOENT\<close> has the same effect.
\<close>

definition tachyon_writers :: "acpi_dm \<Rightarrow> mem \<Rightarrow> tachyon_in \<Rightarrow> acpi_writer list" where
  "tachyon_writers dm AmlCode tin =
     [\<lparr>aw_name = ''1facs'', aw_h_write = acpi_write_facs, aw_align64 = False\<rparr>,
      \<lparr>aw_name = ''3dsdt'', aw_h_write = acpi_write_dsdt dm AmlCode (acpi_patch_dsdt tin), aw_align64 = False\<rparr>,
      \<lparr>aw_name = ''5csrt'', aw_h_write = acpi_write_csrt acpi_fill_csrt, aw_align64 = False\<rparr>,
      \<lparr>aw_name = ''5dbg2'', aw_h_write = tachyon_write_dbg2 tin, aw_align64 = False\<rparr>,
      \<lparr>aw_name = ''5fadt'', aw_h_write = acpi_write_fadt acpi_fill_fadt, aw_align64 = False\<rparr>,
      \<lparr>aw_name = ''5gtdt'', aw_h_write = tachyon_write_gtdt, aw_align64 = False\<rparr>,
      \<lparr>aw_name = ''5iort'', aw_h_write = acpi_write_iort acpi_fill_iort, aw_align64 = False\<rparr>,
      \<lparr>aw_name = ''5madt'', aw_h_write = acpi_write_madt acpi_fill_madt, aw_align64 = False\<rparr>,
      \<lparr>aw_name = ''5mcfg'', aw_h_write = acpi_write_mcfg acpi_fill_mcfg, aw_align64 = False\<rparr>,
      \<lparr>aw_name = ''5pptt'', aw_h_write = tachyon_write_pptt, aw_align64 = False\<rparr>,
      \<lparr>aw_name = ''5spcr'', aw_h_write = acpi_write_spcr tin, aw_align64 = False\<rparr>,
      \<lparr>aw_name = ''5tpm2'', aw_h_write = tachyon_write_tpm2 tin, aw_align64 = False\<rparr>,
      \<lparr>aw_name = ''6ssdt'', aw_h_write = acpi_write_ssdt dm, aw_align64 = False\<rparr>,
      \<lparr>aw_name = ''8dev'', aw_h_write = write_dev_tables dm, aw_align64 = False\<rparr>]"

definition base_writer :: acpi_writer where
  "base_writer = \<lparr>aw_name = ''0base'', aw_h_write = acpi_write_base, aw_align64 = True\<rparr>"

definition tachyon_acpi_tables :: "acpi_dm \<Rightarrow> mem \<Rightarrow> tachyon_in \<Rightarrow> nat \<Rightarrow> acpi_st \<Rightarrow> int \<times> acpi_st" where
  "tachyon_acpi_tables dm AmlCode tin addr st =
     alloc_write_acpi_tables (base_writer # tachyon_writers dm AmlCode tin) addr st"

section \<open>Specification of the proofs\<close>

text \<open>What a step does that appends \<open>n\<close> bytes.\<close>

definition appends :: "nat \<Rightarrow> acpi_st \<Rightarrow> acpi_st \<Rightarrow> bool" where
  "appends n st st' \<longleftrightarrow>
     extends st st' \<and> ac_current st' = ac_current st + n \<and> ac_tab_start st' = ac_tab_start st \<and>
     ac_dsdt st' = ac_dsdt st \<and> ac_facs st' = ac_facs st \<and> ac_item_count st' = ac_item_count st"

text \<open>
  A named object in an AML image: the first place from \<open>lo\<close> where the name operator and the name stand
  and where the object could still hold \<open>n\<close> bytes before \<open>hi\<close>.
\<close>

definition aml_name_at :: "mem \<Rightarrow> buf \<Rightarrow> nat \<Rightarrow> bool" where
  "aml_name_at m name q \<longleftrightarrow> m q = AML_NAME_OP \<and> mem_read (q + 1) 4 m = name"

definition aml_find :: "mem \<Rightarrow> buf \<Rightarrow> nat \<Rightarrow> nat \<Rightarrow> nat \<Rightarrow> nat option" where
  "aml_find m name n lo hi = find (\<lambda>q. q + 6 + n \<le> hi \<and> aml_name_at m name q) [lo..<hi]"

text \<open>The scan of the source is this search followed by the checks on the object.\<close>

definition patch_spec :: "buf \<Rightarrow> buf \<Rightarrow> nat \<Rightarrow> nat \<Rightarrow> acpi_st \<Rightarrow> int \<times> acpi_st" where
  "patch_spec name data lo hi st =
     (case aml_find (ac_mem st) name (length data) lo hi of
        None \<Rightarrow> (- ENOENT, st)
      | Some q \<Rightarrow>
          (case aml_object (ac_mem st) (q + 5) hi of
             None \<Rightarrow> (- EINVAL, st)
           | Some (obj, obj_len) \<Rightarrow>
               if obj + obj_len \<le> hi \<and> obj_len = length data then (0, put_bytes obj data st) else (- EINVAL, st)))"

text \<open>The tables each writer of the list adds, as sequences of signatures.\<close>

definition tachyon_sigs :: "tachyon_in \<Rightarrow> buf list set list" where
  "tachyon_sigs tin =
     (let none = {[]}; one = (\<lambda>sig. {[bytes_of_string sig]}); serial = tin_win_serial tin \<noteq> 0 in
      [none, none, none, if serial then one ''DBG2'' else none, one ''FACP'', one ''GTDT'', none, one ''APIC'', none,
       one ''PPTT'', if serial then one ''SPCR'' else none, if tin_tpm_v2 tin then one ''TPM2'' else none,
       {[], [bytes_of_string ''SSDT'']}, UNIV])"

text \<open>The order of the tables in front of those of the devices.\<close>

definition tachyon_tables :: "tachyon_in \<Rightarrow> string list" where
  "tachyon_tables tin =
     (if tin_win_serial tin \<noteq> 0 then [''DBG2''] else []) @ [''FACP'', ''GTDT'', ''APIC'', ''PPTT''] @
     (if tin_win_serial tin \<noteq> 0 then [''SPCR''] else []) @ (if tin_tpm_v2 tin then [''TPM2''] else [])"

text \<open>A device tree without ACPI methods.\<close>

definition bare_dm :: acpi_dm where
  "bare_dm = \<lparr>dm_root = UDevice ''root_driver'' (\<lambda>_. None) 0 [], dm_dsdt_order = None, dm_ssdt_order = None\<rparr>"

text \<open>The length field of an AML image, and what patching it in place returns.\<close>

definition aml_length :: "mem \<Rightarrow> nat" where
  "aml_length aml = le_nat (mem_read 4 4 aml)"

fun patch_mem :: "(string \<times> nat \<times> nat) list \<Rightarrow> int \<Rightarrow> mem \<Rightarrow> int \<times> mem" where
  "patch_mem [] ret m = (ret, m)"
| "patch_mem ((name, w, v) # ps) ret m =
     (let data = le_bytes (if w = 2 then 2 else if w = 4 then 4 else 8) v; hi = aml_length m in
      case aml_find m (take 4 (bytes_of_string name)) (length data) 36 hi of
        None \<Rightarrow> patch_mem ps (ret OR - ENOENT) m
      | Some q \<Rightarrow>
          (case aml_object m (q + 5) hi of
             None \<Rightarrow> patch_mem ps (ret OR - EINVAL) m
           | Some (obj, l) \<Rightarrow>
               if obj + l \<le> hi \<and> l = length data then patch_mem ps ret (mem_write obj data m)
               else patch_mem ps (ret OR - EINVAL) m))"

text \<open>The first \<open>hi\<close> bytes of an image lie at \<open>d\<close>.\<close>

definition image_at :: "nat \<Rightarrow> nat \<Rightarrow> mem \<Rightarrow> mem \<Rightarrow> bool" where
  "image_at d hi m' m \<longleftrightarrow> (\<forall>i < hi. m' (d + i) = m i)"

section \<open>Lemmas\<close>

lemma gtdt_writes: "writes_only (ac_current st) (ac_current st + 164) st (gtdt_fields st)"
  unfolding gtdt_fields_def Let_def
  by (intro writes_only_intros writes_only_refl) (simp_all add: SZ_GTDT_def SZ_GT_BLOCK_def)

lemma gtdt_built: "table_built st (gtdt_fields st) 164 (bytes_of_string ''GTDT'')"
  by (rule table_builtI [OF gtdt_writes]) (simp_all add: gtdt_fields_def Let_def SZ_GTDT_def SZ_GT_BLOCK_def build_simps)

lemma gtdt_builds: "builds_table tachyon_write_gtdt (bytes_of_string ''GTDT'') 164"
  by (rule builds_table_length [OF gtdt_built gtdt_writes])
    (simp add: tachyon_write_gtdt_def Let_def table_done_def)

lemma spcr_writes: "writes_only (ac_current st) (ac_current st + 80) st (spcr_fields st)"
  unfolding spcr_fields_def Let_def
  by (intro writes_only_intros writes_only_refl) (simp_all add: SZ_SPCR_def)

lemma spcr_built: "table_built st (spcr_fields st) 80 (bytes_of_string ''SPCR'')"
  by (rule table_builtI [OF spcr_writes]) (simp_all add: spcr_fields_def Let_def SZ_SPCR_def build_simps)

lemma spcr_builds: "tin_win_serial tin \<noteq> 0 \<Longrightarrow> builds_table (acpi_write_spcr tin) (bytes_of_string ''SPCR'') 80"
  by (rule builds_table_length [OF spcr_built spcr_writes])
    (simp add: acpi_write_spcr_def Let_def table_done_def)

lemma tpm2_writes: "writes_only (ac_current st) (ac_current st + 84) st (tpm2_fields st)"
  unfolding tpm2_fields_def Let_def
  by (intro writes_only_intros writes_only_refl) (simp_all add: SZ_TPM2_def)

lemma tpm2_built: "table_built st (tpm2_fields st) 84 (bytes_of_string ''TPM2'')"
  by (rule table_builtI [OF tpm2_writes]) (simp_all add: tpm2_fields_def Let_def SZ_TPM2_def build_simps)

lemma bgrt_writes: "writes_only (ac_current st) (ac_current st + 56) st (bgrt_fields st)"
  unfolding bgrt_fields_def Let_def
  by (intro writes_only_intros writes_only_refl) simp_all

lemma bgrt_built: "table_built st (bgrt_fields st) 56 (bytes_of_string ''BGRT'')"
  by (rule table_builtI [OF bgrt_writes]) (simp_all add: bgrt_fields_def Let_def build_simps)

lemma bgrt_builds: "builds_table tachyon_write_bgrt (bytes_of_string ''BGRT'') 56"
  by (rule builds_table_const [OF bgrt_built bgrt_writes])
    (simp add: tachyon_write_bgrt_def Let_def table_done_def)

lemma tpm2_builds:
  assumes "tin_tpm_v2 tin"
  shows "builds_table (tachyon_write_tpm2 tin) (bytes_of_string ''TPM2'') 84"
  unfolding builds_table_def
proof (intro allI impI)
  fix st :: acpi_st
  let ?u = "(tpm2_fields st)\<lparr>ac_current := ac_current st + 84\<rparr>"
  have f: "get_field (ac_current st + 4) 4 (set_checksum (ac_current st) (tpm2_fields st)) = 84"
    using tpm2_built [of st] by (simp add: table_built_def get_field_set_checksum)
  have "tachyon_write_tpm2 tin st = (0, table_done st ?u)"
    using assms f writes_only_sel [OF tpm2_writes [of st]]
    by (simp add: tachyon_write_tpm2_def Let_def table_done_def acpi_inc_def)
  moreover have "(table_done st ?u)\<lparr>ac_current := ac_current st + 84\<rparr> = table_done st ?u"
    by (rule current_idem) simp
  ultimately show "\<exists>s L c. table_built st s L (bytes_of_string ''TPM2'') \<and> ac_tab_start s = ac_tab_start st \<and>
      ac_item_count s = ac_item_count st \<and> tachyon_write_tpm2 tin st = (0, (table_done st s)\<lparr>ac_current := c\<rparr>) \<and>
      ac_current st \<le> c \<and>
      (get_field (ac_current st + 4) 4 (table_done st s) = L \<longrightarrow> ac_current st + L \<le> c \<and> c \<le> ac_current st + 84)"
    using tpm2_built [of st] writes_only_sel [OF tpm2_writes [of st]]
    by (intro exI [of _ ?u] exI [of _ 84] exI [of _ "ac_current st + 84"]) simp
qed

lemma dbg2_writes:
  assumes "length address = 12" "length path = 9"
  shows "writes_only (ac_current st) (ac_current st + 92) st (dbg2_fields (ac_current st) t u address z (Some path) st)"
  unfolding dbg2_fields_def Let_def option.case using assms
  by (intro writes_only_intros writes_only_refl) simp_all

lemma dbg2_built:
  assumes "length address = 12" "length path = 9"
  shows "table_built st (dbg2_fields (ac_current st) t u address z (Some path) st) 92 (bytes_of_string ''DBG2'')"
  by (rule table_builtI [OF dbg2_writes [OF assms]])
    (simp_all add: dbg2_fields_def Let_def assms build_simps)

lemma dbg2_builds:
  assumes "tin_win_serial tin \<noteq> 0"
  shows "builds_table (tachyon_write_dbg2 tin) (bytes_of_string ''DBG2'') 107"
  unfolding builds_table_def
proof (intro allI impI)
  fix st :: acpi_st
  let ?path = "[CHR 0x5C, CHR ''_'', CHR ''S'', CHR ''B'', CHR ''.'', CHR ''U'', CHR ''A'', CHR ''R'', CHR ''D'']"
  let ?addr = "acpi_gen_regaddr 0 32 0 3 0x994000 0"
  let ?u = "dbg2_fields (ac_current st) 0x8000 0x000E ?addr 0x1000 (Some ?path) st"
  let ?c = "ALIGN (ac_current st + get_field (ac_current st + 4) 4 (table_done st ?u)) 16"
  have l: "length ?addr = 12" "length ?path = 9" by (simp_all add: acpi_gen_regaddr_def)
  note b = dbg2_built [OF l, of st "0x8000" "0x000E" "0x1000"] and w = dbg2_writes [OF l, of st "0x8000" "0x000E" "0x1000"]
  have e: "tachyon_write_dbg2 tin st = (0, (table_done st ?u)\<lparr>ac_current := ?c\<rparr>)"
    using assms writes_only_sel [OF w]
    by (simp add: tachyon_write_dbg2_def Let_def table_done_def acpi_create_dbg2_def acpi_inc_align_eq)
  have al: "ac_current st + n \<le> ALIGN (ac_current st + n) 16" "ALIGN (ac_current st + n) 16 \<le> ac_current st + n + 15" for n
    using ALIGN_bounds [of 16 "ac_current st + n"] by auto
  have c: "ac_current st \<le> ?c" using al(1) [of "get_field (ac_current st + 4) 4 (table_done st ?u)"] by linarith
  have "get_field (ac_current st + 4) 4 (table_done st ?u) = 92 \<longrightarrow> ac_current st + 92 \<le> ?c \<and> ?c \<le> ac_current st + 107"
    using al [of 92] by simp
  then show "\<exists>s L c. table_built st s L (bytes_of_string ''DBG2'') \<and> ac_tab_start s = ac_tab_start st \<and>
      ac_item_count s = ac_item_count st \<and> tachyon_write_dbg2 tin st = (0, (table_done st s)\<lparr>ac_current := c\<rparr>) \<and>
      ac_current st \<le> c \<and>
      (get_field (ac_current st + 4) 4 (table_done st s) = L \<longrightarrow> ac_current st + L \<le> c \<and> c \<le> ac_current st + 107)"
    by (intro exI [of _ ?u] exI [of _ 92] exI [of _ ?c] conjI b e c writes_only_sel(3,10) [OF w])
qed

lemma writes_only_if:
  "(P \<Longrightarrow> writes_only lo hi st s) \<Longrightarrow> (\<not> P \<Longrightarrow> writes_only lo hi st s') \<Longrightarrow> writes_only lo hi st (if P then s else s')"
  by simp

lemma fadt_writes: "writes_only (ac_current st) (ac_current st + 276) st (fadt_fields acpi_fill_fadt st)"
  unfolding fadt_fields_def acpi_fill_fadt_def Let_def
  by (intro writes_only_if writes_only_intros writes_only_refl) (simp_all add: SZ_FADT_def)

lemma fadt_built: "table_built st (fadt_fields acpi_fill_fadt st) 276 (bytes_of_string ''FACP'')"
  by (rule table_builtI [OF fadt_writes])
    (simp_all add: fadt_fields_def acpi_fill_fadt_def Let_def SZ_FADT_def build_simps)

lemma fadt_builds: "builds_table (acpi_write_fadt acpi_fill_fadt) (bytes_of_string ''FACP'') 276"
  by (rule builds_table_const [OF fadt_built fadt_writes])
    (simp add: acpi_write_fadt_def acpi_add_fadt_def Let_def table_done_def SZ_FADT_def)

lemma facs_ok: "writer_ok acpi_write_facs {[]}"
proof (rule writer_ok_extends)
  fix st :: acpi_st
  let ?a = "ac_current st"
  let ?s = "set_fields ?a [(4, 4, 64), (8, 4, 0), (12, 4, 0), (16, 4, 0), (20, 4, 0), (24, 4, 0), (28, 4, 0), (32, 1, 1)]
      (put_bytes ?a (bytes_of_string ''FACS'') (c_memset0 ?a 64 st))"
  have w: "writes_only ?a (?a + 64) st ?s" by (intro writes_only_intros writes_only_refl) simp_all
  show "extends st (snd (acpi_write_facs st))"
    using writes_only_sel [OF w] writes_only_mem [OF w]
    by (simp add: acpi_write_facs_def Let_def acpi_inc_def extends_def same_roots_def)
qed simp

lemma csrt_ok: "writer_ok (acpi_write_csrt acpi_fill_csrt) {[]}"
proof (rule writer_ok_extends)
  fix st :: acpi_st
  let ?a = "ac_current st"
  let ?s = "set_field (?a + 8) 1 0 (acpi_fill_header ?a ''CSRT'' (c_memset0 ?a 36 st))"
  have w: "writes_only ?a (?a + 36) st ?s" by (intro writes_only_intros writes_only_refl) simp_all
  have e: "acpi_write_csrt acpi_fill_csrt st = (- ENOENT, ?s\<lparr>ac_current := ?a + 36\<rparr>)"
    by (simp add: acpi_write_csrt_def acpi_fill_csrt_def Let_def acpi_inc_def)
  show "extends st (snd (acpi_write_csrt acpi_fill_csrt st))"
    unfolding e snd_conv by (rule extends_writes [OF w]) simp
qed simp

lemma mcfg_ok: "writer_ok (acpi_write_mcfg acpi_fill_mcfg) {[]}"
proof (rule writer_ok_extends)
  fix st :: acpi_st
  let ?a = "ac_current st"
  let ?s = "set_fields ?a [(4, 4, 44), (8, 1, 1)] (acpi_fill_header ?a ''MCFG'' (c_memset0 ?a 44 st))"
  have w: "writes_only ?a (?a + 44) st ?s" by (intro writes_only_intros writes_only_refl) simp_all
  have e: "acpi_write_mcfg acpi_fill_mcfg st = (- ENOENT, ?s\<lparr>ac_current := ?a + 44\<rparr>)"
    by (simp add: acpi_write_mcfg_def acpi_fill_mcfg_def Let_def acpi_inc_def)
  show "extends st (snd (acpi_write_mcfg acpi_fill_mcfg st))"
    unfolding e snd_conv by (rule extends_writes [OF w]) simp
qed simp

lemma set_checksum_tab_start [simp]: "set_checksum a (st\<lparr>ac_tab_start := x\<rparr>) = (set_checksum a st)\<lparr>ac_tab_start := x\<rparr>"
  by (simp add: set_checksum_def table_compute_checksum_def put_bytes_def)

lemma iort_ok: "writer_ok (acpi_write_iort acpi_fill_iort) {[]}"
proof -
  have x: "fst (acpi_write_iort acpi_fill_iort st) = - ENOENT \<and> extends st (snd (acpi_write_iort acpi_fill_iort st))" for st
  proof -
    let ?a = "ac_current st"
    let ?t = "st\<lparr>ac_tab_start := ?a\<rparr>"
    let ?s0 = "set_fields ?a [(8, 1, 1), (32, 4, 1), (4, 4, SZ_IORT), (40, 4, SZ_IORT)]
        (acpi_fill_header ?a ''IORT'' (c_memset0 ?a SZ_IORT ?t))"
    let ?s1 = "?s0\<lparr>ac_current := ?a + SZ_IORT\<rparr>"
    let ?n = "get_field (?a + 36) 4 ?s1 + iort_count_nodes ?s1 (?a + get_field (?a + 40) 4 ?s1) 0"
    let ?s2 = "set_checksum ?a (set_field (?a + 4) 4 SZ_IORT (set_field (?a + 36) 4 ?n ?s0))"
    have w: "writes_only ?a (?a + SZ_IORT) ?t ?s2"
      by (intro writes_only_intros writes_only_refl) (simp_all add: SZ_IORT_def)
    have w0: "ac_current ?s0 = ?a" by simp
    have f: "get_field (?a + 4) 4 ?s2 = SZ_IORT"
      by (simp add: get_field_set_checksum get_field_set_same SZ_IORT_def)
    have e: "acpi_write_iort acpi_fill_iort st = (- ENOENT, ?s2\<lparr>ac_current := ?a + SZ_IORT\<rparr>)"
      using w0 f by (simp add: acpi_write_iort_def acpi_fill_iort_def Let_def acpi_inc_def SZ_IORT_def)
    have "extends ?t (?s2\<lparr>ac_current := ?a + SZ_IORT\<rparr>)"
      using extends_writes [of ?t "?a + SZ_IORT" ?s2 "?a + SZ_IORT"] w by simp
    then have "extends st (?s2\<lparr>ac_current := ?a + SZ_IORT\<rparr>)"
      using writes_only_sel(3) [OF w] by (auto simp: extends_def same_roots_def)
    then show ?thesis using e by simp
  qed
  show ?thesis by (rule writer_ok_extends) (use x in simp_all)
qed

lemma acpi_inc_current: "acpi_inc n st = st\<lparr>ac_current := ac_current st + n\<rparr>"
  by (simp add: acpi_inc_def)

lemma gicc_writes: "writes_only g (g + 80) st (acpi_write_madt_gicc g c p b v h q r m e st)"
  unfolding acpi_write_madt_gicc_def
  by (intro writes_only_intros writes_only_refl) (simp_all add: SZ_GICC_def)

lemma gicd_writes: "writes_only g (g + 24) st (acpi_write_madt_gicd g i b v st)"
  unfolding acpi_write_madt_gicd_def
  by (intro writes_only_intros writes_only_refl) simp_all

lemma appends_refl [simp]: "appends 0 st st"
  by (simp add: appends_def)

lemma appends_trans: "appends n st s \<Longrightarrow> appends m s st' \<Longrightarrow> appends (n + m) st st'"
  by (auto simp: appends_def intro: extends_trans)

lemma appends_writes:
  assumes "writes_only (ac_current st) hi st s"
  shows "appends n st (s\<lparr>ac_current := ac_current st + n\<rparr>)"
  using writes_only_sel [OF assms] extends_writes [OF assms, of "ac_current st + n"] by (simp add: appends_def)

lemma madt_add_gicc_appends: "appends 80 st (madt_add_gicc i st)"
proof -
  let ?s = "acpi_write_madt_gicc (ac_current st) i 23 0 0 0 25 (TACHYON_GICR_BASE + i * TACHYON_GICR_STRIDE) (i * 2 ^ 8)
      (gic_efficiency ! i) st"
  have "get_field (ac_current st + 1) 1 ?s = 80"
    by (simp add: acpi_write_madt_gicc_def SZ_GICC_def get_field_set_disjoint get_field_set_same)
  then have "madt_add_gicc i st = ?s\<lparr>ac_current := ac_current st + 80\<rparr>"
    using writes_only_sel(2) [OF gicc_writes] by (simp add: madt_add_gicc_def Let_def acpi_inc_def)
  then show ?thesis using appends_writes [OF gicc_writes] by simp
qed

lemma madt_fold_appends: "appends (80 * length is) st (fold madt_add_gicc is st)"
proof (induction "is" arbitrary: st)
  case (Cons i "is")
  show ?case using appends_trans [OF madt_add_gicc_appends [of st i] Cons [of "madt_add_gicc i st"]] by simp
qed simp

lemma acpi_fill_madt_appends:
  "appends 664 st (snd (acpi_fill_madt madt st)) \<and> fst (acpi_fill_madt madt st) = ac_current st + 664"
proof -
  define s where "s = fold madt_add_gicc [0..<TACHYON_GIC_NUM_CPUS] st"
  let ?t = "acpi_write_madt_gicd (ac_current s) 0 TACHYON_GICD_BASE 3 s"
  have n: "80 * length [0..<TACHYON_GIC_NUM_CPUS] = 640" by (simp add: TACHYON_GIC_NUM_CPUS_def)
  have a: "appends 640 st s" using madt_fold_appends [of "[0..<TACHYON_GIC_NUM_CPUS]" st] unfolding s_def n .
  have "get_field (ac_current s + 1) 1 ?t = 24"
    by (simp add: acpi_write_madt_gicd_def get_field_set_disjoint get_field_set_same)
  then have e: "acpi_fill_madt madt st = (ac_current s + 24, ?t\<lparr>ac_current := ac_current s + 24\<rparr>)"
    using writes_only_sel(2) [OF gicd_writes] unfolding acpi_fill_madt_def s_def [symmetric] Let_def acpi_inc_def by simp
  have "appends 24 s (?t\<lparr>ac_current := ac_current s + 24\<rparr>)" by (rule appends_writes [OF gicd_writes])
  from appends_trans [OF a this] have "appends 664 st (snd (acpi_fill_madt madt st))" unfolding e by simp
  moreover have "ac_current s = ac_current st + 640" using a by (simp add: appends_def)
  ultimately show ?thesis using e by simp
qed

lemma madt_builds: "builds_table (acpi_write_madt acpi_fill_madt) (bytes_of_string ''APIC'') 708"
  unfolding builds_table_def
proof (intro allI impI)
  fix st :: acpi_st
  let ?a = "ac_current st"
  let ?s0 = "set_fields ?a [(4, 4, SZ_MADT), (8, 1, rev_byte ACPITAB_MADT)] (acpi_fill_header ?a ''APIC'' (c_memset0 ?a SZ_MADT st))"
  let ?s1 = "?s0\<lparr>ac_current := ?a + SZ_MADT\<rparr>"
  define s2 where "s2 = snd (acpi_fill_madt ?a ?s1)"
  have f: "appends 664 ?s1 s2" "fst (acpi_fill_madt ?a ?s1) = ?a + 708"
    using acpi_fill_madt_appends [of ?s1 ?a] by (simp_all add: s2_def SZ_MADT_def)
  let ?u = "set_field (?a + 4) 4 708 s2"
  have w: "writes_only ?a (?a + SZ_MADT) st ?s0"
    by (intro writes_only_intros writes_only_refl) (simp_all add: SZ_MADT_def)
  have m2: "ac_mem s2 x = ac_mem ?s0 x" if "x < ?a + SZ_MADT" for x
    using f(1) that by (simp add: appends_def extends_def)
  have sig: "mem_read ?a 4 (ac_mem s2) = mem_read ?a 4 (ac_mem ?s0)"
    by (rule mem_read_cong) (use m2 in \<open>simp add: SZ_MADT_def\<close>)
  have r: "same_roots st s2" using f(1) writes_only_sel(13) [OF w] by (auto simp: appends_def extends_def same_roots_def)
  have b: "table_built st ?u 708 (bytes_of_string ''APIC'')"
    unfolding table_built_def
  proof (intro conjI allI impI)
    show "same_roots st ?u" using r by (simp add: same_roots_def)
    show "ac_mem ?u x = ac_mem st x" if "x < ?a" for x
      using that m2 [of x] writes_only_mem [OF w, of x] by (simp add: mem_write_def)
    show "ac_mem ?u (?a + 9) = 0"
      using m2 [of "?a + 9"] by (simp add: SZ_MADT_def build_simps)
    show "get_field (?a + 4) 4 ?u = 708" by (simp add: get_field_set_same)
    show "mem_read ?a 4 (ac_mem ?u) = bytes_of_string ''APIC''"
      using sig by (simp add: SZ_MADT_def build_simps)
  qed simp
  have e: "acpi_write_madt acpi_fill_madt st =
      (0, (table_done st ?u)\<lparr>ac_current := ?a + get_field (?a + 4) 4 (table_done st ?u)\<rparr>)"
    using f(2) s2_def by (simp add: acpi_write_madt_def Let_def acpi_inc_def table_done_def SZ_MADT_def case_prod_beta)
  have "ac_tab_start ?u = ac_tab_start st" "ac_item_count ?u = ac_item_count st"
    using f(1) writes_only_sel [OF w] by (simp_all add: appends_def)
  then show "\<exists>s L c. table_built st s L (bytes_of_string ''APIC'') \<and> ac_tab_start s = ac_tab_start st \<and>
      ac_item_count s = ac_item_count st \<and> acpi_write_madt acpi_fill_madt st = (0, (table_done st s)\<lparr>ac_current := c\<rparr>) \<and>
      ?a \<le> c \<and> (get_field (?a + 4) 4 (table_done st s) = L \<longrightarrow> ?a + L \<le> c \<and> c \<le> ?a + 708)"
    by (intro exI [of _ ?u] exI [of _ 708] exI [of _ "?a + get_field (?a + 4) 4 (table_done st ?u)"] conjI impI b e) simp_all
qed

lemma length_words [simp]: "length (concat (map (le_bytes n) xs)) = n * length xs"
  by (induction xs) simp_all

lemma pptt_cache_appends: "appends 24 st (snd (acpi_pptt_add_cache f l z s a t n st))"
proof -
  let ?a = "ac_current st"
  let ?u = "set_fields ?a
            [(0, 1, 1), (1, 1, 24), (4, 4, f), (8, 4, l), (12, 4, z), (16, 4, s), (20, 1, a), (21, 1, t), (22, 2, n)] st"
  have w: "writes_only ?a (?a + 24) st ?u" by (intro writes_only_intros writes_only_refl) simp_all
  have "get_field (?a + 1) 1 ?u = 24" by (simp add: get_field_set_disjoint get_field_set_same)
  then have e: "snd (acpi_pptt_add_cache f l z s a t n st) = ?u\<lparr>ac_current := ?a + 24\<rparr>"
    using writes_only_sel(2) [OF w] by (simp add: acpi_pptt_add_cache_def Let_def acpi_inc_def)
  show ?thesis unfolding e by (rule appends_writes [OF w])
qed

lemma pptt_proc_appends:
  assumes "length rs \<le> 50"
  shows "appends (20 + 4 * length rs) st (snd (acpi_pptt_add_proc f p i rs st))"
proof -
  let ?a = "ac_current st" and ?n = "length rs"
  let ?u = "put_bytes (?a + 20) (concat (map (le_bytes 4) rs))
      (set_fields ?a [(0, 1, 0), (4, 4, f), (8, 4, p), (12, 4, i), (16, 4, ?n), (1, 1, 20 + 4 * ?n)] st)"
  have w: "writes_only ?a (?a + (20 + 4 * ?n)) st ?u" by (intro writes_only_intros writes_only_refl) simp_all
  have "20 + 4 * ?n < 256" using assms by simp
  then have "get_field (?a + 1) 1 ?u = 20 + 4 * ?n"
    by (simp add: get_field_put_disjoint get_field_set_disjoint get_field_set_same)
  then have e: "snd (acpi_pptt_add_proc f p i rs st) = ?u\<lparr>ac_current := ?a + (20 + 4 * ?n)\<rparr>"
    using writes_only_sel(2) [OF w] by (simp add: acpi_pptt_add_proc_def Let_def acpi_inc_def)
  show ?thesis unfolding e by (rule appends_writes [OF w])
qed

lemma pptt_caches_appends:
  "appends (24 * n) st (snd (pptt_add_caches n f t st)) \<and> length (fst (pptt_add_caches n f t st)) = n"
proof (induction n arbitrary: st)
  case (Suc n)
  let ?s = "snd (acpi_pptt_add_cache f 0 0x8000 0x100 2 t 64 st)"
  have "appends (24 + 24 * n) st (snd (pptt_add_caches n f t ?s))"
    using appends_trans [OF pptt_cache_appends] Suc [of ?s] by blast
  then show ?case using Suc [of ?s] by (simp add: case_prod_beta)
qed simp

lemma pptt_cpus_appends: "appends (28 * length cs) st (pptt_add_cpus c i cs st)"
proof (induction cs arbitrary: st i)
  case (Cons x cs)
  obtain d j where x: "x = (d, j)" by (cases x)
  let ?s = "snd (acpi_pptt_add_proc 26 c i [d, j] st)"
  have "appends 28 st ?s" using pptt_proc_appends [of "[d, j]" st 26 c i] by simp
  from appends_trans [OF this Cons [of ?s "i + 1"]] show ?case by (simp add: x)
qed simp

lemma pptt_body_appends: "appends 680 st (tachyon_pptt_body st)"
proof -
  obtain l3 s1 where s1: "acpi_pptt_add_cache 0x7f 0 0x400000 0x800 16 11 64 st = (l3, s1)" by (metis surj_pair)
  obtain l2 s2 where s2: "acpi_pptt_add_cache 0x7f 0 0x80000 0x400 8 11 64 s1 = (l2, s2)" by (metis surj_pair)
  obtain c s3 where s3: "acpi_pptt_add_proc 17 0 0 [l2] s2 = (c, s3)" by (metis surj_pair)
  obtain ds s4 where s4: "pptt_add_caches 8 0x7f 3 s3 = (ds, s4)" by (metis surj_pair)
  obtain js s5 where s5: "pptt_add_caches 8 0x5f 5 s4 = (js, s5)" by (metis surj_pair)
  have a1: "appends 24 st s1" using pptt_cache_appends [of st] s1 by (metis snd_conv)
  have a2: "appends 24 s1 s2" using pptt_cache_appends [of s1] s2 by (metis snd_conv)
  have a3: "appends 24 s2 s3" using pptt_proc_appends [of "[l2]" s2 17 0 0] s3 by simp
  have a4: "appends 192 s3 s4" "length ds = 8" using pptt_caches_appends [of 8 s3 "0x7f" 3] s4 by simp_all
  have a5: "appends 192 s4 s5" "length js = 8" using pptt_caches_appends [of 8 s4 "0x5f" 5] s5 by simp_all
  have a6: "appends 224 s5 (pptt_add_cpus c 0 (zip ds js) s5)"
    using pptt_cpus_appends [of "zip ds js" s5 c 0] a4 a5 by simp
  have "tachyon_pptt_body st = pptt_add_cpus c 0 (zip ds js) s5"
    unfolding tachyon_pptt_body_def s1 s2 s3 s4 s5 prod.case by simp
  then show ?thesis
    using appends_trans [OF a1 appends_trans [OF a2 appends_trans [OF a3 appends_trans [OF a4(1) appends_trans [OF a5(1) a6]]]]] by simp
qed

lemma pptt_builds: "builds_table tachyon_write_pptt (bytes_of_string ''PPTT'') 716"
  unfolding builds_table_def
proof (intro allI impI)
  fix st :: acpi_st
  assume t: "ac_tab_start st = ac_current st"
  let ?a = "ac_current st"
  let ?h = "set_field (?a + 8) 1 (rev_byte ACPITAB_PPTT) (acpi_fill_header ?a ''PPTT'' (c_memset0 ?a 36 st))"
  have w: "writes_only ?a (?a + 36) st ?h" by (intro writes_only_intros writes_only_refl) simp_all
  have tab: "st\<lparr>ac_tab_start := ?a\<rparr> = st" using t by (rule tab_start_idem)
  let ?s1 = "?h\<lparr>ac_tab_start := ?a, ac_current := ?a + 36\<rparr>"
  have tab1: "?s1 = ?h\<lparr>ac_current := ?a + 36\<rparr>"
    using t writes_only_sel(3) [OF w] by (simp add: tab_start_idem)
  define s2 where "s2 = tachyon_pptt_body ?s1"
  have f: "appends 680 ?s1 s2" unfolding s2_def by (rule pptt_body_appends)
  then have f': "ac_current s2 = ?a + 716" "ac_tab_start s2 = ?a" "extends ?s1 s2" by (simp_all add: appends_def)
  let ?u = "set_field (?a + 4) 4 716 s2"
  have b: "table_built st ?u 716 (bytes_of_string ''PPTT'')"
    by (rule appended_table_built [OF w f'(3)]) (simp_all add: build_simps)
  have "(table_done st ?u)\<lparr>ac_current := ?a + 716\<rparr> = table_done st ?u" using f'(1) by (intro current_idem) simp
  moreover have "tachyon_write_pptt st = (0, table_done st ?u)"
    using f' s2_def tab1 by (simp add: tachyon_write_pptt_def Let_def tab acpi_inc_def table_done_def)
  ultimately have e: "tachyon_write_pptt st = (0, (table_done st ?u)\<lparr>ac_current := ?a + 716\<rparr>)" by simp
  have "ac_tab_start ?u = ac_tab_start st" "ac_item_count ?u = ac_item_count st"
    using t f' f writes_only_sel [OF w] by (simp_all add: appends_def)
  then show "\<exists>s L c. table_built st s L (bytes_of_string ''PPTT'') \<and> ac_tab_start s = ac_tab_start st \<and>
      ac_item_count s = ac_item_count st \<and> tachyon_write_pptt st = (0, (table_done st s)\<lparr>ac_current := c\<rparr>) \<and>
      ?a \<le> c \<and> (get_field (?a + 4) 4 (table_done st s) = L \<longrightarrow> ?a + L \<le> c \<and> c \<le> ?a + 716)"
    by (intro exI [of _ ?u] exI [of _ 716] exI [of _ "?a + 716"] conjI impI b e) simp_all
qed

lemma aml_find_step:
  "aml_find m name n lo hi =
     (if lo + 6 + n \<le> hi then (if aml_name_at m name lo then Some lo else aml_find m name n (lo + 1) hi) else None)"
proof (cases "lo < hi")
  case True
  then have u: "[lo..<hi] = lo # [lo + 1..<hi]" by (simp add: upt_conv_Cons)
  show ?thesis
  proof (cases "lo + 6 + n \<le> hi")
    case False
    then have "find (\<lambda>q. q + 6 + n \<le> hi \<and> aml_name_at m name q) [lo..<hi] = None"
      by (auto simp: find_None_iff)
    then show ?thesis using False by (simp add: aml_find_def)
  qed (simp add: aml_find_def u)
qed (simp add: aml_find_def)

lemma patch_name_scan_spec: "patch_name_scan name data ptr e st = patch_spec name data ptr e st"
proof (induction name data ptr e st rule: patch_name_scan.induct)
  case (1 name data ptr e st)
  show ?case
  proof (cases "ptr + 6 + length data \<le> e")
    case False
    then have "aml_find (ac_mem st) name (length data) ptr e = None" by (subst aml_find_step) simp
    then show ?thesis using False by (subst patch_name_scan.simps) (simp add: patch_spec_def)
  next
    case fits: True
    show ?thesis
    proof (cases "aml_name_at (ac_mem st) name ptr")
      case False
      have "patch_name_scan name data ptr e st = patch_name_scan name data (ptr + 1) e st"
        using fits False by (subst patch_name_scan.simps) (simp add: aml_name_at_def)
      moreover have "patch_name_scan name data (ptr + 1) e st = patch_spec name data (ptr + 1) e st"
        using 1 fits False by (simp add: aml_name_at_def)
      moreover have "aml_find (ac_mem st) name (length data) ptr e = aml_find (ac_mem st) name (length data) (ptr + 1) e"
        using fits False by (subst aml_find_step) simp
      ultimately show ?thesis by (simp add: patch_spec_def)
    next
      case True
      then have "aml_find (ac_mem st) name (length data) ptr e = Some ptr" using fits by (subst aml_find_step) simp
      then show ?thesis using True fits
        by (subst patch_name_scan.simps) (auto simp: patch_spec_def aml_name_at_def split: option.split)
    qed
  qed
qed

lemma aml_find_SomeD:
  assumes "aml_find m name n lo hi = Some q"
  shows "lo \<le> q" "q + 6 + n \<le> hi" "aml_name_at m name q"
proof -
  obtain i where "i < length [lo..<hi]" "q = [lo..<hi] ! i" "q + 6 + n \<le> hi" "aml_name_at m name q"
    using assms unfolding aml_find_def find_Some_iff by blast
  then show "lo \<le> q" "q + 6 + n \<le> hi" "aml_name_at m name q" by simp_all
qed

lemma aml_object_start: "aml_object m obj e = Some (o', l) \<Longrightarrow> o' = obj + 1"
  by (auto simp: aml_object_def split: if_splits)

lemma patch_spec_cases:
  assumes "patch_spec name data lo hi st = (r, st')"
  obtains (missing) "aml_find (ac_mem st) name (length data) lo hi = None" "r = - ENOENT" "st' = st"
  | (invalid) "r = - EINVAL" "st' = st"
  | (patched) q where "aml_find (ac_mem st) name (length data) lo hi = Some q" "r = 0" "st' = put_bytes (q + 6) data st"
proof (cases "aml_find (ac_mem st) name (length data) lo hi")
  case None
  then have "r = - ENOENT" "st' = st" using assms by (simp_all add: patch_spec_def)
  then show ?thesis by (rule missing [OF None])
next
  case q: (Some q)
  have bad: "patch_spec name data lo hi st = (- EINVAL, st) \<Longrightarrow> thesis" using assms by (intro invalid) simp_all
  show ?thesis
  proof (cases "aml_object (ac_mem st) (q + 5) hi")
    case None
    then show ?thesis by (intro bad) (simp add: patch_spec_def q)
  next
    case (Some p)
    obtain ob l where p: "p = (ob, l)" by (cases p)
    have ob: "ob = q + 6" using aml_object_start [of "ac_mem st" "q + 5" hi ob l] Some p by simp
    show ?thesis
    proof (cases "ob + l \<le> hi \<and> l = length data")
      case True
      then have "patch_spec name data lo hi st = (0, put_bytes (q + 6) data st)" by (simp add: patch_spec_def q Some p ob)
      then show ?thesis using assms by (intro patched [OF q]) simp_all
    next
      case False
      then show ?thesis by (intro bad) (auto simp add: patch_spec_def q Some p)
    qed
  qed
qed

lemma patch_value_name: "patch_value dsdt (name, w, v) st =
    tachyon_acpi_patch_name dsdt name (le_bytes (if w = 2 then 2 else if w = 4 then 4 else 8) v) st"
  by (simp add: patch_value_def tachyon_acpi_patch_u16_def tachyon_acpi_patch_u32_def tachyon_acpi_patch_u64_def)

lemma patch_name_writes: "\<exists>hi. writes_only (dsdt + 36) hi st (snd (tachyon_acpi_patch_name dsdt name data st))"
proof -
  obtain r s where s: "patch_spec (take 4 (bytes_of_string name)) data (dsdt + 36) (dsdt + get_field (dsdt + 4) 4 st) st = (r, s)"
    by (metis surj_pair)
  then have e: "snd (tachyon_acpi_patch_name dsdt name data st) = s"
    by (simp add: tachyon_acpi_patch_name_def patch_name_scan_spec)
  from s have "\<exists>hi. writes_only (dsdt + 36) hi st s"
  proof (cases rule: patch_spec_cases)
    case (patched q)
    have "writes_only (dsdt + 36) (q + 6 + length data) st s"
      using aml_find_SomeD(1) [OF patched(1)] unfolding patched(3) by (intro writes_only_put writes_only_refl) simp_all
    then show ?thesis ..
  qed simp_all
  then show ?thesis unfolding e .
qed

lemma patch_all_writes: "\<exists>hi. writes_only (dsdt + 36) hi st (snd (patch_all dsdt ps ret st))"
proof (induction ps arbitrary: ret st)
  case (Cons p ps)
  obtain r s where s: "patch_value dsdt p st = (r, s)" by (metis surj_pair)
  obtain name w v where p: "p = (name, w, v)" by (cases p)
  obtain h1 where "writes_only (dsdt + 36) h1 st (snd (patch_value dsdt p st))"
    using patch_name_writes unfolding p patch_value_name by blast
  then have h1: "writes_only (dsdt + 36) h1 st s" using s by simp
  obtain h2 where "writes_only (dsdt + 36) h2 s (snd (patch_all dsdt ps (ret OR r) s))" using Cons by blast
  then have "writes_only (dsdt + 36) (max h1 h2) st (snd (patch_all dsdt ps (ret OR r) s))"
    by (rule writes_only_trans [OF h1]) simp_all
  then show ?case using s by (intro exI [of _ "max h1 h2"]) simp
qed simp

lemma acpi_patch_dsdt_ok: "patch_ok (acpi_patch_dsdt tin)"
  unfolding patch_ok_def acpi_patch_dsdt_def using patch_all_writes by blast

lemma dbg2_ok:
  "writer_ok (tachyon_write_dbg2 tin) (if tin_win_serial tin \<noteq> 0 then {[bytes_of_string ''DBG2'']} else {[]})"
proof (cases "tin_win_serial tin = 0")
  case True
  then have "tachyon_write_dbg2 tin = (\<lambda>st. (0, st))" by (simp add: tachyon_write_dbg2_def fun_eq_iff)
  then show ?thesis using True by (simp add: writer_ok_skip)
qed (simp add: builds_table_ok [OF dbg2_builds])

lemma spcr_ok:
  "writer_ok (acpi_write_spcr tin) (if tin_win_serial tin \<noteq> 0 then {[bytes_of_string ''SPCR'']} else {[]})"
proof (cases "tin_win_serial tin = 0")
  case True
  then have "acpi_write_spcr tin = (\<lambda>st. (0, st))" by (simp add: acpi_write_spcr_def fun_eq_iff)
  then show ?thesis using True by (simp add: writer_ok_skip)
qed (simp add: builds_table_ok [OF spcr_builds])

lemma tpm2_ok: "writer_ok (tachyon_write_tpm2 tin) (if tin_tpm_v2 tin then {[bytes_of_string ''TPM2'']} else {[]})"
proof (cases "tin_tpm_v2 tin")
  case False
  then have "writer_ok (tachyon_write_tpm2 tin) {[]}"
    by (intro writer_ok_extends) (simp_all add: tachyon_write_tpm2_def)
  then show ?thesis using False by simp
qed (simp add: builds_table_ok [OF tpm2_builds])

lemmas tachyon_writers_ok = facs_ok dsdt_ok [OF _ acpi_patch_dsdt_ok] csrt_ok dbg2_ok
  builds_table_ok [OF fadt_builds singletonI] builds_table_ok [OF gtdt_builds singletonI] iort_ok
  builds_table_ok [OF madt_builds singletonI] mcfg_ok builds_table_ok [OF pptt_builds singletonI]
  spcr_ok tpm2_ok ssdt_ok dev_tables_ok

text \<open>The board's tables over the devices of a driver model that keeps its contract.\<close>

locale tachyon_acpi =
  fixes dm :: acpi_dm and aml :: mem and tin :: tachyon_in
  assumes dm: "acpi_dm_ok dm"

sublocale tachyon_acpi \<subseteq> acpi_writers "tachyon_writers dm aml tin" "tachyon_sigs tin"
  by unfold_locales
    (use dm tachyon_writers_ok in \<open>simp add: tachyon_writers_def tachyon_sigs_def Let_def\<close>)

lemma tachyon_sig_seqs:
  "sigs \<in> sig_seqs (tachyon_sigs tin) \<Longrightarrow> \<exists>rest. sigs = map bytes_of_string (tachyon_tables tin) @ rest"
  by (auto simp: tachyon_sigs_def tachyon_tables_def Let_def)

lemma bare_dm_ok: "acpi_dm_ok bare_dm"
  by (simp add: acpi_dm_ok_def bare_dm_def device_ok_def)

interpretation bare: tachyon_acpi bare_dm aml tin for aml tin
  by unfold_locales (rule bare_dm_ok)

lemma find_map: "find P (map f xs) = map_option f (find (\<lambda>x. P (f x)) xs)"
  by (induction xs) simp_all

lemma upt_shift: "[d + lo..<d + hi] = map ((+) d) [lo..<hi]"
  by (induction hi) auto

lemma image_read: "image_at d hi m' m \<Longrightarrow> a + n \<le> hi \<Longrightarrow> mem_read (d + a) n m' = mem_read a n m"
  by (auto simp: mem_read_def image_at_def upt_shift add.assoc)

lemma image_name_at:
  "image_at d hi m' m \<Longrightarrow> q + 5 \<le> hi \<Longrightarrow> aml_name_at m' name (d + q) = aml_name_at m name q"
  using image_read [of d hi m' m "q + 1" 4] by (simp add: aml_name_at_def image_at_def add.assoc)

lemma image_find: "image_at d hi m' m \<Longrightarrow> aml_find m' name n (d + lo) (d + hi) = map_option ((+) d) (aml_find m name n lo hi)"
  unfolding aml_find_def upt_shift find_map
  by (rule arg_cong [where f = "map_option _"], rule find_cong) (auto simp: image_name_at)

lemma image_object:
  assumes "image_at d hi m' m" "ob < hi"
  shows "aml_object m' (d + ob) (d + hi) = map_option (\<lambda>(a, l). (d + a, l)) (aml_object m ob hi)"
proof -
  have "m' (d + ob) = m ob" using assms by (simp add: image_at_def)
  moreover have "mem_read (d + ob + 1) (d + hi - (d + ob + 1)) m' = mem_read (ob + 1) (hi - (ob + 1)) m"
    using image_read [OF assms(1), of "ob + 1" "hi - (ob + 1)"] assms(2) by (simp add: add.assoc)
  ultimately show ?thesis by (simp add: aml_object_def)
qed

lemma image_write: "image_at d hi m' m \<Longrightarrow> image_at d hi (mem_write (d + a) bs m') (mem_write a bs m)"
  by (auto simp: image_at_def mem_write_def)

lemma aml_length_write: "8 \<le> a \<Longrightarrow> aml_length (mem_write a bs m) = aml_length m"
  by (simp add: aml_length_def mem_read_write_disjoint)

lemma image_length: "image_at d hi m' m \<Longrightarrow> 8 \<le> hi \<Longrightarrow> le_nat (mem_read (d + 4) 4 m') = aml_length m"
  by (simp add: aml_length_def image_read)

text \<open>Patching the image at \<open>d\<close> is patching the image.\<close>

lemma patch_image:
  assumes im: "image_at d hi (ac_mem st) m" and hi: "aml_length m = hi" "36 \<le> hi"
  shows "\<exists>r m'. patch_mem [p] 0 m = (r, m') \<and> aml_length m' = hi \<and>
    fst (patch_value d p st) = r \<and> image_at d hi (ac_mem (snd (patch_value d p st))) m'"
proof -
  obtain name w v where p: "p = (name, w, v)" by (cases p)
  define data where "data = le_bytes (if w = 2 then 2 else if w = 4 then 4 else 8) v"
  let ?n = "take 4 (bytes_of_string name)"
  have L: "get_field (d + 4) 4 st = hi" using image_length [OF im] hi by (simp add: get_field_def)
  have e: "patch_value d p st = patch_spec ?n data (d + 36) (d + hi) st"
    unfolding p patch_value_name tachyon_acpi_patch_name_def patch_name_scan_spec L data_def ..
  have e': "patch_mem [p] 0 m = (case aml_find m ?n (length data) 36 hi of None \<Rightarrow> (- ENOENT, m) | Some q \<Rightarrow>
      (case aml_object m (q + 5) hi of None \<Rightarrow> (- EINVAL, m) | Some (obj, l) \<Rightarrow>
         if obj + l \<le> hi \<and> l = length data then (0, mem_write obj data m) else (- EINVAL, m)))"
    unfolding p data_def by (simp add: hi Let_def split: option.split)
  note f = image_find [OF im, of ?n "length data" 36]
  show ?thesis
  proof (cases "aml_find m ?n (length data) 36 hi")
    case None
    then show ?thesis using f im hi by (simp add: e e' patch_spec_def)
  next
    case q: (Some q)
    have b: "36 \<le> q" "q + 5 < hi" using aml_find_SomeD [OF q] by simp_all
    have ob: "aml_object (ac_mem st) (d + q + 5) (d + hi) = map_option (\<lambda>(a, l). (d + a, l)) (aml_object m (q + 5) hi)"
      using image_object [OF im b(2)] by (simp add: add.assoc)
    show ?thesis
    proof (cases "aml_object m (q + 5) hi")
      case None
      then show ?thesis using f im hi q ob by (simp add: e e' patch_spec_def)
    next
      case (Some x)
      obtain a l where x: "x = (a, l)" by (cases x)
      have "8 \<le> a" using aml_object_start [of m "q + 5" hi a l] Some x b(1) by simp
      then show ?thesis using f im hi q ob Some x image_write [OF im, of a data] aml_length_write [of a data m]
        by (simp add: e e' patch_spec_def put_bytes_def add.assoc)
    qed
  qed
qed

lemma patch_mem_Cons: "patch_mem (p # ps) ret m = (case patch_mem [p] 0 m of (r, m') \<Rightarrow> patch_mem ps (ret OR r) m')"
  by (cases p) (simp add: Let_def split: option.split prod.split)

lemma patch_all_image:
  assumes "image_at d hi (ac_mem st) m" "aml_length m = hi" "36 \<le> hi"
  shows "fst (patch_all d ps ret st) = fst (patch_mem ps ret m) \<and>
    image_at d hi (ac_mem (snd (patch_all d ps ret st))) (snd (patch_mem ps ret m))"
  using assms
proof (induction ps arbitrary: ret st m)
  case (Cons p ps)
  obtain r m' where k: "patch_mem [p] 0 m = (r, m')" "aml_length m' = hi" "fst (patch_value d p st) = r"
      "image_at d hi (ac_mem (snd (patch_value d p st))) m'"
    using patch_image [OF Cons.prems] by blast
  have v: "patch_value d p st = (r, snd (patch_value d p st))" using k(3) by (metis prod.collapse)
  have "patch_mem (p # ps) ret m = patch_mem ps (ret OR r) m'" by (subst patch_mem_Cons) (simp add: k(1))
  moreover have "patch_all d (p # ps) ret st = patch_all d ps (ret OR r) (snd (patch_value d p st))"
    by (subst patch_all.simps, subst v) simp
  ultimately show ?case
    using Cons.IH [OF k(4,2) Cons.prems(3)] by simp
qed simp

lemma le_bytes_le_nat: "le_bytes (length bs) (le_nat bs) = bs"
proof (induction bs)
  case (Cons b bs)
  have "unat b < 256" using unsigned_less [of b] by simp
  then have "(unat b + 256 * le_nat bs) mod 256 = unat b" "(unat b + 256 * le_nat bs) div 256 = le_nat bs" by simp_all
  then show ?case using Cons by simp
qed simp

lemma bare_recurse [simp]: "acpi_recurse_method (dm_root bare_dm) meth ty st = (0, st)"
  by (simp add: bare_dm_def acpi_run_method_def)

lemma bare_inject [simp]: "acpi_inject_dsdt bare_dm st = (0, st)"
  by (simp add: acpi_inject_dsdt_def) (simp add: bare_dm_def sort_acpi_item_type_def)

lemma bare_fill_ssdt [simp]: "acpi_fill_ssdt bare_dm st = (0, st)"
  by (simp add: acpi_fill_ssdt_def) (simp add: bare_dm_def sort_acpi_item_type_def)

text \<open>Copying the AML image of \<open>L\<close> bytes.\<close>

lemma image_of_copy:
  assumes "36 \<le> L" "aml_length aml = L"
  shows "image_at a L (mem_write (a + 4) (le_bytes 4 L) (mem_write (a + 36) (mem_read 36 (L - 36) aml) (mem_write a (mem_read 0 36 aml) m))) aml"
proof -
  have "le_bytes 4 L = mem_read 4 4 aml" using le_bytes_le_nat [of "mem_read 4 4 aml"] assms by (simp add: aml_length_def)
  then show ?thesis using assms by (auto simp: image_at_def mem_write_def mem_read_nth)
qed

lemma mem_write_Nil [simp]: "mem_write a [] m = m"
  by (auto simp add: mem_write_def fun_eq_iff)

lemma dsdt_bare_eq:
  assumes L: "aml_length aml = L" "36 \<le> L" "L < 2 ^ 31"
  obtains s where "acpi_write_dsdt bare_dm aml patch st =
      (case patch (ac_current st) s of (ret, q) \<Rightarrow>
       if ret \<noteq> 0 then (ret, q) else (0, set_checksum (ac_current st) (set_field (ac_current st + 9) 1 0 q)))"
    "image_at (ac_current st) L (ac_mem s) aml" "ac_current s = ac_current st + L" "ac_dsdt s = ac_current st"
    "ac_tab_start s = ac_tab_start st" "ac_item_count s = ac_item_count st" "ac_facs s = ac_facs st"
proof -
  let ?a = "ac_current st"
  let ?m = "mem_write (?a + 36) (mem_read 36 (L - 36) aml) (mem_write ?a (mem_read 0 36 aml) (ac_mem st))"
  let ?s0 = "acpi_inc 36 (put_bytes ?a (mem_read 0 36 aml) st)"
  let ?u = "st\<lparr>ac_current := ?a + L, ac_dsdt := ?a, ac_mem := mem_write (?a + 4) (le_bytes 4 L) ?m\<rparr>"
  have "mem_read (?a + 4) 4 (ac_mem ?s0) = mem_read 4 4 aml"
    by (rule nth_equalityI) (auto simp: mem_read_nth acpi_inc_def put_bytes_def mem_write_def)
  then have f: "get_field (?a + 4) 4 ?s0 = L" using L(1) by (simp add: get_field_def aml_length_def)
  have i: "to_int (int L - 36) = int (L - 36)" using L(2,3) by (simp add: to_int_def of_nat_diff)
  let ?c = "if to_int (int L - 36) \<noteq> 0 then acpi_copy_aml bare_dm aml (nat (to_int (int L - 36))) ?s0 else (0, ?s0)"
  have n: "nat (to_int (int L - 36)) = L - 36" "to_int (int L - 36) = 0 \<longleftrightarrow> L = 36" using i L(2) by simp_all
  have c: "?c = (0, st\<lparr>ac_current := ?a + L, ac_mem := ?m\<rparr>)"
    unfolding n using L(2) by (simp add: acpi_copy_aml_def acpi_inc_def put_bytes_def mem_read_def)
  have "acpi_write_dsdt bare_dm aml patch st =
      (case patch ?a ?u of (ret, q) \<Rightarrow>
       if ret \<noteq> 0 then (ret, q) else (0, set_checksum ?a (set_field (?a + 9) 1 0 q)))"
    unfolding acpi_write_dsdt_def Let_def f c by (simp add: set_field_def put_bytes_def)
  then show ?thesis using image_of_copy [OF L(2,1), of ?a] by (intro that [of ?u]) simp_all
qed

text \<open>The DSDT writer without devices: the outcome is that of patching the image.\<close>

lemma dsdt_bare:
  assumes L: "aml_length aml = L" "36 \<le> L" "L < 2 ^ 31"
    and w: "acpi_write_dsdt bare_dm aml (acpi_patch_dsdt tin) st = (r, st')"
  shows "r = fst (patch_mem (dsdt_patches tin) 0 aml)" "ac_current st' = ac_current st + L" "ac_dsdt st' = ac_current st"
    "ac_tab_start st' = ac_tab_start st" "ac_item_count st' = ac_item_count st" "ac_facs st' = ac_facs st"
proof -
  obtain s where s: "acpi_write_dsdt bare_dm aml (acpi_patch_dsdt tin) st =
      (case acpi_patch_dsdt tin (ac_current st) s of (ret, q) \<Rightarrow>
       if ret \<noteq> 0 then (ret, q) else (0, set_checksum (ac_current st) (set_field (ac_current st + 9) 1 0 q)))"
    "image_at (ac_current st) L (ac_mem s) aml" "ac_current s = ac_current st + L" "ac_dsdt s = ac_current st"
    "ac_tab_start s = ac_tab_start st" "ac_item_count s = ac_item_count st" "ac_facs s = ac_facs st"
    by (rule dsdt_bare_eq [OF L])
  obtain r' q where q: "acpi_patch_dsdt tin (ac_current st) s = (r', q)" by (metis surj_pair)
  have "r' = fst (patch_mem (dsdt_patches tin) 0 aml)"
    using patch_all_image [OF s(2) L(1,2), of "dsdt_patches tin" 0] q by (simp add: acpi_patch_dsdt_def)
  moreover obtain hi where "writes_only (ac_current st + 36) hi s q"
    using acpi_patch_dsdt_ok [of tin] q unfolding patch_ok_def by (metis snd_conv)
  note p = writes_only_sel [OF this]
  moreover have "r = r' \<and> (st' = q \<or> st' = set_checksum (ac_current st) (set_field (ac_current st + 9) 1 0 q))"
    using s(1) q w by (auto split: if_splits)
  ultimately show "r = fst (patch_mem (dsdt_patches tin) 0 aml)" "ac_current st' = ac_current st + L" "ac_dsdt st' = ac_current st"
    "ac_tab_start st' = ac_tab_start st" "ac_item_count st' = ac_item_count st" "ac_facs st' = ac_facs st"
    using s(3-) by auto
qed

end
