(* ===== verification/Acpi_Board.thy ===== *)
theory Acpi_Board
  imports Acpi_Tachyon
begin

text \<open>
  The ACPI tables of the board as a whole: that the generation succeeds and what the reader of lib/acpi/acpi.c finds afterwards.

  The generation is followed over a device tree without ACPI methods. The outcome of patching the DSDT
  does not depend on the address of the image (\<open>patch_all_image\<close>), so it is a function of the image alone; the lengths of the
  tables bound what the writers use, and the DSDT is traced from its writer through the FADT to the reader.
\<close>

section \<open>Bounds, images and examples\<close>

text \<open>What each writer uses at most when there are no devices.\<close>

definition tachyon_bounds :: "nat \<Rightarrow> nat list" where
  "tachyon_bounds L = [64, L, 0, 107, 276, 164, 0, 708, 0, 716, 80, 84, 0, 0]"

definition TACHYON_AML_MAX :: nat where
  "TACHYON_AML_MAX = 250000"

text \<open>An image given by its bytes, and patching it on the list: all names found with integer objects of the right size.\<close>

definition mem_of :: "buf \<Rightarrow> mem" where
  "mem_of bs = (\<lambda>i. if i < length bs then bs ! i else 0)"

fun aml_index :: "buf \<Rightarrow> nat \<Rightarrow> buf \<Rightarrow> nat option" where
  "aml_index name n [] = None"
| "aml_index name n (b # bs) =
     (if drop (4 + n) bs = [] then None
      else if b = AML_NAME_OP \<and> take 4 bs = name then Some 0
      else map_option Suc (aml_index name n bs))"

definition aml_prefix :: "nat \<Rightarrow> byte" where
  "aml_prefix n = (if n = 2 then AML_WORD_PREFIX else if n = 4 then AML_DWORD_PREFIX else AML_QWORD_PREFIX)"

fun patch_buf :: "(string \<times> nat \<times> nat) list \<Rightarrow> buf \<Rightarrow> buf option" where
  "patch_buf [] body = Some body"
| "patch_buf ((name, w, v) # ps) body =
     (let n = (if w = 2 then 2 else if w = 4 then 4 else 8) in
      case aml_index (take 4 (bytes_of_string name)) n body of
        None \<Rightarrow> None
      | Some q \<Rightarrow>
          if body ! (q + 5) = aml_prefix n
          then patch_buf ps (take (q + 6) body @ le_bytes n v @ drop (q + 6 + n) body)
          else None)"

text \<open>
  A body that consists of named integer objects with distinct names and in which the name operator
  occurs only in front of the names.
\<close>

type_synonym aml_obj = "buf \<times> nat \<times> buf"

fun obj_bytes :: "aml_obj \<Rightarrow> buf" where
  "obj_bytes (nm, w, d) = AML_NAME_OP # nm @ aml_prefix w # d"

fun obj_ok :: "aml_obj \<Rightarrow> bool" where
  "obj_ok (nm, w, d) \<longleftrightarrow>
     length nm = 4 \<and> (w = 2 \<or> w = 4 \<or> w = 8) \<and> length d = w \<and> AML_NAME_OP \<notin> set nm \<and> AML_NAME_OP \<notin> set d"

definition set_obj :: "buf \<Rightarrow> buf \<Rightarrow> aml_obj \<Rightarrow> aml_obj" where
  "set_obj name data = (\<lambda>(nm, w, d). (nm, w, if nm = name then data else d))"

definition obj_body :: "aml_obj list \<Rightarrow> buf" where
  "obj_body objs = concat (map obj_bytes objs)"

definition patches_ok :: "aml_obj list \<Rightarrow> (string \<times> nat \<times> nat) list \<Rightarrow> bool" where
  "patches_ok objs ps \<longleftrightarrow>
     list_all obj_ok objs \<and> distinct (map fst objs) \<and>
     list_all (\<lambda>(name, w, v). (w = 2 \<or> w = 4 \<or> w = 8) \<and> length name = 4 \<and> AML_NAME_OP \<notin> set (le_bytes w v) \<and>
       (bytes_of_string name, w) \<in> set (map (\<lambda>(nm, w, d). (nm, w)) objs)) ps"

text \<open>An example: no shared-memory table, and an image with the 26 objects.\<close>

definition tachyon_ex_in :: tachyon_in where
  "tachyon_ex_in = \<lparr>tin_smem = (0, None), tin_socinfo = 0, tin_qfprom_row0 = 0, tin_emulation_reg = 0, tin_win_serial = 0, tin_tpm_v2 = False\<rparr>"

definition aml_ex_objs :: "aml_obj list" where
  "aml_ex_objs = map (\<lambda>(name, w, v). (bytes_of_string name, w, replicate w 255)) (dsdt_patches tachyon_ex_in)"

definition aml_ex_hdr :: buf where
  "aml_ex_hdr = bytes_of_string ''DSDT'' @ le_bytes 4 (36 + length (obj_body aml_ex_objs)) @ replicate 28 0"

definition aml_ex :: mem where
  "aml_ex = mem_of (aml_ex_hdr @ obj_body aml_ex_objs)"

text \<open>A context to start from, with room on the heap, and an image without any object.\<close>

definition acpi_ex_st :: acpi_st where
  "acpi_ex_st = \<lparr>ac_base = 0, ac_current = 0, ac_tab_start = 0, ac_rsdp = 0, ac_rsdt = 0, ac_xsdt = 0, ac_facs = 0, ac_dsdt = 0,
     ac_mem = (\<lambda>_. 0),
     ac_item = replicate MAX_ACPI_ITEMS \<lparr>it_dev = None, it_writer = None, it_type = TYPE_NONE, it_base = 0, it_buf = None, it_size = 0\<rparr>, ac_item_count = 0, ac_heap = heap_ok, ac_start = 0, ac_version_num = 0, ac_version_num_patch = 0\<rparr>"

definition aml_empty :: mem where
  "aml_empty = mem_of (bytes_of_string ''DSDT'' @ le_bytes 4 36 @ replicate 28 0)"

section \<open>Lemmas\<close>

lemma facs_bound: "writer_bound acpi_write_facs 64"
  by (simp add: writer_bound_def acpi_write_facs_def Let_def acpi_inc_def)

lemma csrt_bound: "writer_bound (acpi_write_csrt acpi_fill_csrt) 0"
  unfolding writer_bound_def
  by (simp add: acpi_write_csrt_def acpi_fill_csrt_def Let_def acpi_inc_def get_field_set_checksum get_field_set_same)

lemma mcfg_bound: "writer_bound (acpi_write_mcfg acpi_fill_mcfg) 0"
  unfolding writer_bound_def
  by (simp add: acpi_write_mcfg_def acpi_fill_mcfg_def Let_def acpi_inc_def get_field_set_checksum get_field_set_same)

lemma iort_bound: "writer_bound (acpi_write_iort acpi_fill_iort) 0"
  unfolding writer_bound_def
  by (simp add: acpi_write_iort_def acpi_fill_iort_def Let_def acpi_inc_def get_field_set_checksum get_field_set_same SZ_IORT_def)

lemma dbg2_bound: "writer_bound (tachyon_write_dbg2 tin) 107"
proof (cases "tin_win_serial tin = 0")
  case True
  then show ?thesis by (simp add: writer_bound_def tachyon_write_dbg2_def)
qed (simp add: builds_table_bound [OF dbg2_builds])

lemma spcr_bound: "writer_bound (acpi_write_spcr tin) 80"
proof (cases "tin_win_serial tin = 0")
  case True
  then show ?thesis by (simp add: writer_bound_def acpi_write_spcr_def)
qed (simp add: builds_table_bound [OF spcr_builds])

lemma tpm2_bound: "writer_bound (tachyon_write_tpm2 tin) 84"
proof (cases "tin_tpm_v2 tin")
  case False
  then show ?thesis by (simp add: writer_bound_def tachyon_write_tpm2_def)
qed (simp add: builds_table_bound [OF tpm2_builds])

lemma ssdt_bound: "writer_bound (acpi_write_ssdt bare_dm) 0"
  unfolding writer_bound_def
  by (simp add: acpi_write_ssdt_def Let_def acpi_inc_def get_field_set_checksum get_field_set_same)

lemma dev_bound: "writer_bound (write_dev_tables bare_dm) 0"
  by (simp add: writer_bound_def write_dev_tables_def acpi_write_dev_tables_def)

lemma patch_mem_one: "fst (patch_mem [p] 0 m) \<in> {0, - ENOENT, - EINVAL}"
  by (cases p) (simp add: Let_def split: option.split)

lemma patch_mem_result: "fst (patch_mem ps ret m) \<in> {0, - ENOENT, - EINVAL}" if "ret \<in> {0, - ENOENT, - EINVAL}"
  using that
proof (induction ps arbitrary: ret m)
  case (Cons p ps)
  obtain r m' where r: "patch_mem [p] 0 m = (r, m')" by (metis surj_pair)
  have "ret OR r \<in> {0, - ENOENT, - EINVAL}" using Cons.prems patch_mem_one [of p m] unfolding r by auto
  then show ?case using Cons.IH by (subst patch_mem_Cons) (simp add: r)
qed simp

lemma dsdt_bound:
  assumes L: "aml_length aml = L" "36 \<le> L" "L < 2 ^ 31" and r: "fst (patch_mem (dsdt_patches tin) 0 aml) \<noteq> - EINVAL"
  shows "writer_bound (acpi_write_dsdt bare_dm aml (acpi_patch_dsdt tin)) L"
  unfolding writer_bound_def
proof (intro allI impI)
  fix st tabs
  assume st: "acpi_wf st (ac_current st) tabs \<and> ac_tab_start st = ac_current st"
  obtain r' s where s: "acpi_write_dsdt bare_dm aml (acpi_patch_dsdt tin) st = (r', s)" by (metis surj_pair)
  show "case acpi_write_dsdt bare_dm aml (acpi_patch_dsdt tin) st of (r, st') \<Rightarrow> ac_item_count st' = ac_item_count st \<and>
      (r = 0 \<and> ac_current st' \<le> ac_current st + L \<or> r = - ENOENT \<and> ac_tab_start st' \<le> ac_current st + L)"
    unfolding s using dsdt_bare [OF L s] r patch_mem_result [of 0 "dsdt_patches tin" aml] st by auto
qed

text \<open>The board's tables without devices, for an image that fits and that the patches do not reject.\<close>

locale tachyon_acpi_bare =
  fixes aml :: mem and tin :: tachyon_in
  assumes image: "36 \<le> aml_length aml" "aml_length aml \<le> TACHYON_AML_MAX"
    and patched: "fst (patch_mem (dsdt_patches tin) 0 aml) \<noteq> - EINVAL"

sublocale tachyon_acpi_bare \<subseteq> acpi_writers_total "tachyon_writers bare_dm aml tin" "tachyon_sigs tin" "tachyon_bounds (aml_length aml)"
proof unfold_locales
  have L: "aml_length aml < 2 ^ 31" using image by (simp add: TACHYON_AML_MAX_def)
  show "list_all2 (\<lambda>w n. writer_bound (aw_h_write w) n) (tachyon_writers bare_dm aml tin) (tachyon_bounds (aml_length aml))"
    unfolding tachyon_writers_def tachyon_bounds_def
    by (simp add: facs_bound dsdt_bound [OF refl image(1) L patched] csrt_bound dbg2_bound builds_table_bound [OF fadt_builds]
      builds_table_bound [OF gtdt_builds] iort_bound builds_table_bound [OF madt_builds] mcfg_bound
      builds_table_bound [OF pptt_builds] spcr_bound tpm2_bound ssdt_bound dev_bound)
  show "length (tachyon_writers bare_dm aml tin) < MAX_ACPI_ITEMS"
    by (simp add: tachyon_writers_def MAX_ACPI_ITEMS_def)
  show "680 + sum_list (tachyon_bounds (aml_length aml)) + 64 * length (tachyon_writers bare_dm aml tin) \<le> TABLE_SIZE"
    using image by (simp add: tachyon_writers_def tachyon_bounds_def TABLE_SIZE_def TACHYON_AML_MAX_def)
qed

context tachyon_acpi_bare
begin

lemma tables_succeed:
  assumes "0 < addr" "addr < 2 ^ 63" "malloc_ok (ac_heap st) SZ_ACPI_CTX"
  shows "\<exists>st'. tachyon_acpi_tables bare_dm aml tin addr st = (0, st')"
  unfolding tachyon_acpi_tables_def using assms by (intro alloc_succeeds) (simp_all add: base_writer_def)

end

context tachyon_acpi
begin

lemma tables_published:
  assumes "tachyon_acpi_tables dm aml tin addr st = (0, st')" "addr < 2 ^ 63"
  shows "acpi_published (sig_seqs (tachyon_sigs tin)) st' \<and> ac_base st' = ALIGN addr 16 \<and> ac_current st' \<le> addr + TABLE_SIZE"
  by (rule alloc_published [OF _ assms(2) assms(1) [unfolded tachyon_acpi_tables_def]]) (simp add: base_writer_def)

end

lemma mem_of_read: "mem_read (length pre) n (mem_of (pre @ bs)) = take n bs" if "n \<le> length bs"
  using that by (intro nth_equalityI) (auto simp: mem_of_def nth_append)

lemma mem_of_write:
  "a + length ds \<le> length bs \<Longrightarrow> mem_write a ds (mem_of bs) = mem_of (take a bs @ ds @ drop (a + length ds) bs)"
  by (auto simp: mem_of_def mem_write_def fun_eq_iff nth_append)

lemma aml_index_length: "aml_index name n bs = Some q \<Longrightarrow> q + 6 + n \<le> length bs"
  by (induction bs arbitrary: q) (auto split: if_splits)

lemma aml_find_index:
  "length name = 4 \<Longrightarrow> aml_find (mem_of (pre @ bs)) name n (length pre) (length (pre @ bs)) = map_option (\<lambda>a. length pre + a) (aml_index name n bs)"
proof (induction bs arbitrary: pre)
  case Nil
  then show ?case by (subst aml_find_step) simp
next
  case (Cons b bs)
  have IH: "aml_find (mem_of (pre @ b # bs)) name n (length pre + 1) (length (pre @ b # bs)) =
      map_option (\<lambda>a. length pre + Suc a) (aml_index name n bs)" using Cons.IH [of "pre @ [b]"] Cons.prems by simp
  show ?case
  proof (cases "length bs \<le> 4 + n")
    case True
    then show ?thesis by (subst aml_find_step) simp
  next
    case False
    then have "mem_read (length pre + 1) 4 (mem_of (pre @ b # bs)) = take 4 bs"
      using mem_of_read [of 4 bs "pre @ [b]"] by simp
    then have "aml_name_at (mem_of (pre @ b # bs)) name (length pre) \<longleftrightarrow> b = AML_NAME_OP \<and> take 4 bs = name"
      by (simp add: aml_name_at_def mem_of_def)
    then show ?thesis using False IH by (subst aml_find_step) (auto simp: option.map_comp comp_def)
  qed
qed

lemma aml_prefix_object:
  "n = 2 \<or> n = 4 \<or> n = 8 \<Longrightarrow> m ob = aml_prefix n \<Longrightarrow> aml_object m ob hi = Some (ob + 1, n)"
  by (auto simp: aml_object_def aml_prefix_def AML_BYTE_PREFIX_def AML_WORD_PREFIX_def AML_DWORD_PREFIX_def
      AML_QWORD_PREFIX_def AML_STRING_PREFIX_def)

lemma patch_buf_mem:
  assumes "patch_buf ps body = Some body'" "length hdr = 36" "le_nat (take 4 (drop 4 hdr)) = 36 + length body"
    "list_all (\<lambda>(name, w, v). length name = 4) ps"
  shows "patch_mem ps 0 (mem_of (hdr @ body)) = (0, mem_of (hdr @ body')) \<and> length body' = length body"
  using assms
proof (induction ps arbitrary: body)
  case (Cons p ps)
  obtain name w v where p: "p = (name, w, v)" by (cases p)
  define n :: nat where "n = (if w = 2 then 2 else if w = 4 then 4 else 8)"
  have n: "n = 2 \<or> n = 4 \<or> n = 8" by (simp add: n_def)
  let ?nm = "take 4 (bytes_of_string name)"
  have nm: "length ?nm = 4" using Cons.prems(4) p by (simp add: bytes_of_string_def)
  obtain q where q: "aml_index ?nm n body = Some q" "body ! (q + 5) = aml_prefix n"
      "patch_buf ps (take (q + 6) body @ le_bytes n v @ drop (q + 6 + n) body) = Some body'"
    using Cons.prems(1) unfolding p by (simp add: n_def [symmetric] Let_def split: option.splits if_splits)
  let ?b = "take (q + 6) body @ le_bytes n v @ drop (q + 6 + n) body"
  let ?m = "mem_of (hdr @ body)"
  have l: "q + 6 + n \<le> length body" using aml_index_length [OF q(1)] .
  have lb: "length ?b = length body" using l by simp
  have "mem_read 4 4 ?m = take 4 (drop 4 hdr)"
    using mem_of_read [of 4 "drop 4 hdr @ body" "take 4 hdr"] Cons.prems(2) by (simp add: append_assoc [symmetric] del: append_assoc)
  then have L: "aml_length ?m = 36 + length body" using Cons.prems(3) by (simp add: aml_length_def)
  have f: "aml_find ?m ?nm n 36 (36 + length body) = Some (36 + q)"
    using aml_find_index [OF nm, of hdr body n] q(1) Cons.prems(2) by simp
  have "?m (36 + q + 5) = aml_prefix n" using l q(2) Cons.prems(2) by (simp add: mem_of_def nth_append add.commute)
  from aml_prefix_object [where m = ?m and ob = "36 + q + 5", OF n this] have ob: "aml_object ?m (36 + q + 5) (36 + length body) = Some (36 + q + 6, n)" by simp
  have w: "mem_write (36 + q + 6) (le_bytes n v) ?m = mem_of (hdr @ ?b)"
    using l Cons.prems(2) by (subst mem_of_write) (simp_all add: ac_simps)
  have "patch_mem (p # ps) 0 ?m = patch_mem ps 0 (mem_of (hdr @ ?b))"
    using f ob l w unfolding p patch_mem.simps n_def [symmetric] L Let_def by simp
  then show ?case using Cons.IH [OF q(3)] Cons.prems(2-) lb by simp
qed simp

lemma aml_prefix_not_name: "AML_NAME_OP \<noteq> aml_prefix w"
  by (simp add: aml_prefix_def AML_NAME_OP_def AML_WORD_PREFIX_def AML_DWORD_PREFIX_def AML_QWORD_PREFIX_def)

lemma aml_index_skip:
  "AML_NAME_OP \<notin> set xs \<Longrightarrow> aml_index name n ys = Some i \<Longrightarrow> aml_index name n (xs @ ys) = Some (length xs + i)"
  using aml_index_length [of name n ys i] by (induction xs) auto

lemma aml_index_obj:
  assumes o: "obj_ok (nm, w, d)" and i: "aml_index name n ys = Some i" and nm: "nm \<noteq> name" "length name = 4"
  shows "aml_index name n (obj_bytes (nm, w, d) @ ys) = Some (length (obj_bytes (nm, w, d)) + i)"
proof -
  have "aml_index name n ((nm @ aml_prefix w # d) @ ys) = Some (length (nm @ aml_prefix w # d) + i)"
    using o i aml_prefix_not_name [of w] by (intro aml_index_skip) auto
  then show ?thesis using o nm aml_index_length [OF i] by simp
qed

lemma obj_body_split:
  assumes "list_all obj_ok objs" "distinct (map fst objs)" "(name, n, d) \<in> set objs"
  shows "\<exists>pre post. obj_body objs = pre @ obj_bytes (name, n, d) @ post \<and> aml_index name n (obj_body objs) = Some (length pre) \<and>
    (\<forall>data. length data = n \<longrightarrow> obj_body (map (set_obj name data) objs) = pre @ obj_bytes (name, n, data) @ post)"
  using assms
proof (induction objs)
  case (Cons x objs)
  obtain nm w d' where x: "x = (nm, w, d')" by (cases x) auto
  show ?case
  proof (cases "nm = name")
    case True
    then have e: "(name, n, d) = x" using Cons.prems x by (force simp: image_iff)
    have "map (set_obj name data) objs = objs" for data
      using Cons.prems(2) x True by (intro map_idI) (force simp: set_obj_def image_iff)
    then show ?thesis using Cons.prems(1) e [symmetric]
      by (intro exI [of _ "[]"] exI [of _ "obj_body objs"]) (auto simp: obj_body_def set_obj_def)
  next
    case False
    then obtain pre post where k: "obj_body objs = pre @ obj_bytes (name, n, d) @ post" "aml_index name n (obj_body objs) = Some (length pre)"
        "\<forall>data. length data = n \<longrightarrow> obj_body (map (set_obj name data) objs) = pre @ obj_bytes (name, n, data) @ post"
      using Cons x by auto
    have b: "obj_body (x # objs) = obj_bytes (nm, w, d') @ obj_body objs" by (simp add: obj_body_def x)
    have o: "obj_ok (name, n, d)" using Cons.prems by (auto simp: list_all_iff)
    have "aml_index name n (obj_body (x # objs)) = Some (length (obj_bytes (nm, w, d') @ pre))"
      unfolding b using aml_index_obj [OF _ k(2), of nm w d'] Cons.prems(1) x False o by simp
    moreover have "obj_body (map (set_obj name data) (x # objs)) = obj_bytes (nm, w, d') @ obj_body (map (set_obj name data) objs)" for data
      using False by (simp add: obj_body_def x set_obj_def)
    ultimately show ?thesis unfolding b using k(1,3)
      by (intro exI [of _ "obj_bytes (nm, w, d') @ pre"] exI [of _ post]) simp
  qed
qed simp

lemma patch_buf_objs:
  assumes "patches_ok objs ps"
  shows "\<exists>objs'. patch_buf ps (obj_body objs) = Some (obj_body objs')"
  using assms
proof (induction ps arbitrary: objs)
  case (Cons p ps)
  obtain name w v where p: "p = (name, w, v)" by (cases p)
  let ?nm = "bytes_of_string name"
  let ?objs = "map (set_obj ?nm (le_bytes w v)) objs"
  have ok: "list_all obj_ok objs" "distinct (map fst objs)" "w = 2 \<or> w = 4 \<or> w = 8" "take 4 ?nm = ?nm" "length ?nm = 4"
      "AML_NAME_OP \<notin> set (le_bytes w v)"
    using Cons.prems by (auto simp: patches_ok_def p bytes_of_string_def)
  obtain d where d: "(?nm, w, d) \<in> set objs" using Cons.prems by (auto simp: patches_ok_def p)
  obtain pre post where k: "obj_body objs = pre @ obj_bytes (?nm, w, d) @ post" "aml_index ?nm w (obj_body objs) = Some (length pre)"
      "obj_body ?objs = pre @ obj_bytes (?nm, w, le_bytes w v) @ post"
    using obj_body_split [OF ok(1,2) d] by auto
  have dl: "length d = w" using ok(1) d by (auto simp: list_all_iff)
  have n: "(if w = 2 then 2 else if w = 4 then 4 else 8) = w" using ok(3) by auto
  have pf: "obj_body objs ! (length pre + 5) = aml_prefix w" using ok(5) by (simp add: k(1) nth_append nth_Cons')
  have b: "take (length pre + 6) (obj_body objs) @ le_bytes w v @ drop (length pre + 6 + w) (obj_body objs) = obj_body ?objs"
    using ok(5) dl by (simp add: k(1,3) add.assoc drop_Cons')
  have "patch_buf (p # ps) (obj_body objs) = patch_buf ps (obj_body ?objs)"
    unfolding p patch_buf.simps n Let_def ok(4) k(2) by (simp add: pf b)
  moreover have "patches_ok ?objs ps"
  proof -
    have "obj_ok (set_obj ?nm (le_bytes w v) x)" if "x \<in> set objs" for x
    proof -
      obtain nm w' d' where x: "x = (nm, w', d')" by (cases x) auto
      have "nm = ?nm \<Longrightarrow> x = (?nm, w, d)" using ok(2) d that x inj_onD [of fst "set objs" x "(?nm, w, d)"] by (simp add: distinct_map)
      then show ?thesis using that ok(1,6) x by (auto simp: set_obj_def list_all_iff)
    qed
    then have l: "list_all obj_ok ?objs" by (simp add: list_all_iff)
    have e: "map fst ?objs = map fst objs" "map (\<lambda>(nm, w, d). (nm, w)) ?objs = map (\<lambda>(nm, w, d). (nm, w)) objs"
      by (auto simp: set_obj_def)
    show ?thesis using Cons.prems l unfolding patches_ok_def p e by simp
  qed
  ultimately show ?case using Cons.IH by simp
qed auto

lemma dsdt_patches_ex:
  "dsdt_patches tachyon_ex_in =
     [(''SOID'', 4, 497), (''STOR'', 4, 1), (''SIDV'', 4, 0), (''SVMJ'', 2, 0), (''SVMI'', 2, 0),
       (''SDFE'', 2, 118), (''SIDM'', 8, 0), (''SUFS'', 4, 0), (''PUS3'', 4, 1), (''SUS3'', 4, 0),
       (''SIDT'', 4, 3), (''SJTG'', 4, 0x001970e1), (''EMUL'', 4, 0), (''PLST'', 4, 1), (''SKUV'', 4, 1),
       (''SDDR'', 4, 4), (''UAON'', 4, 0), (''SOSI'', 8, 0),
       (''RMTB'', 4, 0), (''RMTX'', 4, 0), (''RFAB'', 4, 0), (''RFAS'', 4, 0),
       (''RFMB'', 4, 0), (''RFMS'', 4, 0), (''TCMA'', 4, 0), (''TCML'', 4, 0)]"
  by (simp add: dsdt_patches_def tachyon_ex_in_def tachyon_get_smem_region32_def qcom_find_smem_region_def
      tachyon_read_sku_id_def tachyon_read_emulation_type_def)

lemma le_bytes_num:
  "le_bytes 2 v = [of_nat (v mod 256), of_nat (v div 256 mod 256)]"
  "le_bytes 4 v = [of_nat (v mod 256), of_nat (v div 256 mod 256), of_nat (v div 256 div 256 mod 256), of_nat (v div 256 div 256 div 256 mod 256)]"
  "le_bytes 8 v = le_bytes 4 v @ le_bytes 4 (v div 256 div 256 div 256 div 256)"
proof -
  have n: "(2 :: nat) = Suc (Suc 0)" "(4 :: nat) = Suc (Suc (Suc (Suc 0)))" "(8 :: nat) = Suc (Suc (Suc (Suc (Suc (Suc (Suc (Suc 0)))))))"
    by simp_all
  show "le_bytes 2 v = [of_nat (v mod 256), of_nat (v div 256 mod 256)]"
    "le_bytes 4 v = [of_nat (v mod 256), of_nat (v div 256 mod 256), of_nat (v div 256 div 256 mod 256), of_nat (v div 256 div 256 div 256 mod 256)]"
    "le_bytes 8 v = le_bytes 4 v @ le_bytes 4 (v div 256 div 256 div 256 div 256)"
    by (simp_all only: n le_bytes.simps append.simps)
qed

lemma aml_ex_vals: "list_all (\<lambda>(name, w, v). (w = 2 \<or> w = 4 \<or> w = 8) \<and> length name = 4 \<and> AML_NAME_OP \<notin> set (le_bytes w v)) (dsdt_patches tachyon_ex_in)"
  by (simp add: dsdt_patches_ex AML_NAME_OP_def le_bytes_num)

lemma aml_ex_names:
  "list_all (\<lambda>(name, w, v). AML_NAME_OP \<notin> set (bytes_of_string name)) (dsdt_patches tachyon_ex_in)"
  "distinct (map (\<lambda>(name, w, v). bytes_of_string name) (dsdt_patches tachyon_ex_in))"
  by (simp_all add: dsdt_patches_ex AML_NAME_OP_def bytes_of_string_def)

lemma aml_ex_objs_ok: "patches_ok aml_ex_objs (dsdt_patches tachyon_ex_in)"
proof -
  have "map fst aml_ex_objs = map (\<lambda>(name, w, v). bytes_of_string name) (dsdt_patches tachyon_ex_in)"
    by (auto simp: aml_ex_objs_def)
  moreover have "list_all obj_ok aml_ex_objs"
    unfolding list_all_iff
  proof
    fix x
    assume "x \<in> set aml_ex_objs"
    then obtain name w v where x: "(name, w, v) \<in> set (dsdt_patches tachyon_ex_in)" "x = (bytes_of_string name, w, replicate w 255)"
      by (auto simp: aml_ex_objs_def)
    then show "obj_ok x"
      using bspec [OF aml_ex_vals [unfolded list_all_iff] x(1)] bspec [OF aml_ex_names(1) [unfolded list_all_iff] x(1)]
      by (simp add: bytes_of_string_def AML_NAME_OP_def)
  qed
  moreover have "map (\<lambda>(nm, w, d). (nm, w)) aml_ex_objs = map (\<lambda>(name, w, v). (bytes_of_string name, w)) (dsdt_patches tachyon_ex_in)"
    by (auto simp: aml_ex_objs_def)
  ultimately show ?thesis using aml_ex_names(2) aml_ex_vals unfolding patches_ok_def
    by (auto simp: list_all_iff image_iff intro: bexI [rotated])
qed

lemma aml_ex_length: "length (obj_body aml_ex_objs) = 262"
  by (simp add: obj_body_def aml_ex_objs_def dsdt_patches_ex bytes_of_string_def)

lemma aml_ex_hdr: "length aml_ex_hdr = 36" "le_nat (take 4 (drop 4 aml_ex_hdr)) = 36 + length (obj_body aml_ex_objs)"
  by (simp_all add: aml_ex_hdr_def bytes_of_string_def aml_ex_length le_nat_le_bytes)

lemma aml_ex_patched: "fst (patch_mem (dsdt_patches tachyon_ex_in) 0 aml_ex) = 0"
proof -
  obtain objs where "patch_buf (dsdt_patches tachyon_ex_in) (obj_body aml_ex_objs) = Some (obj_body objs)"
    using patch_buf_objs [OF aml_ex_objs_ok] ..
  from patch_buf_mem [OF this aml_ex_hdr] show ?thesis
    using list.pred_mono_strong [OF aml_ex_vals, of "\<lambda>(name, w, v). length name = 4"] by (simp add: aml_ex_def case_prod_beta)
qed

lemma aml_ex_aml_length: "aml_length aml_ex = 298"
proof -
  have "mem_read 4 4 aml_ex = take 4 (drop 4 aml_ex_hdr)"
    using mem_of_read [of 4 "drop 4 aml_ex_hdr @ obj_body aml_ex_objs" "take 4 aml_ex_hdr"] aml_ex_hdr(1)
    by (simp add: aml_ex_def append_assoc [symmetric] del: append_assoc)
  then show ?thesis using aml_ex_hdr(2) aml_ex_length by (simp add: aml_length_def)
qed

interpretation tachyon_ex: tachyon_acpi_bare aml_ex tachyon_ex_in
  by unfold_locales (simp_all add: aml_ex_aml_length aml_ex_patched TACHYON_AML_MAX_def)

lemma entry_count_table: "n \<le> MAX_ACPI_TABLES \<Longrightarrow> entry_count (36 + 8 * n) 8 = n"
proof -
  assume "n \<le> MAX_ACPI_TABLES"
  then have n: "n \<le> 32" by (simp add: MAX_ACPI_TABLES_def)
  then have "to_int (int (36 + 8 * n) - 36) = 8 * int n" "to_ulong (8 * int n) = 8 * int n" "to_int (int n) = int n"
    by (simp_all add: to_int_def to_ulong_def)
  then show ?thesis by (simp add: entry_count_def)
qed

text \<open>The reader walks the tables that the XSDT lists.\<close>

lemma find_table_wf:
  assumes wf: "acpi_wf st c tabs" and ne: "tabs \<noteq> []"
  shows "acpi_find_table sig st = find_table_loop st (take 4 (bytes_of_string sig)) tabs"
proof -
  have b: "0 < ac_start st" "ac_rsdp st = ac_start st" "0 < ac_xsdt st" "get_field (ac_start st + 24) 8 st = ac_xsdt st"
      "length tabs \<le> MAX_ACPI_TABLES" "get_field (ac_xsdt st + 4) 4 st = 36 + 8 * length tabs"
      "xsdt_entries st = tabs @ replicate (MAX_ACPI_TABLES - length tabs) 0"
    using wf ne by (auto simp: acpi_wf_def layout_ok_def rsdp_ok_def xsdt_ok_def xsdt_length_def)
  have "map (\<lambda>i. get_field (ac_xsdt st + 36 + 8 * i) 8 st) [0..<length tabs] = take (length tabs) (xsdt_entries st)"
    using b(5) by (simp add: xsdt_entries_def take_map)
  also have "\<dots> = tabs" by (simp add: b(7))
  finally show ?thesis using b by (simp add: acpi_find_table_def entry_count_table)
qed

lemma find_table_loop_first:
  assumes "sig \<noteq> bytes_of_string ''DSDT''" "sig \<noteq> bytes_of_string ''FACS''"
  shows "find_table_loop st sig tabs = (case find (\<lambda>a. signature st a = sig) tabs of None \<Rightarrow> 0 | Some a \<Rightarrow> a)"
  using assms by (induction tabs) (auto simp: signature_def Let_def)

text \<open>The context pointer to the DSDT is only set by the DSDT writer.\<close>

lemma write_one_dsdt: "ac_dsdt (snd (acpi_write_one e st)) = ac_dsdt (snd (aw_h_write e (st\<lparr>ac_tab_start := ac_current st\<rparr>)))"
  by (simp add: acpi_write_one_def acpi_add_other_item_def add_item_def acpi_align_def acpi_align64_def Let_def split: prod.split)

lemma csrt_dsdt: "ac_dsdt (snd (acpi_write_csrt acpi_fill_csrt st)) = ac_dsdt st"
  by (simp add: acpi_write_csrt_def acpi_fill_csrt_def Let_def acpi_inc_def get_field_set_checksum get_field_set_same)

lemma dbg2_dsdt: "ac_dsdt (snd (tachyon_write_dbg2 tin st)) = ac_dsdt st"
  by (simp add: tachyon_write_dbg2_def acpi_create_dbg2_def dbg2_fields_def Let_def acpi_inc_def acpi_inc_align_def acpi_align_def split: option.split)

lemma fadt_x_dsdt:
  "get_field (ac_current st + 140) 8 (fadt_fields acpi_fill_fadt st) = ac_dsdt st mod 2 ^ 64"
  "get_field (ac_current st + 8) 1 (fadt_fields acpi_fill_fadt st) = 6"
  by (simp_all add: fadt_fields_def acpi_fill_fadt_def Let_def SZ_FADT_def build_simps rev_byte_def)

lemma tables_keptE:
  assumes "tables_kept S st tabs c st'"
  obtains ts sigs where "acpi_wf st' c (tabs @ ts)" "sigs \<in> S" "map (signature st') ts = take (MAX_ACPI_TABLES - length tabs) sigs"
    "\<And>x. ac_xsdt st + SZ_XSDT \<le> x \<Longrightarrow> x < ac_current st \<Longrightarrow> ac_mem st' x = ac_mem st x"
  using assms by (auto simp: tables_kept_def)

lemma write_all_ConsE:
  assumes "acpi_write_all (e # es) st = (0, st')"
  obtains s where "acpi_write_one e st = (0, s)" "acpi_write_all es s = (0, st')"
proof -
  obtain r s where s: "acpi_write_one e st = (r, s)" by (metis surj_pair)
  then have "r \<noteq> - ENOENT" using write_one_not_enoent [of e st] by simp
  then have "r = 0" "acpi_write_all es s = (0, st')" using assms s by (auto split: if_splits)
  then show ?thesis using s by (intro that) simp_all
qed

lemma write_all_appendE:
  assumes "acpi_write_all (es @ fs) st = (0, st')"
  obtains s where "acpi_write_all es st = (0, s)" "acpi_write_all fs s = (0, st')"
  using assms
proof (induction es arbitrary: st thesis)
  case (Cons e es)
  obtain q where q: "acpi_write_one e st = (0, q)" "acpi_write_all (es @ fs) q = (0, st')"
    using Cons.prems(2) write_all_ConsE [of e "es @ fs" st st'] by auto
  obtain s where "acpi_write_all es q = (0, s)" "acpi_write_all fs s = (0, st')" using Cons.IH [OF _ q(2)] by blast
  then show ?case using q(1) by (intro Cons.prems(1)) simp_all
qed simp

lemma write_one_success:
  assumes w: "aw_h_write e (st\<lparr>ac_tab_start := ac_current st\<rparr>) = (0, s)" and o: "acpi_write_one e st = (0, st')"
  shows "ac_current st' = ALIGN (ac_current s) (if aw_align64 e then 64 else 16)" "ac_mem st' = ac_mem s" "ac_dsdt st' = ac_dsdt s"
    "same_roots s st'"
proof -
  have "st' = snd (acpi_add_other_item (aw_name e) (ac_tab_start s) (s\<lparr>ac_current := ALIGN (ac_current s) (if aw_align64 e then 64 else 16)\<rparr>))"
    using w o by (simp add: acpi_write_one_def acpi_align_def acpi_align64_def Let_def split: if_splits)
  then show "ac_current st' = ALIGN (ac_current s) (if aw_align64 e then 64 else 16)" "ac_mem st' = ac_mem s" "ac_dsdt st' = ac_dsdt s"
    "same_roots s st'"
    by (simp_all add: acpi_add_other_item_def add_item_def Let_def same_roots_def)
qed

lemma write_one_dropped:
  assumes "aw_h_write e (st\<lparr>ac_tab_start := ac_current st\<rparr>) = (- ENOENT, s)"
  shows "acpi_write_one e st = (0, s\<lparr>ac_current := ac_tab_start s\<rparr>)"
  using assms by (simp add: acpi_write_one_def)

text \<open>The FADT writer: where the FADT is, and that it names the DSDT of the context.\<close>

lemma write_fadt_one:
  assumes e: "aw_h_write e = acpi_write_fadt acpi_fill_fadt" and o: "acpi_write_one e st = (0, st')"
    and wf: "acpi_wf st (ac_current st) tabs" "length tabs < MAX_ACPI_TABLES" and lim: "ac_current st' \<le> ac_base st + 2 ^ 31"
  shows "acpi_wf st' (ac_current st') (tabs @ [ac_current st])" "signature st' (ac_current st) = bytes_of_string ''FACP''"
    "get_field (ac_current st + 140) 8 st' = ac_dsdt st mod 2 ^ 64" "get_field (ac_current st + 8) 1 st' = 6"
    "ac_current st + 276 \<le> ac_current st'"
    "\<And>x. ac_xsdt st + SZ_XSDT \<le> x \<Longrightarrow> x < ac_current st \<Longrightarrow> ac_mem st' x = ac_mem st x"
proof -
  let ?a = "ac_current st"
  let ?t = "st\<lparr>ac_tab_start := ?a\<rparr>"
  let ?f = "fadt_fields acpi_fill_fadt ?t"
  let ?d = "table_done ?t ?f"
  have w: "aw_h_write e ?t = (0, ?d\<lparr>ac_current := ?a + 276\<rparr>)"
    using writes_only_sel(2) [OF fadt_writes, of ?t]
    by (simp add: e acpi_write_fadt_def acpi_add_fadt_def Let_def table_done_def SZ_FADT_def acpi_inc_def)
  have k: "ac_current st' = ALIGN (?a + 276) (if aw_align64 e then 64 else 16)" "ac_mem st' = ac_mem ?d" "same_roots ?d st'"
    using write_one_success [OF w o] by (simp_all add: same_roots_def)
  have c: "?a + 276 \<le> ac_current st'" unfolding k(1) using ALIGN_bounds by simp
  have wf': "acpi_wf ?t (ac_current ?t) tabs" using wf(1) by simp
  note b = fadt_built [of ?t]
  have f: "acpi_wf ?d (?a + 276) (add_tab tabs ?a)" "signature ?d ?a = bytes_of_string ''FACP''"
    "\<And>x. ac_xsdt st + SZ_XSDT \<le> x \<Longrightarrow> x < ?a \<Longrightarrow> ac_mem ?d x = ac_mem st x"
    using finish_kept [OF wf' refl, of ?f 276 "bytes_of_string ''FACP''" ?d] b c lim
    by (auto simp: table_built_def table_done_def)
  have x: "ac_xsdt st + SZ_XSDT \<le> ?a" "layout_ok ?f (ac_current st)" using wf(1) b
    by (auto simp: acpi_wf_def layout_ok_def table_built_def same_roots_def)
  have m: "ac_mem ?d y = ac_mem ?f y" if "?a \<le> y" "y \<noteq> ?a + 9" for y
  proof -
    have "layout_ok (set_checksum ?a ?f) ?a" using x(2) by (simp add: layout_ok_def)
    moreover have "ac_xsdt (set_checksum ?a ?f) + SZ_XSDT \<le> y" using x(1) that b by (simp add: table_built_def same_roots_def)
    ultimately have "ac_mem ?d y = ac_mem (set_checksum ?a ?f) y" unfolding table_done_def by (simp add: acpi_add_table_above)
    then show ?thesis using that by (simp add: set_checksum_mem)
  qed
  have g: "get_field (?a + off) n st' = get_field (?a + off) n ?f" if "off + n \<le> 9 \<or> 10 \<le> off" for off n
    unfolding get_field_def k(2) by (rule arg_cong [where f = le_nat], rule mem_read_cong, rule m) (use that in auto)
  show "get_field (?a + 140) 8 st' = ac_dsdt st mod 2 ^ 64" "get_field (?a + 8) 1 st' = 6"
    using fadt_x_dsdt [of ?t] g [of 140 8] g [of 8 1] by simp_all
  have "acpi_wf ?d (ac_current st') (tabs @ [?a])" using acpi_wf_mono [OF f(1) c] wf(2) by (simp add: add_tab_def)
  then show "acpi_wf st' (ac_current st') (tabs @ [?a])" by (rule acpi_wf_frame [OF _ k(3)]) (simp_all add: k(2))
  show "signature st' ?a = bytes_of_string ''FACP''" using f(2) k(2) by (simp add: signature_def)
  show "?a + 276 \<le> ac_current st'" by (rule c)
  show "\<And>x. ac_xsdt st + SZ_XSDT \<le> x \<Longrightarrow> x < ac_current st \<Longrightarrow> ac_mem st' x = ac_mem st x" using f(3) k(2) by simp
qed

lemma sig_literals:
  "bytes_of_string ''FACP'' \<noteq> bytes_of_string ''DSDT''" "bytes_of_string ''DBG2'' \<noteq> bytes_of_string ''FACP''"
  "bytes_of_string ''DBG2'' \<noteq> bytes_of_string ''DSDT''" "take 4 (bytes_of_string ''DSDT'') = bytes_of_string ''DSDT''"
  "take 4 (bytes_of_string ''FACP'') = bytes_of_string ''FACP''"
  by (simp_all add: bytes_of_string_def)

lemma find_loop_skip:
  "list_all (\<lambda>a. signature st a = bytes_of_string ''DBG2'') ts \<Longrightarrow> sig \<noteq> bytes_of_string ''DBG2'' \<Longrightarrow>
     find_table_loop st sig (ts @ hdrs) = find_table_loop st sig hdrs"
  by (induction ts) (auto simp: signature_def Let_def sig_literals)

lemma write_csrt_one:
  assumes "aw_h_write e = acpi_write_csrt acpi_fill_csrt" "acpi_write_one e st = (0, st')"
  shows "ac_current st' = ac_current st"
proof -
  obtain q where "aw_h_write e (st\<lparr>ac_tab_start := ac_current st\<rparr>) = (- ENOENT, q)" "ac_tab_start q = ac_current st"
    by (simp add: assms(1) acpi_write_csrt_def acpi_fill_csrt_def Let_def acpi_inc_def get_field_set_checksum get_field_set_same)
  then show ?thesis using write_one_dropped assms(2) by auto
qed

text \<open>From the DSDT writer to the FADT: the writers for the CSRT, the DBG2 and the FADT.\<close>

lemma fadt_reached:
  assumes run: "acpi_write_all [tachyon_writers dm aml tin ! 2, tachyon_writers dm aml tin ! 3, tachyon_writers dm aml tin ! 4] s = (0, st')"
    and wf: "acpi_wf s (ac_current s) []" and lim: "ac_current st' \<le> ac_base s + 2 ^ 31"
  obtains ts f where "acpi_wf st' (ac_current st') (ts @ [f])" "list_all (\<lambda>a. signature st' a = bytes_of_string ''DBG2'') ts"
    "signature st' f = bytes_of_string ''FACP''" "get_field (f + 140) 8 st' = ac_dsdt s mod 2 ^ 64" "get_field (f + 8) 1 st' = 6"
    "f + 276 \<le> ac_current st'" "tin_win_serial tin = 0 \<longrightarrow> f = ALIGN (ac_current s) 16" "same_roots s st'" "ac_current s \<le> ac_current st'"
    "\<forall>x. ac_xsdt s + SZ_XSDT \<le> x \<and> x < ac_current s \<longrightarrow> ac_mem st' x = ac_mem s x"
proof -
  let ?W = "\<lambda>i. tachyon_writers dm aml tin ! i"
  have h: "aw_h_write (?W 2) = acpi_write_csrt acpi_fill_csrt" "aw_h_write (?W 3) = tachyon_write_dbg2 tin"
    "aw_h_write (?W 4) = acpi_write_fadt acpi_fill_fadt" "\<not> aw_align64 (?W 3)"
    by (simp_all add: tachyon_writers_def)
  obtain s3 where s3: "acpi_write_one (?W 2) s = (0, s3)" "acpi_write_all [?W 3, ?W 4] s3 = (0, st')"
    using run by (rule write_all_ConsE)
  obtain s4 where s4: "acpi_write_one (?W 3) s3 = (0, s4)" "acpi_write_all [?W 4] s4 = (0, st')"
    using s3(2) by (rule write_all_ConsE)
  obtain s5 where "acpi_write_one (?W 4) s4 = (0, s5)" "acpi_write_all [] s5 = (0, st')"
    using s4(2) by (rule write_all_ConsE)
  then have s5: "acpi_write_one (?W 4) s4 = (0, st')" by simp
  note k3 = write_one_ok [OF csrt_ok [folded h(1)] s3(1)] and k4 = write_one_ok [OF dbg2_ok [of tin, folded h(2)] s4(1)]
    and k5 = write_one_ok [OF builds_table_ok [OF fadt_builds singletonI, folded h(3)] s5]
  have roots: "ac_base s3 = ac_base s" "ac_xsdt s3 = ac_xsdt s" "ac_base s4 = ac_base s" "ac_xsdt s4 = ac_xsdt s"
    using k3(1) k4(1) by (simp_all add: same_roots_def)
  have mono: "ac_current s \<le> ac_current s3" "ac_current s3 \<le> ac_current s4" "ac_current s4 \<le> ac_current st'"
    using k3(2) k4(2) k5(2) by simp_all
  have t3: "tables_kept {[]} s [] (ac_current s3) s3" by (rule k3(3) [OF wf]) (use mono lim in simp)
  then have wf3: "acpi_wf s3 (ac_current s3) []" by (elim tables_keptE) simp
  have "tables_kept (if tin_win_serial tin \<noteq> 0 then {[bytes_of_string ''DBG2'']} else {[]}) s3 [] (ac_current s4) s4"
    by (rule k4(3) [OF wf3]) (use mono lim roots in simp)
  then obtain ts sigs where t4: "acpi_wf s4 (ac_current s4) ts" "sigs \<in> (if tin_win_serial tin \<noteq> 0 then {[bytes_of_string ''DBG2'']} else {[]})"
      "map (signature s4) ts = take MAX_ACPI_TABLES sigs"
      "\<And>x. ac_xsdt s3 + SZ_XSDT \<le> x \<Longrightarrow> x < ac_current s3 \<Longrightarrow> ac_mem s4 x = ac_mem s3 x"
    by (elim tables_keptE) simp
  have ts: "list_all (\<lambda>a. signature s4 a = bytes_of_string ''DBG2'') ts" "length ts < MAX_ACPI_TABLES"
    using t4(2,3) by (auto simp: MAX_ACPI_TABLES_def split: if_splits)
  note f = write_fadt_one [OF h(3) s5 t4(1) ts(2) lim [folded roots(3)]]
  have "signature st' a = signature s4 a" if "a \<in> set ts" for a
  proof -
    have "ac_xsdt s4 + SZ_XSDT \<le> a" "a + 36 \<le> ac_current s4" using t4(1) that by (auto simp: acpi_wf_def list_all_iff table_ok_def)
    then show ?thesis unfolding signature_def by (intro mem_read_cong f(6)) auto
  qed
  then have sd: "list_all (\<lambda>a. signature st' a = bytes_of_string ''DBG2'') ts" using ts(1) by (simp add: list_all_iff)
  have "ac_dsdt s3 = ac_dsdt s" using write_one_dsdt [of "?W 2" s] s3(1) by (simp add: h(1) csrt_dsdt)
  moreover have "ac_dsdt s4 = ac_dsdt s3" using write_one_dsdt [of "?W 3" s3] s4(1) by (simp add: h(2) dbg2_dsdt)
  ultimately have d: "get_field (ac_current s4 + 140) 8 st' = ac_dsdt s mod 2 ^ 64" using f(3) by simp
  have "ac_mem st' x = ac_mem s x" if "ac_xsdt s + SZ_XSDT \<le> x" "x < ac_current s" for x
    using f(6) t4(4) t3 mono roots that by (elim tables_keptE) simp
  moreover have "ac_current s4 = ALIGN (ac_current s) 16" if "tin_win_serial tin = 0"
    using write_one_success(1) [of "?W 3" s3 _ s4] s4(1) s3(1) h(2,4) that write_csrt_one [OF h(1)] by (simp add: tachyon_write_dbg2_def)
  moreover have "same_roots s st'" "ac_current s \<le> ac_current st'"
    using same_roots_trans [OF same_roots_trans [OF k3(1) k4(1)] k5(1)] mono by simp_all
  ultimately show ?thesis using that [OF f(1) sd f(2) d f(4,5)] by blast
qed

text \<open>The reader finds as DSDT what the context named, through the FADT.\<close>

lemma dsdt_tracked:
  assumes dm: "acpi_dm_ok dm" and run: "acpi_write_all (drop 2 (tachyon_writers dm aml tin)) s = (0, st')"
    and wf: "acpi_wf s (ac_current s) []" and lim: "ac_current st' \<le> ac_base s + 2 ^ 31" and d: "0 < ac_dsdt s" "ac_dsdt s < 2 ^ 64"
  shows "acpi_find_table ''DSDT'' st' = ac_dsdt s"
    "\<And>x. ac_xsdt s + SZ_XSDT \<le> x \<Longrightarrow> x < ac_current s \<Longrightarrow> ac_mem st' x = ac_mem s x"
    "tin_win_serial tin = 0 \<Longrightarrow> acpi_find_table ''FACP'' st' = ALIGN (ac_current s) 16"
proof -
  let ?W = "\<lambda>i. tachyon_writers dm aml tin ! i"
  have W: "drop 2 (tachyon_writers dm aml tin) = [?W 2, ?W 3, ?W 4] @ drop 5 (tachyon_writers dm aml tin)"
    by (simp add: tachyon_writers_def)
  obtain s5 where s5: "acpi_write_all [?W 2, ?W 3, ?W 4] s = (0, s5)" "acpi_write_all (drop 5 (tachyon_writers dm aml tin)) s5 = (0, st')"
    using run unfolding W by (rule write_all_appendE)
  have "list_all2 (\<lambda>w S. writer_ok (aw_h_write w) S) (drop 5 (tachyon_writers dm aml tin)) (drop 5 (tachyon_sigs tin))"
    using dm tachyon_writers_ok by (simp add: tachyon_writers_def tachyon_sigs_def Let_def)
  note r5 = write_all_kept [OF this s5(2)]
  have l5: "ac_current s5 \<le> ac_base s + 2 ^ 31" using conjunct1 [OF conjunct2 [OF r5]] lim by simp
  obtain ts f where t: "acpi_wf s5 (ac_current s5) (ts @ [f])" "list_all (\<lambda>a. signature s5 a = bytes_of_string ''DBG2'') ts"
    "signature s5 f = bytes_of_string ''FACP''" "get_field (f + 140) 8 s5 = ac_dsdt s mod 2 ^ 64" "get_field (f + 8) 1 s5 = 6"
    "f + 276 \<le> ac_current s5" "tin_win_serial tin = 0 \<longrightarrow> f = ALIGN (ac_current s) 16" "same_roots s s5" "ac_current s \<le> ac_current s5"
    "\<forall>x. ac_xsdt s + SZ_XSDT \<le> x \<and> x < ac_current s \<longrightarrow> ac_mem s5 x = ac_mem s x"
    by (rule fadt_reached [OF s5(1) wf l5])
  have "tables_kept (sig_seqs (drop 5 (tachyon_sigs tin))) s5 (ts @ [f]) (ac_current st') st'"
    using r5 t(1,8) lim by (simp add: same_roots_def)
  then obtain us where u: "acpi_wf st' (ac_current st') ((ts @ [f]) @ us)"
      "\<And>x. ac_xsdt s5 + SZ_XSDT \<le> x \<Longrightarrow> x < ac_current s5 \<Longrightarrow> ac_mem st' x = ac_mem s5 x"
    by (elim tables_keptE) blast
  show "\<And>x. ac_xsdt s + SZ_XSDT \<le> x \<Longrightarrow> x < ac_current s \<Longrightarrow> ac_mem st' x = ac_mem s x"
    using u(2) t(8-10) by (simp add: same_roots_def)
  have x: "ac_xsdt s5 + SZ_XSDT \<le> a" "a + 36 \<le> ac_current s5" if "a \<in> set (ts @ [f])" for a
    using t(1) that by (auto simp: acpi_wf_def list_all_iff table_ok_def)
  have sg: "signature st' a = signature s5 a" if "a \<in> set (ts @ [f])" for a
    unfolding signature_def by (rule mem_read_cong, rule u(2)) (use x [OF that] in auto)
  have g: "get_field (f + off) n st' = get_field (f + off) n s5" if "off + n \<le> 276" for off n
    unfolding get_field_def by (rule arg_cong [where f = le_nat], rule mem_read_cong, rule u(2)) (use that x [of f] t(6) in auto)
  have l: "find_table_loop st' sig ((ts @ [f]) @ us) = find_table_loop st' sig (f # us)" if "sig \<noteq> bytes_of_string ''DBG2''" for sig
    using find_loop_skip [of st' ts sig "f # us"] t(2) sg that by (simp add: list_all_iff)
  have ne: "(ts @ [f]) @ us \<noteq> []" by simp
  have sf: "mem_read f 4 (ac_mem st') = bytes_of_string ''FACP''" using sg [of f] t(3) by (simp add: signature_def)
  have "get_field (f + 140) 8 st' = ac_dsdt s" "get_field (f + 8) 1 st' = 6" using g [of 140 8] g [of 8 1] t(4,5) d by simp_all
  then show "acpi_find_table ''DSDT'' st' = ac_dsdt s"
    unfolding find_table_wf [OF u(1) ne] sig_literals using l [OF sig_literals(3) [symmetric]] sf d
    by (simp add: sig_literals fadt_dsdt_def Let_def)
  show "tin_win_serial tin = 0 \<Longrightarrow> acpi_find_table ''FACP'' st' = ALIGN (ac_current s) 16"
    unfolding find_table_wf [OF u(1) ne] sig_literals using l [OF sig_literals(2) [symmetric]] sf t(7)
    by (simp add: sig_literals Let_def)
qed

lemma patch_mem_length: "aml_length (snd (patch_mem ps ret m)) = aml_length m"
proof (induction ps arbitrary: ret m)
  case (Cons p ps)
  obtain name w v where p: "p = (name, w, v)" by (cases p)
  have e: "aml_length (mem_write ob data m) = aml_length m"
    if "aml_find m nm n 36 hi = Some q" "aml_object m (q + 5) hi = Some (ob, l)" for nm n hi q ob l data
    using aml_find_SomeD(1) [OF that(1)] aml_object_start [OF that(2)] by (intro aml_length_write) simp
  show ?case unfolding p using Cons.IH e by (simp add: Let_def split: option.split prod.split)
qed simp

text \<open>Where the image ends up when all its names are found.\<close>

lemma dsdt_bare_image:
  assumes L: "aml_length aml = L" "36 \<le> L" "L < 2 ^ 31" and p: "patch_mem (dsdt_patches tin) 0 aml = (0, m)"
    and w: "acpi_write_dsdt bare_dm aml (acpi_patch_dsdt tin) st = (r, st')"
  shows "table_ok st' (ac_current st) (ac_current st + L)" "get_field (ac_current st + 4) 4 st' = L"
    "\<And>i. i < L \<Longrightarrow> i \<noteq> 9 \<Longrightarrow> ac_mem st' (ac_current st + i) = m i"
proof -
  let ?a = "ac_current st"
  obtain s where s: "acpi_write_dsdt bare_dm aml (acpi_patch_dsdt tin) st =
      (case acpi_patch_dsdt tin ?a s of (ret, q) \<Rightarrow>
       if ret \<noteq> 0 then (ret, q) else (0, set_checksum ?a (set_field (?a + 9) 1 0 q)))" "image_at ?a L (ac_mem s) aml"
    using dsdt_bare_eq [OF L, of "acpi_patch_dsdt tin" st] by blast
  obtain r' q where q: "acpi_patch_dsdt tin ?a s = (r', q)" by (metis surj_pair)
  have "r' = 0 \<and> image_at ?a L (ac_mem q) m"
    using patch_all_image [OF s(2) L(1,2), of "dsdt_patches tin" 0] q p by (simp add: acpi_patch_dsdt_def)
  then have i: "image_at ?a L (ac_mem q) m" and st': "st' = set_checksum ?a (set_field (?a + 9) 1 0 q)"
    using s(1) q w by simp_all
  let ?q = "set_field (?a + 9) 1 0 q"
  have z: "ac_mem ?q (?a + 9) = 0" by (simp add: set_field_def mem_write_def)
  have m: "ac_mem ?q x = ac_mem q x" if "x \<noteq> ?a + 9" for x using that by (auto simp: set_field_def mem_write_def)
  have "aml_length m = L" using patch_mem_length [of "dsdt_patches tin" 0 aml] p L(1) by simp
  then have "get_field (?a + 4) 4 q = L" using image_length [OF i] L(2) by (simp add: get_field_def)
  moreover have "get_field (?a + 4) 4 ?q = get_field (?a + 4) 4 q" by (rule get_field_set_disjoint) simp
  ultimately have g: "get_field (?a + 4) 4 ?q = L" by simp
  show "table_ok st' ?a (?a + L)" unfolding st' using set_checksum_ok [OF z] g L(2) by simp
  show "get_field (?a + 4) 4 st' = L" unfolding st' using g by (subst get_field_set_checksum) simp_all
  show "\<And>i. i < L \<Longrightarrow> i \<noteq> 9 \<Longrightarrow> ac_mem st' (?a + i) = m i" unfolding st' using i m by (simp add: set_checksum_mem image_at_def)
qed

text \<open>The run behind a successful generation.\<close>

lemma alloc_run:
  assumes "alloc_write_acpi_tables es addr st = (0, st')" "addr < 2 ^ 63"
  shows "acpi_write_all es (acpi_setup_ctx addr (acpi_reset_items st)) = (0, st')" "ac_current st' \<le> addr + TABLE_SIZE" "0 < addr"
proof -
  obtain t s where t: "write_acpi_tables es addr st = (t, s)" by (metis surj_pair)
  have k: "0 < addr" "t \<le> addr + TABLE_SIZE" "st' = s"
    using assms(1) t by (auto simp: alloc_write_acpi_tables_def split: if_splits)
  have "nat (to_ulong (- ENOMEM)) = 2 ^ 64 - 12" by (simp add: to_ulong_def)
  then have "t \<noteq> nat (to_ulong (- ENOMEM))" using k(2) assms(2) by (simp add: TABLE_SIZE_def)
  then have "acpi_write_all es (acpi_setup_ctx addr (acpi_reset_items st)) = (0, s) \<and> t = ac_current s"
    using t unfolding write_acpi_tables_def by (auto split: option.splits prod.splits if_splits)
  then show "acpi_write_all es (acpi_setup_ctx addr (acpi_reset_items st)) = (0, st')" "ac_current st' \<le> addr + TABLE_SIZE" "0 < addr"
    using k by simp_all
qed

text \<open>The state in which the DSDT writer starts.\<close>

lemma dsdt_reached:
  assumes run: "tachyon_acpi_tables dm aml tin addr st = (0, st')" and a: "addr < 2 ^ 63" and dm: "acpi_dm_ok dm"
  obtains s where "acpi_write_all (drop 1 (tachyon_writers dm aml tin)) s = (0, st')" "acpi_wf s (ac_current s) []"
    "ac_current s mod 16 = 0" "ac_base s = ALIGN addr 16" "ac_current st' \<le> ac_base s + 2 ^ 31" "ac_current s \<le> ac_current st'"
proof -
  let ?st = "acpi_setup_ctx addr (acpi_reset_items st)"
  note r = alloc_run [OF run [unfolded tachyon_acpi_tables_def] a]
  have b: "0 < ac_base ?st" "ac_base ?st + 2 ^ 31 \<le> 2 ^ 64" "ac_current ?st = ac_base ?st" "ac_start ?st = ac_base ?st"
    "ac_base ?st = ALIGN addr 16" "addr \<le> ALIGN addr 16" "ac_item_count ?st < MAX_ACPI_ITEMS" "aw_h_write base_writer = acpi_write_base"
    using ALIGN_bounds [of 16 addr] a r(3) by (auto simp: acpi_setup_ctx_def acpi_reset_items_def Let_def MAX_ACPI_ITEMS_def base_writer_def)
  have W: "tachyon_writers dm aml tin = tachyon_writers dm aml tin ! 0 # drop 1 (tachyon_writers dm aml tin)"
    "aw_h_write (tachyon_writers dm aml tin ! 0) = acpi_write_facs" "\<not> aw_align64 (tachyon_writers dm aml tin ! 0)"
    by (simp_all add: tachyon_writers_def)
  obtain s1 where s1: "acpi_write_one base_writer ?st = (0, s1)" "acpi_write_all (tachyon_writers dm aml tin) s1 = (0, st')"
    using r(1) by (rule write_all_ConsE)
  have k1: "acpi_wf s1 (ac_current s1) []" "ac_base s1 = ac_base ?st" using write_one_base [OF b(8,7,1-4)] s1(1) by auto
  obtain s where s: "acpi_write_one (tachyon_writers dm aml tin ! 0) s1 = (0, s)" "acpi_write_all (drop 1 (tachyon_writers dm aml tin)) s = (0, st')"
    using s1(2) by (subst (asm) W(1)) (rule write_all_ConsE)
  note k = write_one_ok [OF facs_ok [folded W(2)] s(1)]
  have "list_all2 (\<lambda>w S. writer_ok (aw_h_write w) S) (drop 1 (tachyon_writers dm aml tin)) (drop 1 (tachyon_sigs tin))"
    using dm tachyon_writers_ok by (simp add: tachyon_writers_def tachyon_sigs_def Let_def)
  then have c: "ac_current s \<le> ac_current st'" using write_all_kept [OF _ s(2), of _ "[]"] by blast
  have lim: "ac_current st' \<le> ac_base s1 + 2 ^ 31" using r(2) b(5,6) k1(2) by (simp add: TABLE_SIZE_def)
  have "tables_kept {[]} s1 [] (ac_current s) s" by (rule k(3) [OF k1(1)]) (use c lim in simp)
  then have wf: "acpi_wf s (ac_current s) []" by (elim tables_keptE) simp
  have "\<exists>q. aw_h_write (tachyon_writers dm aml tin ! 0) (s1\<lparr>ac_tab_start := ac_current s1\<rparr>) = (0, q)"
    unfolding W(2) by (simp add: acpi_write_facs_def Let_def)
  then have "ac_current s mod 16 = 0" using write_one_success(1) [OF _ s(1)] W(3) by (auto simp: ALIGN_def)
  then show ?thesis using that [OF s(2) wf] k(1) lim c k1(2) b(5) by (simp add: same_roots_def)
qed

lemma aml_empty_length: "aml_length aml_empty = 36"
  by (simp add: aml_length_def aml_empty_def mem_of_def mem_read_def upt_rec bytes_of_string_def le_bytes_num)

lemma aml_find_none: "hi \<le> lo + 6 \<Longrightarrow> 0 < n \<Longrightarrow> aml_find m name n lo hi = None"
  by (subst aml_find_step) simp

lemma patch_all_empty:
  "get_field (d + 4) 4 st = 36 \<Longrightarrow> ps \<noteq> [] \<Longrightarrow> patch_all d ps ret st = (ret OR - ENOENT, st)"
proof (induction ps arbitrary: ret)
  case (Cons p ps)
  have "patch_value d p st = (- ENOENT, st)"
    using Cons.prems(1) by (cases p) (simp add: patch_value_name tachyon_acpi_patch_name_def patch_name_scan_spec patch_spec_def aml_find_none)
  then show ?case using Cons by (cases "ps = []") (simp_all add: or.assoc)
qed simp

text \<open>Patching an image at address 0 is patching the image.\<close>

lemma patch_at_zero:
  assumes "acpi_patch_dsdt tin 0 (st\<lparr>ac_mem := aml\<rparr>) = (r, q)" "36 \<le> aml_length aml"
  shows "\<exists>m. patch_mem (dsdt_patches tin) 0 aml = (r, m) \<and> (\<forall>i < aml_length aml. ac_mem q i = m i)"
proof -
  have "image_at 0 (aml_length aml) (ac_mem (st\<lparr>ac_mem := aml\<rparr>)) aml" by (simp add: image_at_def)
  from patch_all_image [OF this refl assms(2), of "dsdt_patches tin" 0] assms(1)
  have "fst (patch_mem (dsdt_patches tin) 0 aml) = r" "image_at 0 (aml_length aml) (ac_mem q) (snd (patch_mem (dsdt_patches tin) 0 aml))"
    by (simp_all add: acpi_patch_dsdt_def)
  then show ?thesis by (metis image_at_def add_0 prod.collapse)
qed

lemma bare_tables_succeed:
  assumes "36 \<le> aml_length aml" "aml_length aml \<le> TACHYON_AML_MAX" "fst (patch_mem (dsdt_patches tin) 0 aml) \<noteq> - EINVAL"
    "0 < addr" "addr < 2 ^ 63" "malloc_ok (ac_heap st) SZ_ACPI_CTX"
  shows "\<exists>st'. tachyon_acpi_tables bare_dm aml tin addr st = (0, st')"
proof -
  have "tachyon_acpi_bare aml tin" using assms(1-3) by unfold_locales
  from tachyon_acpi_bare.tables_succeed [OF this assms(4-6)] show ?thesis .
qed

lemma bare_dsdt_written:
  assumes run: "tachyon_acpi_tables bare_dm aml tin addr st = (0, st')" and a: "addr < 2 ^ 63"
    and L: "36 \<le> aml_length aml" "aml_length aml \<le> TACHYON_AML_MAX"
  obtains s q s3 where "acpi_write_dsdt bare_dm aml (acpi_patch_dsdt tin) (s\<lparr>ac_tab_start := ac_current s\<rparr>) = (fst (patch_mem (dsdt_patches tin) 0 aml), q)"
    "acpi_write_one (tachyon_writers bare_dm aml tin ! 1) s = (0, s3)" "ac_dsdt s3 = ac_current s" "ac_current s mod 16 = 0"
    "acpi_find_table ''DSDT'' st' = ac_current s" "addr \<le> ac_current s" "ac_xsdt s3 + SZ_XSDT \<le> ac_current s" "ac_current s3 \<le> ac_current st'" "0 < ac_current s"
    "\<forall>x. ac_xsdt s3 + SZ_XSDT \<le> x \<and> x < ac_current s3 \<longrightarrow> ac_mem st' x = ac_mem s3 x"
    "tin_win_serial tin = 0 \<longrightarrow> acpi_find_table ''FACP'' st' = ALIGN (ac_current s3) 16"
proof -
  let ?W = "tachyon_writers bare_dm aml tin"
  have W: "drop 1 ?W = ?W ! 1 # drop 2 ?W" "aw_h_write (?W ! 1) = acpi_write_dsdt bare_dm aml (acpi_patch_dsdt tin)"
    by (simp_all add: tachyon_writers_def)
  obtain s where s: "acpi_write_all (drop 1 ?W) s = (0, st')" "acpi_wf s (ac_current s) []" "ac_current s mod 16 = 0"
      "ac_base s = ALIGN addr 16" "ac_current st' \<le> ac_base s + 2 ^ 31" "ac_current s \<le> ac_current st'"
    by (rule dsdt_reached [OF run a bare_dm_ok])
  obtain s3 where s3: "acpi_write_one (?W ! 1) s = (0, s3)" "acpi_write_all (drop 2 ?W) s3 = (0, st')"
    using s(1) unfolding W(1) by (rule write_all_ConsE)
  let ?s = "s\<lparr>ac_tab_start := ac_current s\<rparr>"
  obtain r q where q: "acpi_write_dsdt bare_dm aml (acpi_patch_dsdt tin) ?s = (r, q)" by (metis surj_pair)
  have L': "aml_length aml < 2 ^ 31" using L(2) by (simp add: TACHYON_AML_MAX_def)
  note k = dsdt_bare [OF refl L(1) L' q]
  have d: "ac_dsdt s3 = ac_current s" using write_one_dsdt [of "?W ! 1" s] s3(1) W(2) q k(3) by simp
  note o = write_one_ok [OF dsdt_ok [OF bare_dm_ok acpi_patch_dsdt_ok, of aml tin, folded W(2)] s3(1)]
  have "list_all2 (\<lambda>w S. writer_ok (aw_h_write w) S) (drop 2 ?W) (drop 2 (tachyon_sigs tin))"
    using bare_dm_ok tachyon_writers_ok by (simp add: tachyon_writers_def tachyon_sigs_def Let_def)
  then have c: "ac_current s3 \<le> ac_current st'" using write_all_kept [OF _ s3(2), of _ "[]"] by blast
  have r: "ac_base s3 = ac_base s" "ac_xsdt s3 = ac_xsdt s" using o(1) by (simp_all add: same_roots_def)
  have "tables_kept {[]} s [] (ac_current s3) s3" by (rule o(3) [OF s(2)]) (use c s(5) in simp)
  then have wf3: "acpi_wf s3 (ac_current s3) []" by (elim tables_keptE) simp
  have b: "ac_xsdt s + SZ_XSDT \<le> ac_current s" "0 < ac_base s" "ac_base s \<le> ac_xsdt s" "ac_base s + 2 ^ 31 \<le> 2 ^ 64"
    using s(2) by (auto simp: acpi_wf_def layout_ok_def)
  have n: "0 < ac_current s" "ac_current s < 2 ^ 64" "addr \<le> ac_current s"
    using a b s(4-6) ALIGN_bounds [of 16 addr] by (simp_all add: SZ_XSDT_def MAX_ACPI_TABLES_def)
  note t = dsdt_tracked [OF bare_dm_ok s3(2) wf3 s(5) [folded r(1)] n(1,2) [folded d]]
  show ?thesis
    using that [OF q [unfolded k(1)] s3(1) d s(3) t(1) [unfolded d] n(3)] b(1) c n(1) t(2,3) r(2) by simp
qed

lemma list_find_in: "find P xs = Some x \<Longrightarrow> x \<in> set xs \<and> P x"
  by (induction xs) (auto split: if_splits)

lemma list_find_ex: "x \<in> set xs \<Longrightarrow> P x \<Longrightarrow> \<exists>y. find P xs = Some y"
  by (induction xs) auto

lemma tachyon_tables_names:
  "length (tachyon_tables tin) < MAX_ACPI_TABLES"
  "name \<in> set (tachyon_tables tin) \<Longrightarrow> take 4 (bytes_of_string name) = bytes_of_string name \<and>
     bytes_of_string name \<noteq> bytes_of_string ''DSDT'' \<and> bytes_of_string name \<noteq> bytes_of_string ''FACS''"
  by (auto simp: tachyon_tables_def MAX_ACPI_TABLES_def bytes_of_string_def split: if_splits)

lemma acpi_ex_heap: "malloc_ok (ac_heap acpi_ex_st) SZ_ACPI_CTX"
  by (simp add: acpi_ex_st_def heap_ok_def)

lemma aml_ex_patch_dsdt: "\<exists>q. acpi_patch_dsdt tachyon_ex_in 0 (st\<lparr>ac_mem := aml_ex\<rparr>) = (0, q)"
proof -
  obtain r q where "acpi_patch_dsdt tachyon_ex_in 0 (st\<lparr>ac_mem := aml_ex\<rparr>) = (r, q)" by (metis surj_pair)
  then show ?thesis using patch_at_zero [where aml = aml_ex and st = st and tin = tachyon_ex_in] aml_ex_patched by (auto simp: aml_ex_aml_length)
qed

section \<open>Properties\<close>

text \<open>C37: whatever the drivers add, when \<open>alloc_write_acpi_tables\<close> reports success for the writers of the board, the RSDP, RSDT and
  XSDT and every table the XSDT lists are well formed (complete, inside the area, checksums zero), the area is within the
  allocation, the XSDT lists the tables of the board in their order in front of those of the devices, and \<open>acpi_find_table\<close> finds each of them.\<close>

theorem tachyon_tables_published:
  assumes dm: "acpi_dm_ok dm" and a: "addr < 2 ^ 63" and run: "tachyon_acpi_tables dm aml tin addr st = (0, st')"
  shows "\<exists>tabs rest. acpi_wf st' (ac_current st') tabs \<and> map (signature st') tabs = map bytes_of_string (tachyon_tables tin) @ rest \<and>
    ac_base st' = ALIGN addr 16 \<and> ac_current st' \<le> addr + TABLE_SIZE \<and>
    list_all (\<lambda>name. acpi_find_table name st' \<in> set tabs \<and> signature st' (acpi_find_table name st') = bytes_of_string name) (tachyon_tables tin)"
proof -
  have "tachyon_acpi dm" using dm by unfold_locales
  from tachyon_acpi.tables_published [OF this run a]
  obtain tabs sigs where t: "acpi_wf st' (ac_current st') tabs" "sigs \<in> sig_seqs (tachyon_sigs tin)"
      "map (signature st') tabs = take MAX_ACPI_TABLES sigs" "ac_base st' = ALIGN addr 16" "ac_current st' \<le> addr + TABLE_SIZE"
    by (auto simp: acpi_published_def)
  obtain rest where r: "sigs = map bytes_of_string (tachyon_tables tin) @ rest" using tachyon_sig_seqs [OF t(2)] ..
  have m: "map (signature st') tabs = map bytes_of_string (tachyon_tables tin) @ take (MAX_ACPI_TABLES - length (tachyon_tables tin)) rest"
    using t(3) r tachyon_tables_names(1) [of tin] by simp
  have "acpi_find_table name st' \<in> set tabs \<and> signature st' (acpi_find_table name st') = bytes_of_string name"
    if n: "name \<in> set (tachyon_tables tin)" for name
  proof -
    have "bytes_of_string name \<in> set (map (signature st') tabs)" unfolding m using n by simp
    then obtain b where "b \<in> set tabs" "signature st' b = bytes_of_string name" by auto
    then have "tabs \<noteq> []" "\<exists>c. find (\<lambda>a. signature st' a = bytes_of_string name) tabs = Some c"
      using list_find_ex [of b tabs "\<lambda>a. signature st' a = bytes_of_string name"] by auto
    then obtain c where c: "find (\<lambda>a. signature st' a = bytes_of_string name) tabs = Some c" "tabs \<noteq> []" by blast
    then have "acpi_find_table name st' = c"
      using find_table_wf [OF t(1) c(2), of name] tachyon_tables_names(2) [OF n] by (simp add: find_table_loop_first)
    then show ?thesis using list_find_in [OF c(1)] by simp
  qed
  then show ?thesis using t(1,4,5) m by (auto simp: list_all_iff)
qed

theorem tachyon_tables_published_witness:
  "\<exists>st' tabs rest. tachyon_acpi_tables bare_dm aml_ex tachyon_ex_in 0x80000000 acpi_ex_st = (0, st') \<and> acpi_wf st' (ac_current st') tabs \<and>
    map (signature st') tabs = map bytes_of_string [''FACP'', ''GTDT'', ''APIC'', ''PPTT''] @ rest \<and>
    list_all (\<lambda>name. acpi_find_table name st' \<in> set tabs \<and> signature st' (acpi_find_table name st') = bytes_of_string name)
      [''FACP'', ''GTDT'', ''APIC'', ''PPTT'']"
proof -
  obtain st' where st': "tachyon_acpi_tables bare_dm aml_ex tachyon_ex_in 0x80000000 acpi_ex_st = (0, st')"
    using tachyon_ex.tables_succeed [OF _ _ acpi_ex_heap, of "0x80000000"] by auto
  have "tachyon_tables tachyon_ex_in = [''FACP'', ''GTDT'', ''APIC'', ''PPTT'']" by (simp add: tachyon_tables_def tachyon_ex_in_def)
  then show ?thesis using st' tachyon_tables_published [OF bare_dm_ok _ st'] by auto
qed

text \<open>C38: without devices, and for an AML image of 36 to 250000 bytes in which the board finds all the objects it patches, the generation
  succeeds, and \<open>acpi_find_table\<close> finds as DSDT the patched image with a checksum that makes its bytes sum to zero.\<close>

theorem tachyon_dsdt_found:
  assumes L: "36 \<le> aml_length aml" "aml_length aml \<le> TACHYON_AML_MAX" and p: "acpi_patch_dsdt tin 0 (st\<lparr>ac_mem := aml\<rparr>) = (0, q)"
    and a: "0 < addr" "addr < 2 ^ 63" "malloc_ok (ac_heap st) SZ_ACPI_CTX"
  shows "\<exists>st' d. tachyon_acpi_tables bare_dm aml tin addr st = (0, st') \<and> acpi_find_table ''DSDT'' st' = d \<and> addr \<le> d \<and>
    table_ok st' d (ac_current st') \<and> get_field (d + 4) 4 st' = aml_length aml \<and>
    (\<forall>i < aml_length aml. i \<noteq> 9 \<longrightarrow> ac_mem st' (d + i) = ac_mem q i)"
proof -
  obtain m where m: "patch_mem (dsdt_patches tin) 0 aml = (0, m)" "\<forall>i < aml_length aml. ac_mem q i = m i"
    using patch_at_zero [OF p L(1)] by blast
  obtain st' where run: "tachyon_acpi_tables bare_dm aml tin addr st = (0, st')"
    using bare_tables_succeed [OF L _ a, of tin] m by auto
  obtain s u s3 where s: "acpi_write_dsdt bare_dm aml (acpi_patch_dsdt tin) (s\<lparr>ac_tab_start := ac_current s\<rparr>) = (fst (patch_mem (dsdt_patches tin) 0 aml), u)"
    "acpi_write_one (tachyon_writers bare_dm aml tin ! 1) s = (0, s3)" "ac_dsdt s3 = ac_current s" "ac_current s mod 16 = 0"
    "acpi_find_table ''DSDT'' st' = ac_current s" "addr \<le> ac_current s" "ac_xsdt s3 + SZ_XSDT \<le> ac_current s" "ac_current s3 \<le> ac_current st'" "0 < ac_current s"
    "\<forall>x. ac_xsdt s3 + SZ_XSDT \<le> x \<and> x < ac_current s3 \<longrightarrow> ac_mem st' x = ac_mem s3 x"
    "tin_win_serial tin = 0 \<longrightarrow> acpi_find_table ''FACP'' st' = ALIGN (ac_current s3) 16"
    by (rule bare_dsdt_written [OF run a(2) L])
  let ?d = "ac_current s" and ?L = "aml_length aml"
  have L': "?L < 2 ^ 31" using L(2) by (simp add: TACHYON_AML_MAX_def)
  have w: "aw_h_write (tachyon_writers bare_dm aml tin ! 1) (s\<lparr>ac_tab_start := ?d\<rparr>) = (0, u)" "\<not> aw_align64 (tachyon_writers bare_dm aml tin ! 1)"
    using s(1) m(1) by (simp_all add: tachyon_writers_def)
  note o = write_one_success [OF w(1) s(2)]
  have c: "?d + ?L \<le> ac_current s3" unfolding o(1) using dsdt_bare(2) [OF refl L(1) L' s(1)] ALIGN_bounds w(2) by simp
  have e: "ac_mem st' (?d + i) = ac_mem u (?d + i)" if "i < ?L" for i using s(7,10) c that o(2) by simp
  note k = dsdt_bare_image [OF refl L(1) L' m(1) s(1)]
  have rd: "mem_read (?d + off) n (ac_mem st') = mem_read (?d + off) n (ac_mem u)" if "off + n \<le> ?L" for off n
  proof (rule mem_read_cong)
    fix x
    assume "?d + off \<le> x" "x < ?d + off + n"
    then show "ac_mem st' x = ac_mem u x" using e [of "x - ?d"] that by simp
  qed
  have g: "get_field (?d + 4) 4 st' = ?L" using k(2) rd [of 4 4] L(1) by (simp add: get_field_def)
  have "csum ?d ?L st' = csum ?d ?L u" unfolding csum_def using rd [of 0 ?L] by simp
  then have "table_ok st' ?d (ac_current st')" using k(1,2) g c s(8) by (simp add: table_ok_def)
  then show ?thesis using run s(5,6) g e k(3) m(2) by (intro exI [of _ st'] exI [of _ ?d]) simp
qed

theorem tachyon_dsdt_found_witness:
  "\<exists>st' q d. tachyon_acpi_tables bare_dm aml_ex tachyon_ex_in 0x80000000 acpi_ex_st = (0, st') \<and>
    acpi_patch_dsdt tachyon_ex_in 0 (acpi_ex_st\<lparr>ac_mem := aml_ex\<rparr>) = (0, q) \<and> acpi_find_table ''DSDT'' st' = d \<and>
    table_ok st' d (ac_current st') \<and> get_field (d + 4) 4 st' = 298 \<and> list_all (\<lambda>i. ac_mem st' (d + i) = ac_mem q i) [10..<298]"
proof -
  obtain q where q: "acpi_patch_dsdt tachyon_ex_in 0 (acpi_ex_st\<lparr>ac_mem := aml_ex\<rparr>) = (0, q)" using aml_ex_patch_dsdt by blast
  have h: "36 \<le> aml_length aml_ex" "aml_length aml_ex \<le> TACHYON_AML_MAX"
    by (simp_all add: aml_ex_aml_length TACHYON_AML_MAX_def acpi_ex_st_def)
  obtain st' where "tachyon_acpi_tables bare_dm aml_ex tachyon_ex_in 0x80000000 acpi_ex_st = (0, st')"
      "table_ok st' (acpi_find_table ''DSDT'' st') (ac_current st')" "get_field (acpi_find_table ''DSDT'' st' + 4) 4 st' = 298"
      "\<forall>i < 298. i \<noteq> 9 \<longrightarrow> ac_mem st' (acpi_find_table ''DSDT'' st' + i) = ac_mem q i"
    using tachyon_dsdt_found [OF h(1,2) q _ _ acpi_ex_heap, of "0x80000000"] by (auto simp: aml_ex_aml_length)
  then show ?thesis using q by (intro exI [of _ st'] exI [of _ q]) (simp add: list_all_iff)
qed

text \<open>C39: when an object is missing from the AML image, the generation still succeeds: the DSDT is dropped, but the context keeps its
  address, and with the serial console off the FADT, which is written there, names itself as the DSDT.\<close>

theorem tachyon_dsdt_lost:
  assumes L: "36 \<le> aml_length aml" "aml_length aml \<le> TACHYON_AML_MAX" and p: "acpi_patch_dsdt tin 0 (st\<lparr>ac_mem := aml\<rparr>) = (- ENOENT, q)"
    and t: "tin_win_serial tin = 0" and a: "0 < addr" "addr < 2 ^ 63" "malloc_ok (ac_heap st) SZ_ACPI_CTX"
  shows "\<exists>st'. tachyon_acpi_tables bare_dm aml tin addr st = (0, st') \<and> acpi_find_table ''DSDT'' st' = acpi_find_table ''FACP'' st' \<and>
    acpi_find_table ''FACP'' st' \<noteq> 0"
proof -
  obtain m where m: "patch_mem (dsdt_patches tin) 0 aml = (- ENOENT, m)" using patch_at_zero [OF p L(1)] by blast
  obtain st' where run: "tachyon_acpi_tables bare_dm aml tin addr st = (0, st')"
    using bare_tables_succeed [OF L _ a, of tin] m by auto
  obtain s u s3 where s: "acpi_write_dsdt bare_dm aml (acpi_patch_dsdt tin) (s\<lparr>ac_tab_start := ac_current s\<rparr>) = (fst (patch_mem (dsdt_patches tin) 0 aml), u)"
    "acpi_write_one (tachyon_writers bare_dm aml tin ! 1) s = (0, s3)" "ac_dsdt s3 = ac_current s" "ac_current s mod 16 = 0"
    "acpi_find_table ''DSDT'' st' = ac_current s" "addr \<le> ac_current s" "ac_xsdt s3 + SZ_XSDT \<le> ac_current s" "ac_current s3 \<le> ac_current st'" "0 < ac_current s"
    "\<forall>x. ac_xsdt s3 + SZ_XSDT \<le> x \<and> x < ac_current s3 \<longrightarrow> ac_mem st' x = ac_mem s3 x"
    "tin_win_serial tin = 0 \<longrightarrow> acpi_find_table ''FACP'' st' = ALIGN (ac_current s3) 16"
    by (rule bare_dsdt_written [OF run a(2) L])
  have w: "aw_h_write (tachyon_writers bare_dm aml tin ! 1) (s\<lparr>ac_tab_start := ac_current s\<rparr>) = (- ENOENT, u)"
    using s(1) m by (simp add: tachyon_writers_def)
  have "aml_length aml < 2 ^ 31" using L(2) by (simp add: TACHYON_AML_MAX_def)
  then have "ac_tab_start u = ac_current s" using dsdt_bare(4) [OF refl L(1) _ s(1)] by simp
  then have "ac_current s3 = ac_current s" using write_one_dropped [OF w] s(2) by auto
  moreover have "ALIGN (ac_current s) 16 = ac_current s" using s(4) by (auto simp: ALIGN_def)
  ultimately show ?thesis using run s(5,9,11) t by simp
qed

theorem tachyon_dsdt_lost_witness:
  "\<exists>st'. tachyon_acpi_tables bare_dm aml_empty tachyon_ex_in 0x80000000 acpi_ex_st = (0, st') \<and>
    acpi_find_table ''DSDT'' st' = acpi_find_table ''FACP'' st' \<and> acpi_find_table ''FACP'' st' \<noteq> 0"
proof -
  have "get_field 4 4 (acpi_ex_st\<lparr>ac_mem := aml_empty\<rparr>) = 36" using aml_empty_length by (simp add: aml_length_def get_field_def)
  then have q: "acpi_patch_dsdt tachyon_ex_in 0 (acpi_ex_st\<lparr>ac_mem := aml_empty\<rparr>) = (- ENOENT, acpi_ex_st\<lparr>ac_mem := aml_empty\<rparr>)"
    using patch_all_empty [of 0 "acpi_ex_st\<lparr>ac_mem := aml_empty\<rparr>" "dsdt_patches tachyon_ex_in" 0] by (simp add: acpi_patch_dsdt_def dsdt_patches_ex)
  have h: "36 \<le> aml_length aml_empty" "aml_length aml_empty \<le> TACHYON_AML_MAX" "tin_win_serial tachyon_ex_in = 0"
    by (simp_all add: aml_empty_length TACHYON_AML_MAX_def acpi_ex_st_def tachyon_ex_in_def)
  show ?thesis by (rule tachyon_dsdt_lost [OF h(1,2) q h(3) _ _ acpi_ex_heap]) simp_all
qed

text \<open>C40: \<open>tachyon_acpi_patch_name\<close> patches the first place behind the header where the name operator and the name stand and the data
  would still fit, when the object there has the length of the data; it changes nothing else and reports a missing name and an object of another
  length.\<close>

theorem tachyon_patch_name_first:
  "tachyon_acpi_patch_name dsdt name data st =
    (let hi = dsdt + get_field (dsdt + 4) 4 st in
     case find (\<lambda>q. q + 6 + length data \<le> hi \<and> ac_mem st q = AML_NAME_OP \<and> mem_read (q + 1) 4 (ac_mem st) = take 4 (bytes_of_string name)) [dsdt + 36..<hi] of
       None \<Rightarrow> (- ENOENT, st)
     | Some q \<Rightarrow>
         if aml_object (ac_mem st) (q + 5) hi = Some (q + 6, length data)
         then (0, st\<lparr>ac_mem := mem_write (q + 6) data (ac_mem st)\<rparr>) else (- EINVAL, st))"
proof -
  define hi where "hi = dsdt + get_field (dsdt + 4) 4 st"
  let ?nm = "take 4 (bytes_of_string name)"
  have f: "find (\<lambda>q. q + 6 + length data \<le> hi \<and> ac_mem st q = AML_NAME_OP \<and> mem_read (q + 1) 4 (ac_mem st) = ?nm) [dsdt + 36..<hi] =
      aml_find (ac_mem st) ?nm (length data) (dsdt + 36) hi"
    by (simp add: aml_find_def aml_name_at_def)
  have e: "tachyon_acpi_patch_name dsdt name data st = patch_spec ?nm data (dsdt + 36) hi st"
    by (simp add: tachyon_acpi_patch_name_def patch_name_scan_spec hi_def)
  have o: "o' = q + 6" if "aml_object (ac_mem st) (q + 5) hi = Some (o', l)" for q o' l
    using aml_object_start [OF that] by simp
  show ?thesis unfolding hi_def [symmetric] Let_def f e
    by (auto simp: patch_spec_def put_bytes_def dest: o aml_find_SomeD(2) split: option.split)
qed

end
