(* ===== verification/Spec2Isabelle.thy ===== *)
theory Spec2Isabelle
  imports Membuff Lmb_Alloc Tachyon Acpi_Board
begin

text \<open>
  \<^bold>\<open>U-Boot for the Particle Tachyon: memory maps, storage, modem file system and ACPI tables\<close>

  The repository is U-Boot with the board port of the Particle Tachyon (a Qualcomm QCM6490). This
  library models the code that decides where things are in memory and what the operating system is
  told: the generic containers and the memory allocator of lib/, the block layer and SCSI disks, the
  board code with its reader for the modem's file system, and the generation of the ACPI tables.

  \<^bold>\<open>How the parts interact.\<close> At start-up the board reads the RAM banks from shared memory, sorts them
  (lib/qsort.c), and builds the memory map from which reserved regions are carved out. The LMB
  (lib/lmb.c) keeps the available and the used memory in two object lists (lib/alist.c); boot code
  reserves and allocates from it. For the MAC addresses the board mounts the EFS image of the modem,
  which it reads through the partition table, the block cache and bounce buffers, and the SCSI disk
  of the UFS device; it applies device tree overlays listed in a file. In the last stage of the
  start-up the ACPI tables are written into an area of 256 KiB by a list of writers, patched and
  linked to the root tables, and later found again through them.

  \<^bold>\<open>Theories.\<close>
  \<^item> \<open>Prelude\<close>: fixed-width types, C conversions (\<open>to_int\<close>, \<open>to_ulong\<close>), error numbers, \<open>c_heap\<close> (whether
    an allocation succeeds, and what fresh memory holds), little-endian fields, C strings, ranges.
  \<^item> \<open>Membuff\<close> (lib/membuff.c): the ring buffer as a record of offsets over a block of bytes; every
    function. A FIFO contract (locale \<open>byte_fifo\<close>) is interpreted on it.
  \<^item> \<open>Alist\<close> (lib/alist.c, include/alist.h): the object list with its 16-bit counts; locale \<open>room_list\<close>.
  \<^item> \<open>Lmb\<close>, \<open>Lmb_Alloc\<close> (lib/lmb.c): one region list with its sorted, disjoint invariant and its meaning
    as a map from addresses to flags; then the global map, IOVA maps, allocation and queries.
  \<^item> \<open>Efs\<close>, \<open>Efs_File\<close> (board/particle/tachyon/efs*.c and .h): the on-disk structures as bytes, the directory
    database with its iterators, paths, mounting and files. Locale \<open>efs_device\<close> is what they need of a device.
  \<^item> \<open>Blk\<close> (drivers/block, common/bouncebuf.c), \<open>Scsi\<close> (drivers/scsi/scsi.c): the block cache, bounce
    buffers and block operations over a driver (locale \<open>blk_driver\<close>), and the SCSI disk, which provides one.
  \<^item> \<open>Env\<close> (env/common.c, env/flags.c, lib/hashtable.c): setting and reading environment variables with the checks
    of their types and access modes; the hash table appears as the variables it holds.
  \<^item> \<open>Qsort\<close> (lib/qsort.c), \<open>Board\<close> (arch/arm/mach-snapdragon/board.c, qcom_dram.c): the sort, the RAM
    banks, the memory map, the carve-outs and the environment of the board.
  \<^item> \<open>Tachyon\<close> (board/particle/tachyon/tachyon.c): partitions, MAC addresses, overlays and reset mode.
  \<^item> \<open>Acpi_Table\<close> (lib/acpi/base.c, acpi.c, parts of acpi_table.c): a memory of bytes, \<open>struct acpi_ctx\<close>, root tables
    and \<open>acpi_find_table\<close>; the invariant \<open>acpi_wf\<close> and that \<open>acpi_add_table\<close> keeps it.
  \<^item> \<open>Acpi_Writer\<close> (lib/acpi/acpi_writer.c, drivers/core/acpi.c, the generic tables): the contract \<open>writer_ok\<close> of a
    writer, and in the locale \<open>acpi_writers\<close> that a list of such writers publishes well-formed tables;
    \<open>acpi_writers_total\<close> adds bounds under which the generation succeeds.
  \<^item> \<open>Acpi_Tachyon\<close>, \<open>Acpi_Board\<close> (board/particle/tachyon/acpi.c): the tables and hooks of the board, which are
    instances of these locales, and the properties of the generation as a whole.

  \<^bold>\<open>What is shown.\<close> The ring buffer refines a bounded queue; the region lists stay sorted and disjoint
  and change their address map exactly as asked; \<open>_lmb_alloc_base\<close> returns the highest address that
  fits; the block cache and bounce buffers are transparent over any sequence of requests; SCSI transfers
  finish; EFS paths resolve to the entries of the database, and files read back what is stored; qsort
  sorts; the memory map covers the banks and the carve-outs the reserved regions; the ACPI tables are
  complete, sum to zero and are found by the reader, and the DSDT found is the patched image.
  \<open>tachyon_wifi_mac\<close> below composes SCSI, block cache, EFS and board code. Theorems that state a
  defect of the code (for instance \<open>lmb_add_region_lost\<close>, \<open>scsi_read_error_hidden\<close>, \<open>tachyon_dsdt_lost\<close>) are proved of
  the model as the code is; elsewhere the hypotheses name the inputs for which the code is right.

  \<^bold>\<open>Conventions and bounds.\<close> A C function is a HOL function on an explicit state that returns the C result;
  an access outside an object or through a null pointer, or a loop that does not end, is \<open>None\<close>. Integers
  are words or \<open>int\<close>/\<open>nat\<close> with the conversions written out. Loops are \<open>fun\<close> or \<open>function\<close> with a
  termination proof; those that may not end (\<open>partial_function (option)\<close>) have theorems that give their
  result. There is no fuel. \<open>acpi_wf\<close> limits the tables to 2 GiB, far above the 256 KiB of \<open>TABLE_SIZE\<close>, so that
  lengths fit their fields; \<open>TACHYON_AML_MAX\<close>, 250000 bytes, leaves room for the other tables in that area.

  \<^bold>\<open>Parameters.\<close> Hardware and code outside the components appear as arguments: the SCSI host
  (hypothesis \<open>scsi_host_ok\<close>), partition drivers, the general file systems, the device tree library, the PMIC, heap, the shared
  memory table, fuse registers, the flags and callbacks configured for environment variables, the AML image that the ASL compiler produces, and the ACPI
  methods of drivers (hypothesis \<open>acpi_dm_ok\<close>: they extend the table that is being written and do not touch others).

  \<^bold>\<open>Not modelled.\<close> Drivers, other boards and architectures, the network stack, general file systems, the EFI
  loader, boot methods, the command line, libfdt, compression and cryptography, host tools and data of the build: most
  of it accesses hardware or is imported, and none of it is called by the components but through the
  parameters above. Of the ACPI code, AML generation for drivers, NHLT, DMAR, the PCI UART debug table, the parking
  protocol and the disabled parts of the board's IORT and CSRT are left out; the board does not reach them.
  Of the environment, hashing, storage, import and export are left out. Console and log output is left out everywhere. Pointers are addresses or indices, so aliasing between the
  buffers a caller passes is not represented outside the ACPI memory.
\<close>

text \<open>C35: with a SCSI host that executes its commands, a coherent block cache, and a partition whose EFS database has the file
  \<open>/nvm/num/4678\<close> with inline data of at least six bytes, the WiFi nodes of the device tree get the first six bytes of the
  file as their MAC address when the environment has none.\<close>

theorem tachyon_wifi_mac:
  assumes host: "scsi_host_ok exec" and disk: "scsi_good plat desc dev" "bx_desc blk = Some desc" "fsg_ready h desc (bx_info blk) dev"
    and cache: "cache_coherent m c" "m (desc_id desc) = dev"
    and db: "efs_database (fsg_image desc (bx_info blk) dev) ctx ns"
    and root: "(s0, p0, e0) \<in> set (efs_entries ns)" "ent_self (inode_root ctx) e0"
    and found: "efs_lookup (efs_entries ns) (inode_root ctx)
      (path_pieces [] (dropWhile (\<lambda>c. c = EFS_PATH_SEPARATOR) (bytes_of_string ''/nvm/num/4678''))) = Some (s, p, e)"
    and fil: "efs_entry_wf e" "ent_inline e" "6 \<le> length (ent_data e)"
    and env: "enet ''wlanaddr'' (replicate 6 0) = (False, buffer)" "length buffer = 6" and ali: "get_alias ''wlan'' = Some path"
  shows "wifi_setup h (fsg_rd h (scsi_blk_ops exec plat ccb al) dev c blk) ctx enet get_alias (replicate 6 0) =
    Some (take 6 (ent_data e), [(path, ''local-mac-address'', take 6 (ent_data e)), (path, ''mac-address'', take 6 (ent_data e))])"
proof -
  let ?rd = "fsg_rd h (scsi_blk_ops exec plat ccb al) dev c blk"
  have dev: "efs_device ?rd (fsg_image desc (bx_info blk) dev)"
    using fsg_device [OF scsi_blk_driver [OF host] cache(1) disk(2) cache(2) disk(1,3)] .
  have sep: "bytes_of_string ''/nvm/num/4678'' = EFS_PATH_SEPARATOR # bytes_of_string ''nvm/num/4678''" by code_simp
  have mem: "malloc_ok h 4312" using disk(3) by (simp add: fsg_ready_def)
  have "blit 0 (take 6 (ent_data e)) buffer = take 6 (ent_data e)" using fil(3) env(2) by (simp add: blit_def)
  with efs_read_file_inline [OF dev db root sep found fil(1,2) mem env(2)] fil(3)
  have "efs_read_file h ?rd ctx (bytes_of_string ''/nvm/num/4678'') buffer 6 = Some (6, take 6 (ent_data e))" by simp
  from wifi_setup_mac [where enet = enet and get_alias = get_alias, OF this env(1) ali] show ?thesis .
qed

theorem tachyon_wifi_mac_witness:
  "wifi_setup heap_ok (fsg_rd heap_ok (scsi_blk_ops scsi_disk scsi_ex_plat scsi_ex_cmd None) tachyon_ex_disk block_cache_initial tachyon_ex_blk)
     tachyon_ex_ctx (\<lambda>_ b. (False, b)) (\<lambda>_. Some ''/wifi'') (replicate 6 0) =
   Some ([2, 4, 6, 8, 10, 12], [(''/wifi'', ''local-mac-address'', [2, 4, 6, 8, 10, 12]), (''/wifi'', ''mac-address'', [2, 4, 6, 8, 10, 12])])"
proof -
  let ?e = "snd (tachyon_ex_entries ! 3)"
  have r: "(0, 18, snd (tachyon_ex_entries ! 0)) \<in> set (efs_entries tachyon_ex_nodes)"
    "ent_self (inode_root tachyon_ex_ctx) (snd (tachyon_ex_entries ! 0))" by code_simp+
  have l: "efs_lookup (efs_entries tachyon_ex_nodes) (inode_root tachyon_ex_ctx)
      (path_pieces [] (dropWhile (\<lambda>c. c = EFS_PATH_SEPARATOR) (bytes_of_string ''/nvm/num/4678''))) = Some (0, 60, ?e)"
    by code_simp
  have f: "efs_entry_wf ?e" "ent_inline ?e" "6 \<le> length (ent_data ?e)" "take 6 (ent_data ?e) = [2, 4, 6, 8, 10, 12]" by code_simp+
  have d: "bx_desc tachyon_ex_blk = Some tachyon_ex_desc" by (simp add: tachyon_ex_blk_def)
  from tachyon_wifi_mac [where m = "\<lambda>_. tachyon_ex_disk" and enet = "\<lambda>_ b. (False, b)" and get_alias = "\<lambda>_. Some ''/wifi''" and buffer = "replicate 6 0",
      OF scsi_disk_ok tachyon_ex_good d tachyon_ex_ready block_cache_initial_coherent refl tachyon_ex_database [folded tachyon_ex_image] r l
        f(1-3) refl length_replicate refl] f(4)
  show ?thesis by simp
qed

end
